(* ===== verification/Prelude.thy ===== *)
theory Prelude
  imports Main "HOL-Library.Sublist" "HOL-Library.AList"
begin

text \<open>
  What every component shares: the type of bytes and of text that came off the wire, results
  that carry an exception, Python's insertion-ordered dictionary as an association list, and
  substring search, with the lemmas about them that the component proofs use.

  A byte is a HOL character (8 bits), so a bytes object is a character list. Text decoded
  from Latin-1 has one code point below 256 for each byte, so it is a character list too and
  decoding is the identity.
\<close>

section \<open>Types\<close>

type_synonym bytes = "char list"
type_synonym latin = "char list"


section \<open>Results\<close>

text \<open>
  A call that may raise returns \<open>Inl\<close> of what was raised or \<open>Inr\<close> of its value; the
  next call runs only after a value.
\<close>

fun and_then :: "'e + 'a \<Rightarrow> ('a \<Rightarrow> 'e + 'b) \<Rightarrow> 'e + 'b" where
  "and_then (Inl e) f = Inl e"
| "and_then (Inr a) f = f a"

lemma and_then_Inr_iff: "and_then r f = Inr b \<longleftrightarrow> (\<exists>a. r = Inr a \<and> f a = Inr b)"
  by (cases r) auto

lemma and_then_Inl_iff: "and_then r f = Inl e \<longleftrightarrow> r = Inl e \<or> (\<exists>a. r = Inr a \<and> f a = Inl e)"
  by (cases r) auto

lemma and_then_assoc: "and_then (and_then r f) g = and_then r (\<lambda>a. and_then (f a) g)"
  by (cases r) auto

lemma and_then_Inr_right [simp]: "and_then r Inr = r"
  by (cases r) auto

section \<open>Dictionaries\<close>

text \<open>
  A Python dict keeps its keys in the order of their first insertion and overwrites a value
  in place: an association list with distinct keys, updated by \<open>AList.update\<close>.
\<close>

type_synonym ('k, 'v) dict = "('k \<times> 'v) list"

abbreviation dict_get :: "('k, 'v) dict \<Rightarrow> 'k \<Rightarrow> 'v option" where
  "dict_get \<equiv> map_of"

abbreviation dict_set :: "'k \<Rightarrow> 'v \<Rightarrow> ('k, 'v) dict \<Rightarrow> ('k, 'v) dict" where
  "dict_set \<equiv> AList.update"

abbreviation dict_keys :: "('k, 'v) dict \<Rightarrow> 'k list" where
  "dict_keys d \<equiv> map fst d"

lemma dict_get_set: "dict_get (dict_set k v d) k' = (if k' = k then Some v else dict_get d k')"
  by (simp add: update_conv')

lemma dict_get_append:
  "dict_get (d @ [(k, v)]) k' = (case dict_get d k' of None \<Rightarrow> if k' = k then Some v else None | Some x \<Rightarrow> Some x)"
  by (simp add: map_add_def split: option.splits)

lemma dict_set_new: "dict_get d k = None \<Longrightarrow> dict_set k v d = d @ [(k, v)]"
  by (induction d) (auto split: if_splits)

lemma set_dict_set_subset: "set (dict_set k v d) \<subseteq> insert (k, v) (set d)"
  by (induction d) auto

text \<open>Overwriting another key leaves the entry inserted last in its place.\<close>

lemma last_dict_set:
  "dict_get d k \<noteq> None \<Longrightarrow> fst (last d) \<noteq> k \<Longrightarrow> last (dict_set k v d) = last d"
proof (induction d)
  case Nil
  then show ?case by simp
next
  case (Cons p d)
  then show ?case by (cases d) (auto split: if_splits)
qed

section \<open>Substring search\<close>

text \<open>
  \<open>find_sub pat xs\<close> is \<open>xs.find(pat)\<close>, with \<open>None\<close> for -1: the least index at which
  \<open>pat\<close> starts.
\<close>

fun find_sub :: "'a list \<Rightarrow> 'a list \<Rightarrow> nat option" where
  "find_sub pat [] = (if pat = [] then Some 0 else None)"
| "find_sub pat (x # xs) =
     (if prefix pat (x # xs) then Some 0 else map_option Suc (find_sub pat xs))"

lemma find_sub_prefix: "prefix pat xs \<Longrightarrow> find_sub pat xs = Some 0"
  by (cases xs) auto

lemma find_sub_Some_split:
  "find_sub pat xs = Some i \<Longrightarrow> xs = take i xs @ pat @ drop (i + length pat) xs"
proof (induction xs arbitrary: i)
  case Nil
  then show ?case by (simp split: if_splits)
next
  case (Cons x xs)
  show ?case
  proof (cases "prefix pat (x # xs)")
    case True
    with Cons.prems have "i = 0" by simp
    from True obtain zs where "x # xs = pat @ zs" by (rule prefixE)
    with \<open>i = 0\<close> show ?thesis by simp
  next
    case False
    with Cons.prems obtain j where j: "find_sub pat xs = Some j" "i = Suc j" by auto
    with Cons.IH [of j] show ?thesis by simp
  qed
qed

lemma find_sub_Some_length: "find_sub pat xs = Some i \<Longrightarrow> i + length pat \<le> length xs"
proof (induction xs arbitrary: i)
  case Nil
  then show ?case by (simp split: if_splits)
next
  case (Cons x xs)
  show ?case
  proof (cases "prefix pat (x # xs)")
    case True
    with Cons.prems show ?thesis using prefix_length_le [of pat "x # xs"] by simp
  next
    case False
    with Cons.prems Cons.IH show ?thesis by auto
  qed
qed

text \<open>A match found in a buffer is found at the same place when bytes are appended.\<close>

lemma find_sub_append:
  "find_sub pat xs = Some i \<Longrightarrow> find_sub pat (xs @ ys) = Some i"
proof (induction xs arbitrary: i)
  case Nil
  then show ?case by (cases ys) (auto split: if_splits)
next
  case (Cons x xs)
  show ?case
  proof (cases "prefix pat (x # xs)")
    case True
    then have "prefix pat (x # xs @ ys)"
      using prefix_prefix [of pat "x # xs" ys] by simp
    with True Cons.prems show ?thesis by simp
  next
    case False
    with Cons.prems obtain j where j: "find_sub pat xs = Some j" "i = Suc j" by auto
    then have "length pat \<le> length (x # xs)"
      using find_sub_Some_length [of pat xs j] by simp
    with False have "\<not> prefix pat (x # xs @ ys)"
      using prefix_length_prefix [of pat "x # xs @ ys" "x # xs"] by auto
    with j Cons.IH show ?thesis by simp
  qed
qed

text \<open>Text in which the pattern cannot start only moves the first match.\<close>

lemma find_sub_shift:
  "(\<And>j. j < length xs \<Longrightarrow> \<not> prefix pat (drop j (xs @ ys))) \<Longrightarrow>
    find_sub pat (xs @ ys) = map_option ((+) (length xs)) (find_sub pat ys)"
proof (induction xs)
  case Nil
  then show ?case by (simp add: map_option.id [unfolded id_def])
next
  case (Cons x xs)
  have "find_sub pat (xs @ ys) = map_option ((+) (length xs)) (find_sub pat ys)"
  proof (rule Cons.IH)
    fix j assume "j < length xs"
    with Cons.prems [of "Suc j"] show "\<not> prefix pat (drop j (xs @ ys))" by simp
  qed
  with Cons.prems [of 0] show ?case
    by (cases "find_sub pat ys") auto
qed

lemma find_sub_shift_hd:
  assumes "c \<notin> set xs"
  shows "find_sub (c # pat) (xs @ ys) = map_option ((+) (length xs)) (find_sub (c # pat) ys)"
proof (rule find_sub_shift)
  fix j assume "j < length xs"
  then have "drop j (xs @ ys) = xs ! j # drop (Suc j) xs @ ys"
    by (simp add: Cons_nth_drop_Suc)
  with assms \<open>j < length xs\<close> show "\<not> prefix (c # pat) (drop j (xs @ ys))"
    by (auto simp: prefix_Cons)
qed

lemma find_sub_skip_hd:
  "c \<notin> set xs \<Longrightarrow> find_sub (c # pat) (xs @ (c # pat) @ ys) = Some (length xs)"
  using find_sub_shift_hd [of c xs pat "(c # pat) @ ys"] find_sub_prefix [of "c # pat" "(c # pat) @ ys"]
  by simp

lemma find_sub_None_hd: "c \<notin> set xs \<Longrightarrow> find_sub (c # pat) xs = None"
  by (induction xs) (auto simp: prefix_Cons)

lemma takeWhile_until: "c \<notin> set xs \<Longrightarrow> takeWhile (\<lambda>x. x \<noteq> c) (xs @ c # ys) = xs"
  by (induction xs) auto

lemma dropWhile_until: "c \<notin> set xs \<Longrightarrow> dropWhile (\<lambda>x. x \<noteq> c) (xs @ c # ys) = c # ys"
  by (induction xs) auto

section \<open>Splitting\<close>

text \<open>\<open>xs.split(sep)\<close> for a non-empty separator (Python refuses an empty one).\<close>

function py_split :: "'a list \<Rightarrow> 'a list \<Rightarrow> 'a list list" where
  "py_split sep xs =
     (case find_sub sep xs of
        None \<Rightarrow> [xs]
      | Some i \<Rightarrow> if sep = [] then [xs]
                  else take i xs # py_split sep (drop (i + length sep) xs))"
  by pat_completeness auto
termination
  by (relation "measure (length \<circ> snd)") (auto dest!: find_sub_Some_length simp flip: length_greater_0_conv)

declare py_split.simps [simp del]

lemma py_split_hd:
  assumes "c \<notin> set xs"
  shows "py_split (c # sep) (xs @ (c # sep) @ ys) = xs # py_split (c # sep) ys"
proof -
  have "find_sub (c # sep) (xs @ (c # sep) @ ys) = Some (length xs)"
    by (rule find_sub_skip_hd [OF assms])
  then show ?thesis by (subst py_split.simps) (simp only: option.case, simp)
qed

text \<open>Joining with a separator (\<open>sep.join(xs)\<close>) and splitting at it again.\<close>

fun join_with :: "'a list \<Rightarrow> 'a list list \<Rightarrow> 'a list" where
  "join_with sep [] = []"
| "join_with sep [x] = x"
| "join_with sep (x # xs) = x @ sep @ join_with sep xs"

lemma join_with_Cons: "xs \<noteq> [] \<Longrightarrow> join_with sep (x # xs) = x @ sep @ join_with sep xs"
  by (cases xs) auto

lemma join_with_snoc:
  "join_with sep (xs @ [x]) = (if xs = [] then x else join_with sep xs @ sep @ x)"
  by (induction sep xs rule: join_with.induct) auto

lemma join_with_append:
  "xs \<noteq> [] \<Longrightarrow> ys \<noteq> [] \<Longrightarrow> join_with sep (xs @ ys) = join_with sep xs @ sep @ join_with sep ys"
proof (induction xs)
  case Nil
  then show ?case by simp
next
  case (Cons x xs)
  then show ?case by (cases "xs = []") (auto simp: join_with_Cons)
qed

lemma join_with_pair: "join_with sep (xs @ [a @ sep @ b] @ ys) = join_with sep (xs @ [a, b] @ ys)"
  by (cases "xs = []"; cases "ys = []") (auto simp: join_with_append join_with_Cons)

lemma map_join_with: "map f (join_with sep xs) = join_with (map f sep) (map (map f) xs)"
  by (induction sep xs rule: join_with.induct) auto

lemma py_split_single: "c \<notin> set xs \<Longrightarrow> py_split (c # sep) xs = [xs]"
  by (subst py_split.simps) (simp add: find_sub_None_hd)

lemma py_split_join:
  "xs \<noteq> [] \<Longrightarrow> \<forall>x \<in> set xs. c \<notin> set x \<Longrightarrow> py_split (c # sep) (join_with (c # sep) xs) = xs"
proof (induction "c # sep" xs rule: join_with.induct)
  case 1
  then show ?case by simp
next
  case (2 x)
  then show ?case by (simp add: py_split_single)
next
  case (3 x y ys)
  then show ?case using py_split_hd [of c x sep] by simp
qed

end
