(* ===== verification/Py_Text.thy ===== *)
theory Py_Text
  imports Prelude
begin

text \<open>
  The string and bytes operations of Python's standard library that the sources use, on bytes
  and on Latin-1 text: the two whitespace classes and \<open>strip\<close>, \<open>lower\<close>, and the
  integer syntax that \<open>int()\<close> accepts.
\<close>

section \<open>Whitespace\<close>

text \<open>\<open>bytes.strip()\<close> removes ASCII whitespace: tab, LF, VT, FF, CR and space.\<close>

definition is_bytes_space :: "char \<Rightarrow> bool" where
  "is_bytes_space c \<longleftrightarrow> c \<in> {CHR 0x09, CHR 0x0A, CHR 0x0B, CHR 0x0C, CHR 0x0D, CHR 0x20}"

text \<open>
  \<open>str.strip()\<close> removes Unicode whitespace; below code point 256 that adds the separators
  28 to 31, NEL (133) and the no-break space (160).
\<close>

definition is_str_space :: "char \<Rightarrow> bool" where
  "is_str_space c \<longleftrightarrow> is_bytes_space c
     \<or> c \<in> {CHR 0x1C, CHR 0x1D, CHR 0x1E, CHR 0x1F, CHR 0x85, CHR 0xA0}"

definition strip_by :: "('a \<Rightarrow> bool) \<Rightarrow> 'a list \<Rightarrow> 'a list" where
  "strip_by P xs = rev (dropWhile P (rev (dropWhile P xs)))"

abbreviation bytes_strip :: "bytes \<Rightarrow> bytes" where
  "bytes_strip \<equiv> strip_by is_bytes_space"

abbreviation str_strip :: "latin \<Rightarrow> latin" where
  "str_strip \<equiv> strip_by is_str_space"

text \<open>Text that neither starts nor ends with a character of the class is left alone.\<close>

definition stripped :: "('a \<Rightarrow> bool) \<Rightarrow> 'a list \<Rightarrow> bool" where
  "stripped P xs \<longleftrightarrow> xs = [] \<or> \<not> P (hd xs) \<and> \<not> P (last xs)"

lemma dropWhile_hd: "xs = [] \<or> \<not> P (hd xs) \<Longrightarrow> dropWhile P xs = xs"
  by (cases xs) auto

lemma strip_by_stripped: "stripped P xs \<Longrightarrow> strip_by P xs = xs"
  by (auto simp: stripped_def strip_by_def dropWhile_hd hd_rev)

lemma strip_by_skip: "P x \<Longrightarrow> strip_by P (x # xs) = strip_by P xs"
  by (simp add: strip_by_def)

lemma set_strip_by: "set (strip_by P xs) \<subseteq> set xs"
  by (auto simp: strip_by_def dest!: set_dropWhileD)

section \<open>Case\<close>

text \<open>
  \<open>str.lower()\<close> on Latin-1 text: A to Z and the accented capitals 192 to 222, without the
  multiplication sign 215, move up by 32; everything else stays.
\<close>

definition lower_char :: "char \<Rightarrow> char" where
  "lower_char c =
     (let n = (of_char c :: nat) in
      if 65 \<le> n \<and> n \<le> 90 \<or> 192 \<le> n \<and> n \<le> 222 \<and> n \<noteq> 215 then char_of (n + 32) else c)"

definition lower :: "latin \<Rightarrow> latin" where
  "lower s = map lower_char s"

lemma lower_Nil [simp]: "lower [] = []"
  by (simp add: lower_def)

lemma length_lower [simp]: "length (lower s) = length s"
  by (simp add: lower_def)

lemma of_char_lower_char:
  "(of_char (lower_char c) :: nat) =
     (let n = of_char c in
      if 65 \<le> n \<and> n \<le> 90 \<or> 192 \<le> n \<and> n \<le> 222 \<and> n \<noteq> 215 then n + 32 else n)"
  by (simp add: lower_char_def Let_def of_char_of)

lemma lower_char_idem [simp]: "lower_char (lower_char c) = lower_char c"
proof -
  have "(of_char (lower_char (lower_char c)) :: nat) = of_char (lower_char c)"
    by (simp add: of_char_lower_char Let_def)
  then show ?thesis by simp
qed

lemma lower_idem [simp]: "lower (lower s) = lower s"
  by (simp add: lower_def)

text \<open>\<open>sub in xs\<close>\<close>

definition contains :: "'a list \<Rightarrow> 'a list \<Rightarrow> bool" where
  "contains sub xs \<longleftrightarrow> find_sub sub xs \<noteq> None"

section \<open>Integers\<close>

text \<open>The value of a digit, as \<open>int()\<close> reads it in any base up to 36.\<close>

definition digit_val :: "char \<Rightarrow> nat option" where
  "digit_val c =
     (let n = (of_char c :: nat) in
      if 48 \<le> n \<and> n \<le> 57 then Some (n - 48)
      else if 97 \<le> n \<and> n \<le> 122 then Some (n - 87)
      else if 65 \<le> n \<and> n \<le> 90 then Some (n - 55)
      else None)"

text \<open>
  Digits of a base with single underscores between them. The flag says that the character
  before was a digit, so neither the start, nor the end, nor another underscore is next to one.
\<close>

fun scan_digits :: "nat \<Rightarrow> bool \<Rightarrow> int \<Rightarrow> latin \<Rightarrow> int option" where
  "scan_digits base after_digit acc [] = (if after_digit then Some acc else None)"
| "scan_digits base after_digit acc (c # cs) =
     (if c = CHR ''_'' then (if after_digit then scan_digits base False acc cs else None)
      else case digit_val c of
             None \<Rightarrow> None
           | Some d \<Rightarrow> if d < base then scan_digits base True (acc * int base + int d) cs else None)"

text \<open>CPython's default bound on the digits of a decimal literal (binary bases have none).\<close>

definition int_max_str_digits :: nat where
  "int_max_str_digits = 4300"

text \<open>
  \<open>int(s, base)\<close> for base 10 and base 16; \<open>None\<close> is \<open>ValueError\<close>. Whitespace around the
  number, a sign and, in base 16, a \<open>0x\<close> prefix (with one underscore after it) are accepted.
\<close>

definition int_magnitude :: "nat \<Rightarrow> latin \<Rightarrow> int option" where
  "int_magnitude base s =
     (let digits = (if base = 16 \<and> (prefix ''0x'' s \<or> prefix ''0X'' s)
                    then (let t = drop 2 s in if prefix ''_'' t then drop 1 t else t)
                    else s) in
      if base = 10 \<and> int_max_str_digits < length (filter (\<lambda>c. c \<noteq> CHR ''_'') digits) then None
      else scan_digits base False 0 digits)"

definition py_int :: "nat \<Rightarrow> (char \<Rightarrow> bool) \<Rightarrow> latin \<Rightarrow> int option" where
  "py_int base space s =
     (case strip_by space s of
        [] \<Rightarrow> None
      | c # cs \<Rightarrow>
          if c = CHR ''-'' then map_option uminus (int_magnitude base cs)
          else if c = CHR ''+'' then int_magnitude base cs
          else int_magnitude base (c # cs))"

section \<open>Rendering numbers\<close>

text \<open>\<open>str(n)\<close> and \<open>format(n, 'x')\<close> of a natural number.\<close>

definition digit_char :: "nat \<Rightarrow> char" where
  "digit_char d = (if d < 10 then char_of (d + 48) else char_of (d + 87))"

fun render_nat :: "nat \<Rightarrow> nat \<Rightarrow> latin" where
  "render_nat base n =
     (if n < base \<or> base < 2 then [digit_char n]
      else render_nat base (n div base) @ [digit_char (n mod base)])"

declare render_nat.simps [simp del]

abbreviation str_of_nat :: "nat \<Rightarrow> latin" where
  "str_of_nat \<equiv> render_nat 10"

abbreviation hex_of_nat :: "nat \<Rightarrow> latin" where
  "hex_of_nat \<equiv> render_nat 16"

lemma digit_val_digit_char [simp]: "d < 36 \<Longrightarrow> digit_val (digit_char d) = Some d"
  by (simp add: digit_val_def digit_char_def of_char_of Let_def)

lemma of_char_digit_char: "d < 36 \<Longrightarrow> (of_char (digit_char d) :: nat) = (if d < 10 then d + 48 else d + 87)"
  by (simp add: digit_char_def of_char_of)

lemma digit_char_neq:
  assumes "d < 36" "(of_char c :: nat) < 48 \<or> 57 < (of_char c :: nat) \<and> (of_char c :: nat) < 97 \<or> 122 < (of_char c :: nat)"
  shows "digit_char d \<noteq> c"
  using assms of_char_digit_char [of d] by (auto split: if_splits)

lemma scan_digits_snoc:
  assumes "d < base" "base \<le> 36"
  shows "scan_digits base f acc xs = Some v \<Longrightarrow>
    scan_digits base f acc (xs @ [digit_char d]) = Some (v * int base + int d)"
  using assms
proof (induction base f acc xs rule: scan_digits.induct)
  case (1 base f acc)
  then show ?case using digit_char_neq [of d "CHR ''_''"] by (auto split: if_splits)
next
  case (2 base f acc c cs)
  then show ?case by (auto split: if_splits option.splits)
qed

lemma render_nat_not_Nil [simp]: "render_nat base n \<noteq> []"
  by (subst render_nat.simps) simp

text \<open>Reading a rendered number gives it back: the digits first, then the whole syntax.\<close>

lemma scan_digits_render:
  assumes "2 \<le> base" "base \<le> 36"
  shows "scan_digits base False 0 (render_nat base n) = Some (int n)"
  using assms
proof (induction base n rule: render_nat.induct)
  case (1 base n)
  show ?case
  proof (cases "n < base")
    case True
    then show ?thesis
      using "1.prems" digit_char_neq [of n "CHR ''_''"] by (subst render_nat.simps) simp
  next
    case False
    then have "scan_digits base False 0 (render_nat base (n div base)) = Some (int (n div base))"
      using "1.IH" "1.prems" by simp
    moreover have "int n = int (n div base) * int base + int (n mod base)"
      by (simp flip: of_nat_mult of_nat_add)
    ultimately show ?thesis
      using False "1.prems" by (subst render_nat.simps) (simp add: scan_digits_snoc)
  qed
qed

lemma render_nat_digits:
  assumes "2 \<le> base"
  shows "c \<in> set (render_nat base n) \<Longrightarrow> \<exists>d < base. c = digit_char d"
  using assms
proof (induction base n rule: render_nat.induct)
  case (1 base n)
  show ?case
  proof (cases "n < base \<or> base < 2")
    case True
    with "1.prems" show ?thesis by (auto simp: render_nat.simps [of base n])
  next
    case False
    with "1.prems" consider "c \<in> set (render_nat base (n div base))" | "c = digit_char (n mod base)"
      by (auto simp: render_nat.simps [of base n])
    then show ?thesis
    proof cases
      case 1
      with False "1.IH" "1.prems" show ?thesis by blast
    next
      case 2
      moreover from False have "n mod base < base" by simp
      ultimately show ?thesis by blast
    qed
  qed
qed

lemma length_render_nat:
  assumes "2 \<le> base"
  shows "n < base ^ k \<Longrightarrow> 0 < k \<Longrightarrow> length (render_nat base n) \<le> k"
proof (induction k arbitrary: n)
  case 0
  then show ?case by simp
next
  case (Suc k)
  show ?case
  proof (cases "n < base \<or> base < 2")
    case True
    then show ?thesis by (subst render_nat.simps) simp
  next
    case False
    have "n div base < base ^ k"
      using Suc.prems(1) by (simp add: less_mult_imp_div_less mult.commute)
    moreover have "0 < k"
      using False Suc.prems by (cases k) auto
    ultimately have "length (render_nat base (n div base)) \<le> k"
      by (rule Suc.IH)
    with False show ?thesis by (subst render_nat.simps) simp
  qed
qed

text \<open>None of the characters that \<open>int()\<close> treats specially occurs in a rendered number.\<close>

lemma render_nat_notin:
  assumes "2 \<le> base" "base \<le> 36"
    and "(of_char c :: nat) < 48 \<or> 57 < (of_char c :: nat) \<and> (of_char c :: nat) < 97 \<or> 122 < (of_char c :: nat)"
  shows "c \<notin> set (render_nat base n)"
proof
  assume "c \<in> set (render_nat base n)"
  then obtain d where "d < base" "c = digit_char d"
    using render_nat_digits [OF assms(1)] by blast
  with assms digit_char_neq [of d c] show False by simp
qed

lemma render_nat_not_space:
  assumes "2 \<le> base" "base \<le> 36" "c \<in> set (render_nat base n)"
  shows "\<not> is_str_space c"
  using assms render_nat_notin [OF assms(1,2), of _ n]
  by (auto simp: is_str_space_def is_bytes_space_def)

lemma stripped_render_nat:
  assumes "2 \<le> base" "base \<le> 36"
  shows "stripped is_str_space (render_nat base n)" "stripped is_bytes_space (render_nat base n)"
  using render_nat_not_space [OF assms, of _ n]
  by (auto simp: stripped_def is_str_space_def)

lemma prefix_0x_render_nat: "\<not> prefix ''0x'' (render_nat 16 n)" "\<not> prefix ''0X'' (render_nat 16 n)"
proof -
  have "c \<notin> set (render_nat 16 n)" if "(of_char c :: nat) \<in> {88, 120}" for c
  proof
    assume "c \<in> set (render_nat 16 n)"
    then obtain d where "d < 16" "c = digit_char d"
      using render_nat_digits [of 16 c n] by auto
    then have "(of_char c :: nat) \<le> 57 \<or> 97 \<le> (of_char c :: nat) \<and> (of_char c :: nat) \<le> 102"
      using of_char_digit_char [of d] by simp
    with that show False by auto
  qed
  from this [of "CHR ''x''"] this [of "CHR ''X''"]
  have "CHR ''x'' \<notin> set (render_nat 16 n)" and "CHR ''X'' \<notin> set (render_nat 16 n)"
    by simp_all
  then show "\<not> prefix ''0x'' (render_nat 16 n)" "\<not> prefix ''0X'' (render_nat 16 n)"
    by (auto simp: prefix_def)
qed

lemma hd_render_nat_not_sign:
  assumes "2 \<le> base" "base \<le> 36"
  shows "CHR ''-'' \<notin> set (render_nat base n)" "CHR ''+'' \<notin> set (render_nat base n)"
    "CHR ''_'' \<notin> set (render_nat base n)"
  using render_nat_notin [OF assms] by simp_all

lemma py_int_unsigned:
  assumes "stripped space s" "s \<noteq> []" "CHR ''-'' \<notin> set s" "CHR ''+'' \<notin> set s"
  shows "py_int base space s = int_magnitude base s"
  using assms by (auto simp: py_int_def strip_by_stripped split: list.splits)

lemma py_int_hex: "py_int 16 is_bytes_space (hex_of_nat n) = Some (int n)"
  using stripped_render_nat [of 16 n] hd_render_nat_not_sign [of 16 n]
  by (simp add: py_int_unsigned int_magnitude_def prefix_0x_render_nat scan_digits_render)

lemma small_decimal:
  assumes "n < 10"
  shows "n < (10::nat) ^ int_max_str_digits"
proof -
  have "1 \<le> int_max_str_digits" by (simp add: int_max_str_digits_def)
  then have "(10::nat) ^ 1 \<le> 10 ^ int_max_str_digits" by (rule power_increasing) simp
  moreover from assms have "n < 10 ^ 1" by (simp only: power_one_right)
  ultimately show ?thesis by (rule less_le_trans [rotated])
qed

lemma py_int_decimal:
  assumes "n < 10 ^ int_max_str_digits"
  shows "py_int 10 is_str_space (str_of_nat n) = Some (int n)"
proof -
  have "length (str_of_nat n) \<le> int_max_str_digits"
    using length_render_nat [OF _ assms] by (simp add: int_max_str_digits_def)
  moreover have "filter (\<lambda>c. c \<noteq> CHR ''_'') (str_of_nat n) = str_of_nat n"
    using hd_render_nat_not_sign(3) [of 10 n] by (auto simp: filter_id_conv)
  ultimately show ?thesis
    using stripped_render_nat [of 10 n] hd_render_nat_not_sign [of 10 n]
    by (simp add: py_int_unsigned int_magnitude_def scan_digits_render)
qed

section \<open>Lines\<close>

text \<open>\<open>b"\\r\\n"\<close>, and where a block of lines ends: at the first empty line.\<close>

abbreviation CR :: char where "CR \<equiv> CHR 0x0D"
abbreviation LF :: char where "LF \<equiv> CHR 0x0A"
abbreviation crlf :: bytes where "crlf \<equiv> [CR, LF]"

lemma find_sub_crlf: "CR \<notin> set xs \<Longrightarrow> find_sub crlf (xs @ CR # LF # ys) = Some (length xs)"
  using find_sub_skip_hd [of CR xs "[LF]" ys] by simp

lemma find_sub_line:
  assumes "CR \<notin> set xs" "ys \<noteq> []" "hd ys \<noteq> CR"
  shows "find_sub (crlf @ crlf) (xs @ crlf @ ys) =
    map_option ((+) (length xs + 2)) (find_sub (crlf @ crlf) ys)"
proof -
  have "\<not> prefix (crlf @ crlf) (crlf @ ys)" "\<not> prefix (crlf @ crlf) (LF # ys)"
    using assms by (cases ys; auto simp: prefix_Cons)+
  then have "find_sub (crlf @ crlf) (crlf @ ys) = map_option ((+) 2) (find_sub (crlf @ crlf) ys)"
    by (cases "find_sub (crlf @ crlf) ys") auto
  then show ?thesis
    using find_sub_shift_hd [of CR xs "LF # crlf" "crlf @ ys"] assms(1)
    by (cases "find_sub (crlf @ crlf) ys") auto
qed

definition line_ok :: "bytes \<Rightarrow> bool" where
  "line_ok l \<longleftrightarrow> l \<noteq> [] \<and> CR \<notin> set l"

lemma not_blank_first: "ls \<noteq> [] \<Longrightarrow> list_all line_ok ls \<Longrightarrow> \<not> prefix crlf (join_with crlf ls @ rest)"
proof (induction crlf ls rule: join_with.induct)
  case 1
  then show ?case by simp
next
  case (2 x)
  then show ?case by (cases x) (auto simp: line_ok_def)
next
  case (3 x y ys)
  then show ?case by (cases x) (auto simp: line_ok_def)
qed

lemma find_sub_blank_line:
  "ls \<noteq> [] \<Longrightarrow> list_all line_ok ls \<Longrightarrow>
    find_sub (crlf @ crlf) (join_with crlf ls @ crlf @ crlf @ rest) = Some (length (join_with crlf ls))"
proof (induction ls)
  case Nil
  then show ?case by simp
next
  case (Cons x ls)
  show ?case
  proof (cases ls)
    case Nil
    then show ?thesis
      using Cons.prems find_sub_skip_hd [of CR x "LF # crlf" rest] by (simp add: line_ok_def)
  next
    case ls: (Cons y ys)
    let ?rest = "join_with crlf ls @ crlf @ crlf @ rest"
    have "y \<noteq> []" "CR \<notin> set y" using Cons.prems ls by (auto simp: line_ok_def)
    then have "?rest \<noteq> [] \<and> hd ?rest \<noteq> CR"
      using ls by (cases ys; cases y) auto
    then have "find_sub (crlf @ crlf) (x @ crlf @ ?rest) =
        map_option ((+) (length x + 2)) (find_sub (crlf @ crlf) ?rest)"
      using Cons.prems by (intro find_sub_line) (auto simp: line_ok_def)
    moreover have "find_sub (crlf @ crlf) ?rest = Some (length (join_with crlf ls))"
      using Cons.IH Cons.prems ls by simp
    ultimately show ?thesis
      using ls by (simp add: join_with_Cons)
  qed
qed

lemma py_split_lines:
  "ls \<noteq> [] \<Longrightarrow> list_all line_ok ls \<Longrightarrow> py_split crlf (join_with crlf ls) = ls"
  by (rule py_split_join) (auto simp: line_ok_def list_all_iff)

section \<open>Lines and replacement\<close>

text \<open>\<open>str.splitlines()\<close>\<close>

definition is_line_break :: "char \<Rightarrow> bool" where
  "is_line_break c \<longleftrightarrow> c \<in> {LF, CR, CHR 0x0B, CHR 0x0C, CHR 0x1C, CHR 0x1D, CHR 0x1E, CHR 0x85}"

fun split_lines :: "latin \<Rightarrow> latin \<Rightarrow> latin list" where
  "split_lines line [] = (if line = [] then [] else [line])"
| "split_lines line [c] = (if is_line_break c then [line] else [line @ [c]])"
| "split_lines line (c # d # cs) =
     (if c = CR \<and> d = LF then line # split_lines [] cs
      else if is_line_break c then line # split_lines [] (d # cs) else split_lines (line @ [c]) (d # cs))"

text \<open>\<open>s.replace(old, new)\<close> for a non-empty \<open>old\<close>: from the left, without overlaps.\<close>

fun py_replace :: "'a list \<Rightarrow> 'a list \<Rightarrow> 'a list \<Rightarrow> 'a list" where
  "py_replace [] new s = s"
| "py_replace (p # ps) new [] = []"
| "py_replace (p # ps) new (x # xs) =
     (if prefix (p # ps) (x # xs) then new @ py_replace (p # ps) new (drop (length ps) xs)
      else x # py_replace (p # ps) new xs)"

lemma py_replace_none: "\<not> contains old s \<Longrightarrow> py_replace old new s = s"
  by (induction old new s rule: py_replace.induct) (auto simp: contains_def split: if_splits)

text \<open>Replacing a character by a list.\<close>

lemma py_replace_char: "py_replace [c] new s = concat (map (\<lambda>x. if x = c then new else [x]) s)"
  by (induction s) (auto simp: prefix_Cons)

text \<open>
  What starts the text after a replacement started the text before it, unless it runs into one of
  the insertions.
\<close>

lemma prefix_py_replace:
  "prefix t (py_replace old new s) \<Longrightarrow>
    prefix t s \<or> (\<exists>i < length t. prefix (drop i t) new \<or> prefix new (drop i t))"
proof (induction old new s arbitrary: t rule: py_replace.induct)
  case (3 p ps new x xs)
  show ?case
  proof (cases "t = [] \<or> prefix (p # ps) (x # xs)")
    case True
    then show ?thesis
    proof
      assume "prefix (p # ps) (x # xs)"
      with "3.prems" have "prefix t new \<or> prefix new t"
        using prefix_same_cases [of t "new @ py_replace (p # ps) new (drop (length ps) xs)" new] by auto
      then show ?thesis by (cases "t = []") (auto intro: exI [of _ 0])
    qed simp
  next
    case False
    then obtain ts where t: "t = x # ts" "prefix ts (py_replace (p # ps) new xs)"
      using "3.prems" by (cases t) auto
    from "3.IH"(2) [OF _ t(2)] False
    have "prefix ts xs \<or> (\<exists>i < length ts. prefix (drop i ts) new \<or> prefix new (drop i ts))" by blast
    then show ?thesis
    proof
      assume "\<exists>i < length ts. prefix (drop i ts) new \<or> prefix new (drop i ts)"
      then obtain i where "i < length ts" "prefix (drop i ts) new \<or> prefix new (drop i ts)" by blast
      with t(1) have "Suc i < length t \<and> (prefix (drop (Suc i) t) new \<or> prefix new (drop (Suc i) t))" by simp
      then show ?thesis by blast
    qed (simp add: t(1))
  qed
qed auto

lemma find_sub_append_None:
  assumes "find_sub pat ys = None" "\<And>j. j < length xs \<Longrightarrow> \<not> prefix pat (drop j xs @ ys)"
  shows "find_sub pat (xs @ ys) = None"
proof -
  have "find_sub pat (xs @ ys) = map_option ((+) (length xs)) (find_sub pat ys)"
    by (rule find_sub_shift) (use assms(2) in simp)
  with assms(1) show ?thesis by simp
qed

text \<open>
  No occurrence is left when the pattern cannot start inside an insertion and no later part of it
  can run into one.
\<close>

lemma py_replace_removes:
  assumes "old \<noteq> []" "\<And>j ys. j < length new \<Longrightarrow> \<not> prefix old (drop j new @ ys)"
    and "\<And>i. 0 < i \<Longrightarrow> i < length old \<Longrightarrow> \<not> prefix (drop i old) new \<and> \<not> prefix new (drop i old)"
  shows "\<not> contains old (py_replace old new s)"
  using assms
proof (induction old new s rule: py_replace.induct)
  case (3 p ps new x xs)
  show ?case
  proof (cases "prefix (p # ps) (x # xs)")
    case True
    with "3.IH"(1) "3.prems" have "find_sub (p # ps) (py_replace (p # ps) new (drop (length ps) xs)) = None"
      by (simp add: contains_def)
    from find_sub_append_None [OF this, of new] "3.prems"(2) True show ?thesis
      by (simp add: contains_def)
  next
    case False
    have "\<not> (p = x \<and> prefix ps (py_replace (p # ps) new xs))"
    proof
      assume a: "p = x \<and> prefix ps (py_replace (p # ps) new xs)"
      from prefix_py_replace [OF conjunct2 [OF a]] have "prefix ps xs"
        using "3.prems"(3) [of "Suc _"] by auto
      with a False show False by simp
    qed
    moreover have "\<not> (p = x \<and> prefix ps xs)" using False by simp
    moreover have "find_sub (p # ps) (py_replace (p # ps) new xs) = None"
      using "3.IH"(2) [OF False "3.prems"] by (simp add: contains_def)
    ultimately show ?thesis by (auto simp: contains_def)
  qed
qed (auto simp: contains_def)

end
