(* ===== verification/Http_Headers.thy ===== *)
theory Http_Headers
  imports Py_Text
begin

text \<open>
  The response header mapping, class \<open>Headers\<close> of \<open>fizzpy/_http.py\<close>: an insertion-ordered
  dict from the lowercase name to the name as first seen and the list of its values. Every
  method is a definition; the one invariant is that the keys are distinct, lowercase and carry
  at least one value. The locale \<open>header_map\<close> states what the parser and the clients rely on.
\<close>

section \<open>The class\<close>

type_synonym headers = "(latin, latin \<times> latin list) dict"

text \<open>What a method of the class raises.\<close>

datatype header_error = KeyError latin | StopIteration | IndexError

definition add_header :: "headers \<Rightarrow> latin \<Rightarrow> latin \<Rightarrow> headers" where
  "add_header store name value =
     (let key = lower name in
      case dict_get store key of
        Some (first, vals) \<Rightarrow> dict_set key (first, vals @ [value]) store
      | None \<Rightarrow> dict_set key (name, [value]) store)"

definition headers_init :: "(latin \<times> latin) list \<Rightarrow> headers" where
  "headers_init items = foldl (\<lambda>store (name, value). add_header store name value) [] items"

definition get_list :: "headers \<Rightarrow> latin \<Rightarrow> latin list" where
  "get_list store key =
     (case dict_get store (lower key) of Some (_, vals) \<Rightarrow> vals | None \<Rightarrow> [])"

definition get_header :: "headers \<Rightarrow> latin \<Rightarrow> latin option" where
  "get_header store key = map_option (join_with '', '' \<circ> snd) (dict_get store (lower key))"

definition header_item :: "headers \<Rightarrow> latin \<Rightarrow> header_error + latin" where
  "header_item store key =
     (case dict_get store (lower key) of
        None \<Rightarrow> Inl (KeyError key)
      | Some entry \<Rightarrow> Inr (join_with '', '' (snd entry)))"

definition has_header :: "headers \<Rightarrow> latin \<Rightarrow> bool" where
  "has_header store key \<longleftrightarrow> dict_get store (lower key) \<noteq> None"

definition header_names :: "headers \<Rightarrow> latin list" where
  "header_names store = map (fst \<circ> snd) store"

definition header_items :: "headers \<Rightarrow> (latin \<times> latin) list" where
  "header_items store = concat (map (\<lambda>(_, name, vals). map (\<lambda>v. (name, v)) vals) store)"

text \<open>
  \<open>append_to_last\<close>: \<open>next(reversed(store))\<close> is the key inserted last (\<open>StopIteration\<close>
  when there is none), and the text goes to the last of its vals.
\<close>

definition append_to_last :: "headers \<Rightarrow> latin \<Rightarrow> header_error + headers" where
  "append_to_last store text =
     (if store = [] then Inl StopIteration
      else (case last store of (key, name, vals) \<Rightarrow>
        if vals = [] then Inl IndexError
        else Inr (dict_set key (name, butlast vals @ [last vals @ '' '' @ text]) store)))"

section \<open>Invariant\<close>

definition headers_wf :: "headers \<Rightarrow> bool" where
  "headers_wf store \<longleftrightarrow> distinct (dict_keys store)
     \<and> (\<forall>(key, name, vals) \<in> set store. key = lower name \<and> vals \<noteq> [])"

lemma headers_wf_Nil [simp]: "headers_wf []"
  by (simp add: headers_wf_def)

lemma headers_wf_set:
  assumes "headers_wf store" "key = lower name" "vals \<noteq> []"
  shows "headers_wf (dict_set key (name, vals) store)"
  using assms distinct_update [of store key] set_dict_set_subset [of key "(name, vals)" store]
  by (fastforce simp: headers_wf_def)

lemma headers_wf_get:
  "headers_wf store \<Longrightarrow> dict_get store key = Some (name, vals) \<Longrightarrow> key = lower name \<and> vals \<noteq> []"
  by (fastforce simp: headers_wf_def dest: map_of_SomeD)

lemma headers_wf_add: "headers_wf store \<Longrightarrow> headers_wf (add_header store name value)"
  by (auto simp: add_header_def Let_def intro!: headers_wf_set dest: headers_wf_get split: option.splits)

lemma headers_wf_foldl:
  "headers_wf store \<Longrightarrow> headers_wf (foldl (\<lambda>s (n, v). add_header s n v) store items)"
  by (induction items arbitrary: store) (auto intro: headers_wf_add)

lemma headers_wf_append_to_last:
  assumes "headers_wf store" "append_to_last store text = Inr store'"
  shows "headers_wf store'"
proof -
  obtain key name vals where l: "last store = (key, name, vals)" by (cases "last store")
  with assms have "store \<noteq> []" "vals \<noteq> []"
    and store': "store' = dict_set key (name, butlast vals @ [last vals @ '' '' @ text]) store"
    by (auto simp: append_to_last_def split: if_splits)
  moreover from this l have "(key, name, vals) \<in> set store"
    by (metis last_in_set)
  with assms(1) have "key = lower name"
    by (auto simp: headers_wf_def)
  ultimately show ?thesis
    using assms(1) by (simp add: headers_wf_set)
qed

lemma header_items_empty_iff: "headers_wf store \<Longrightarrow> header_items store = [] \<longleftrightarrow> store = []"
  by (cases store) (auto simp: header_items_def headers_wf_def)

section \<open>The interface\<close>

text \<open>
  What a multi-valued, case-insensitive header map promises: the values recorded for a name
  are those added under it in any case, in order (\<open>values_named\<close>), and a lookup joins them.
\<close>

definition values_named :: "(latin \<times> latin) list \<Rightarrow> latin \<Rightarrow> latin list" where
  "values_named items k = map snd (filter (\<lambda>(n, v). lower n = lower k) items)"

locale header_map =
  fixes empty :: "'h"
    and add :: "'h \<Rightarrow> latin \<Rightarrow> latin \<Rightarrow> 'h"
    and all_values :: "'h \<Rightarrow> latin \<Rightarrow> latin list"
    and lookup :: "'h \<Rightarrow> latin \<Rightarrow> latin option"
    and wf :: "'h \<Rightarrow> bool"
  assumes wf_empty: "wf empty"
    and wf_add: "wf h \<Longrightarrow> wf (add h n v)"
    and values_empty: "all_values empty k = []"
    and values_add: "wf h \<Longrightarrow>
      all_values (add h n v) k = all_values h k @ (if lower n = lower k then [v] else [])"
    and lookup_values: "wf h \<Longrightarrow>
      lookup h k = (if all_values h k = [] then None else Some (join_with '', '' (all_values h k)))"
begin

lemma wf_foldl: "wf h \<Longrightarrow> wf (foldl (\<lambda>h (n, v). add h n v) h items)"
  by (induction items arbitrary: h) (auto intro: wf_add)

lemma values_foldl:
  "wf h \<Longrightarrow> all_values (foldl (\<lambda>h (n, v). add h n v) h items) k = all_values h k @ values_named items k"
  by (induction items arbitrary: h) (auto simp: values_named_def values_add wf_add)

lemma lookup_items:
  "lookup (foldl (\<lambda>h (n, v). add h n v) empty items) k =
     (if values_named items k = [] then None else Some (join_with '', '' (values_named items k)))"
  by (simp add: lookup_values wf_foldl wf_empty values_foldl values_empty)

lemma lookup_single:
  assumes "values_named items k = [v]"
  shows "lookup (foldl (\<lambda>h (n, v). add h n v) empty items) k = Some v"
  by (simp add: lookup_items assms)

end

interpretation hdr: header_map "[]" add_header get_list get_header headers_wf
proof (unfold_locales, goal_cases)
  case 1
  show ?case by simp
next
  case (2 h n v)
  then show ?case by (rule headers_wf_add)
next
  case (3 k)
  show ?case by (simp add: get_list_def)
next
  case (4 h n v k)
  show ?case
    by (auto simp: get_list_def add_header_def Let_def dict_get_set split: option.splits)
next
  case (5 h k)
  then show ?case
    by (auto simp: get_header_def get_list_def dest: headers_wf_get split: option.splits)
qed

section \<open>Properties\<close>

text \<open>
  Whatever sequence of header lines is recorded, \<open>get\<close> under any casing of a name joins
  with comma and space exactly the values recorded under that name, in their order, and is
  \<open>None\<close> when there is none; \<open>get_list\<close> lists them and \<open>in\<close> tells whether there is one.
\<close>

theorem headers_lookup:
  "get_header (headers_init items) k =
     (if values_named items k = [] then None else Some (join_with '', '' (values_named items k)))
   \<and> get_list (headers_init items) k = values_named items k
   \<and> (has_header (headers_init items) k \<longleftrightarrow> values_named items k \<noteq> [])"
proof -
  have get: "get_header (headers_init items) k =
      (if values_named items k = [] then None else Some (join_with '', '' (values_named items k)))"
    unfolding headers_init_def by (rule hdr.lookup_items)
  moreover have "get_list (headers_init items) k = values_named items k"
    using hdr.values_foldl [of "[]" items k] by (simp add: headers_init_def get_list_def)
  moreover have "has_header (headers_init items) k \<longleftrightarrow> get_header (headers_init items) k \<noteq> None"
    by (simp add: has_header_def get_header_def)
  ultimately show ?thesis by simp
qed

text \<open>
  \<open>append_to_last\<close> folds a continuation onto the name inserted last, not onto the value
  added last: after a repeated header, the continuation of its new value lands on another name
  and the repeated header keeps its values as they were.
\<close>

theorem append_to_last_misses_repeat:
  assumes "headers_wf h" "h \<noteq> []" "has_header h name" "fst (last h) \<noteq> lower name"
    and "append_to_last (add_header h name value) text = Inr h'"
  shows "get_list h' name = get_list h name @ [value]
    \<and> get_list h' (fst (last h)) \<noteq> get_list h (fst (last h))"
proof -
  obtain key first vals where l: "last h = (key, first, vals)" by (cases "last h")
  then have "(key, first, vals) \<in> set h" using assms(2) by (metis last_in_set)
  then have wf: "key = lower first" "vals \<noteq> []" and get: "dict_get h key = Some (first, vals)"
    using assms(1) by (auto simp: headers_wf_def)
  obtain first' vals' where get': "dict_get h (lower name) = Some (first', vals')"
    using assms(3) by (auto simp: has_header_def)
  then have h1: "add_header h name value = dict_set (lower name) (first', vals' @ [value]) h"
    by (simp add: add_header_def)
  have neq: "key \<noteq> lower name" using assms(4) l by simp
  have "last (add_header h name value) = (key, first, vals)"
    using last_dict_set [of h "lower name"] get' neq l by (simp add: h1)
  with assms(5) wf have h': "h' = dict_set key (first, butlast vals @ [last vals @ '' '' @ text])
      (add_header h name value)"
    by (simp add: append_to_last_def split: if_splits)
  have "get_list h' name = vals' @ [value]"
    using neq by (simp add: h' h1 get_list_def dict_get_set)
  moreover have "get_list h' key = butlast vals @ [last vals @ '' '' @ text]"
    using neq by (simp add: h' get_list_def dict_get_set wf(1))
  moreover have "butlast vals @ [last vals @ '' '' @ text] \<noteq> vals"
    using wf(2) by (metis append_self_conv append_butlast_last_id last_snoc list.distinct(1) append_is_Nil_conv)
  ultimately show ?thesis
    using get get' by (simp add: l get_list_def wf(1))
qed

lemma append_to_last_misses_repeat_witness:
  "get_list [(''a'', ''A'', [''1'', ''3'']), (''b'', ''B'', [''2 folded''])] ''a'' = [''1'', ''3'']"
proof -
  let ?h = "[(''a'', ''A'', [''1'']), (''b'', ''B'', [''2''])]"
  have "headers_wf ?h" "has_header ?h ''a''" "fst (last ?h) \<noteq> lower ''a''"
    and "append_to_last (add_header ?h ''a'' ''3'') ''folded'' =
      Inr [(''a'', ''A'', [''1'', ''3'']), (''b'', ''B'', [''2 folded''])]"
    and "get_list ?h ''a'' = [''1'']"
    by code_simp+
  then show ?thesis
    using append_to_last_misses_repeat [of ?h "''a''" "''3''" "''folded''"] by simp
qed

end
