(* ===== verification/Response_Parser.thy ===== *)
theory Response_Parser
  imports Http_Headers
begin

text \<open>
  The incremental HTTP/1.1 response parser, class \<open>ResponseParser\<close> of \<open>fizzpy/_http.py\<close>: its
  fields are the record \<open>parser\<close>, each method is a definition from the object's state to what
  it raised together with the state at that moment, or to the next state. The decompressors of
  the standard library's C extensions are the parameter \<open>codec\<close>.
\<close>

section \<open>State\<close>

text \<open>The parameters a handshake negotiated, as \<open>TlsConnection::negotiated\<close> reports them.\<close>

record negotiated =
  neg_version :: latin
  neg_cipher :: latin
  neg_group :: latin
  neg_group_code :: nat
  neg_alpn :: latin
  neg_sni :: latin
  neg_peer_cert :: latin

record response =
  status_code :: int
  reason :: latin
  http_version :: latin
  resp_headers :: headers
  content :: bytes
  resp_url :: latin
  resp_tls :: "negotiated option"

datatype phase = STATUS | HEADERS | BODY | DONE

record parser =
  p_buf :: bytes
  p_state :: phase
  p_eof :: bool
  p_http_version :: latin
  p_status_code :: int
  p_reason :: latin
  p_headers :: headers
  p_chunked :: bool
  p_content_length :: "int option"
  p_read_until_close :: bool
  p_body :: bytes
  p_chunk_remaining :: int
  p_awaiting_chunk_size :: bool
  p_in_trailers :: bool
  p_response :: "response option"

definition new_parser :: parser where
  "new_parser = \<lparr>p_buf = [], p_state = STATUS, p_eof = False, p_http_version = [], p_status_code = 0,
     p_reason = [], p_headers = [], p_chunked = False, p_content_length = None,
     p_read_until_close = False, p_body = [], p_chunk_remaining = 0, p_awaiting_chunk_size = True,
     p_in_trailers = False, p_response = None\<rparr>"

text \<open>What the parser raises. \<open>HttpParseError\<close> carries which of its messages it is.\<close>

datatype parse_error =
    ClosedBeforeStatusLine
  | MalformedStatusLine bytes
  | ClosedInsideHeaders
  | ContinuationWithoutHeader
  | MalformedHeaderLine bytes
  | InvalidContentLength latin
  | EofInChunkSize
  | InvalidChunkSize bytes
  | EofInChunkData
  | EofBeforeChunkTerminator
  | MissingChunkCrlf

text \<open>\<open>gzip.decompress\<close> raises an \<open>OSError\<close>, an \<open>EOFError\<close> or a \<open>zlib.error\<close>.\<close>

datatype codec_error = OSError | EOFError | ZlibError

datatype raised =
    HttpParseError parse_error
  | HeaderRaised header_error
  | CodecRaised codec_error

record codec =
  gzip_decompress :: "bytes \<Rightarrow> codec_error + bytes"
  zlib_decompress :: "bytes \<Rightarrow> codec_error + bytes"
  raw_decompress :: "bytes \<Rightarrow> codec_error + bytes"

type_synonym outcome = "(raised \<times> parser) + parser"

text \<open>A block inside a method either leaves the method (\<open>Stop\<close>) or falls through (\<open>Go\<close>).\<close>

datatype flow = Stop outcome | Go parser

section \<open>Finishing a response\<close>

definition decompress :: "codec \<Rightarrow> headers \<Rightarrow> bytes \<Rightarrow> codec_error + bytes" where
  "decompress cd h data =
     (case get_header h ''Content-Encoding'' of
        None \<Rightarrow> Inr data
      | Some encoding \<Rightarrow>
          if encoding = [] \<or> data = [] then Inr data
          else
            (let encoding = str_strip (lower encoding);
                 guard = (\<lambda>r. case r of
                            Inr out \<Rightarrow> Inr out
                          | Inl OSError \<Rightarrow> Inr data
                          | Inl ZlibError \<Rightarrow> Inr data
                          | Inl EOFError \<Rightarrow> Inl EOFError) in
             if encoding = ''gzip'' then guard (gzip_decompress cd data)
             else if encoding = ''deflate'' then
               guard (case zlib_decompress cd data of
                        Inl ZlibError \<Rightarrow> raw_decompress cd data
                      | r \<Rightarrow> r)
             else Inr data))"

definition finalize :: "codec \<Rightarrow> parser \<Rightarrow> outcome" where
  "finalize cd p =
     (case decompress cd (p_headers p) (p_body p) of
        Inl e \<Rightarrow> Inl (CodecRaised e, p)
      | Inr out \<Rightarrow> Inr (p\<lparr>p_response := Some \<lparr>status_code = p_status_code p, reason = p_reason p,
            http_version = p_http_version p, resp_headers = p_headers p, content = out,
            resp_url = [], resp_tls = None\<rparr>, p_state := DONE\<rparr>))"

section \<open>The status line\<close>

definition is_digit :: "char \<Rightarrow> bool" where
  "is_digit c \<longleftrightarrow> (let n = (of_char c :: nat) in 48 \<le> n \<and> n \<le> 57)"

definition decimal_value :: "bytes \<Rightarrow> int" where
  "decimal_value s = foldl (\<lambda>n c. 10 * n + (of_char c - 48)) 0 s"

text \<open>\<open>$\<close> matches at the end and before a final line feed.\<close>

definition at_dollar :: "bytes \<Rightarrow> bool" where
  "at_dollar s \<longleftrightarrow> s = [] \<or> s = [LF]"

text \<open>The groups of \<^verbatim>\<open>^(HTTP/\d\.\d) (\d{3})(?: (.*))?$\<close>, where the dot stops at a line feed.\<close>

definition match_status_line :: "bytes \<Rightarrow> (bytes \<times> bytes \<times> bytes option) option" where
  "match_status_line line =
     (let code = take 3 (drop 9 line); rest = drop 12 line in
      if 12 \<le> length line \<and> take 5 line = ''HTTP/'' \<and> is_digit (line ! 5) \<and> line ! 6 = CHR ''.''
         \<and> is_digit (line ! 7) \<and> line ! 8 = CHR '' '' \<and> list_all is_digit code
      then if at_dollar rest then Some (take 8 line, code, None)
           else if prefix '' '' rest \<and> at_dollar (dropWhile (\<lambda>c. c \<noteq> LF) (drop 1 rest))
           then Some (take 8 line, code, Some (takeWhile (\<lambda>c. c \<noteq> LF) (drop 1 rest)))
           else None
      else None)"

definition parse_status_line :: "parser \<Rightarrow> outcome" where
  "parse_status_line p =
     (case find_sub crlf (p_buf p) of
        None \<Rightarrow>
          if p_eof p \<and> p_buf p \<noteq> [] then Inl (HttpParseError ClosedBeforeStatusLine, p) else Inr p
      | Some idx \<Rightarrow>
          (let line = take idx (p_buf p); p = p\<lparr>p_buf := drop (idx + 2) (p_buf p)\<rparr> in
           case match_status_line line of
             None \<Rightarrow> Inl (HttpParseError (MalformedStatusLine line), p)
           | Some (version, code, text) \<Rightarrow>
               Inr (p\<lparr>p_http_version := version, p_status_code := decimal_value code,
                     p_reason := (case text of None \<Rightarrow> [] | Some t \<Rightarrow> t), p_state := HEADERS\<rparr>)))"

section \<open>Body framing\<close>

definition resolve_framing :: "parser \<Rightarrow> outcome" where
  "resolve_framing p =
     (let te = get_header (p_headers p) ''Transfer-Encoding'' in
      if (case te of None \<Rightarrow> False | Some t \<Rightarrow> t \<noteq> [] \<and> contains ''chunked'' (lower t))
      then Inr (p\<lparr>p_chunked := True\<rparr>)
      else if p_status_code p < 200 \<or> p_status_code p \<in> {204, 304}
      then Inr (p\<lparr>p_content_length := Some 0\<rparr>)
      else case get_header (p_headers p) ''Content-Length'' of
             Some cl \<Rightarrow>
               (case py_int 10 is_str_space (str_strip cl) of
                  Some n \<Rightarrow> Inr (p\<lparr>p_content_length := Some n\<rparr>)
                | None \<Rightarrow> Inl (HttpParseError (InvalidContentLength cl), p))
           | None \<Rightarrow> Inr (p\<lparr>p_read_until_close := True\<rparr>))"

definition parse_fixed_length :: "codec \<Rightarrow> int \<Rightarrow> parser \<Rightarrow> outcome" where
  "parse_fixed_length cd len p =
     (let need = len - int (length (p_body p));
          p = (if 0 < need
               then (let taken = nat (min need (int (length (p_buf p)))) in
                     p\<lparr>p_body := p_body p @ take taken (p_buf p), p_buf := drop taken (p_buf p)\<rparr>)
               else p) in
      if len \<le> int (length (p_body p)) then finalize cd p
      else if p_eof p then finalize cd p
      else Inr p)"

definition parse_until_close :: "codec \<Rightarrow> parser \<Rightarrow> outcome" where
  "parse_until_close cd p =
     (let p = (if p_buf p \<noteq> [] then p\<lparr>p_body := p_body p @ p_buf p, p_buf := []\<rparr> else p) in
      if p_eof p then finalize cd p else Inr p)"

section \<open>Chunked bodies\<close>

text \<open>The branch after the last chunk: trailers up to an empty line, or just that line.\<close>

definition parse_trailers :: "codec \<Rightarrow> parser \<Rightarrow> outcome" where
  "parse_trailers cd p =
     (if prefix crlf (p_buf p) then finalize cd (p\<lparr>p_buf := drop 2 (p_buf p)\<rparr>)
      else case find_sub (crlf @ crlf) (p_buf p) of
             None \<Rightarrow> if p_eof p then finalize cd p else Inr p
           | Some i \<Rightarrow> finalize cd (p\<lparr>p_buf := drop (i + 4) (p_buf p)\<rparr>))"

text \<open>
  The three blocks of the loop body. A size of 0 sets \<open>p_in_trailers\<close> and the loop continues
  from its top; otherwise control falls through to the chunk's data and its closing CRLF.
\<close>

definition chunk_size_block :: "parser \<Rightarrow> flow" where
  "chunk_size_block p =
     (if p_awaiting_chunk_size p then
        (case find_sub crlf (p_buf p) of
           None \<Rightarrow> if p_eof p \<and> p_buf p \<noteq> []
                   then Stop (Inl (HttpParseError EofInChunkSize, p)) else Stop (Inr p)
         | Some idx \<Rightarrow>
             (let size_line = take idx (p_buf p);
                  size_token = bytes_strip (takeWhile (\<lambda>c. c \<noteq> CHR '';'') size_line) in
              case py_int 16 is_bytes_space size_token of
                None \<Rightarrow> Stop (Inl (HttpParseError (InvalidChunkSize size_line), p))
              | Some chunk_size \<Rightarrow>
                  (let p = p\<lparr>p_buf := drop (idx + 2) (p_buf p)\<rparr> in
                   if chunk_size = 0 then Go (p\<lparr>p_in_trailers := True\<rparr>)
                   else Go (p\<lparr>p_chunk_remaining := chunk_size, p_awaiting_chunk_size := False\<rparr>))))
      else Go p)"

definition chunk_data_block :: "parser \<Rightarrow> flow" where
  "chunk_data_block p =
     (if 0 < p_chunk_remaining p then
        (let taken = nat (min (p_chunk_remaining p) (int (length (p_buf p))));
             p = p\<lparr>p_body := p_body p @ take taken (p_buf p), p_buf := drop taken (p_buf p),
                   p_chunk_remaining := p_chunk_remaining p - int taken\<rparr> in
         if 0 < p_chunk_remaining p
         then (if p_eof p then Stop (Inl (HttpParseError EofInChunkData, p)) else Stop (Inr p))
         else Go p)
      else Go p)"

definition chunk_end_block :: "parser \<Rightarrow> flow" where
  "chunk_end_block p =
     (if length (p_buf p) < 2
      then (if p_eof p then Stop (Inl (HttpParseError EofBeforeChunkTerminator, p)) else Stop (Inr p))
      else if \<not> prefix crlf (p_buf p) then Stop (Inl (HttpParseError MissingChunkCrlf, p))
      else Go (p\<lparr>p_buf := drop 2 (p_buf p), p_awaiting_chunk_size := True\<rparr>))"

fun flow_then :: "flow \<Rightarrow> (parser \<Rightarrow> flow) \<Rightarrow> flow" where
  "flow_then (Stop r) f = Stop r"
| "flow_then (Go p) f = f p"

text \<open>One turn of the \<open>while True\<close> loop, and the loop: \<open>Go\<close> starts the next turn.\<close>

definition chunk_turn :: "codec \<Rightarrow> parser \<Rightarrow> flow" where
  "chunk_turn cd p =
     (if p_in_trailers p then Stop (parse_trailers cd p)
      else flow_then (chunk_size_block p) (\<lambda>p.
           if p_in_trailers p then Go p
           else flow_then (chunk_data_block p) chunk_end_block))"

text \<open>No block lengthens the buffer, and a turn of the loop shortens it.\<close>

lemma flow_then_Go: "flow_then r f = Go q \<longleftrightarrow> (\<exists>p. r = Go p \<and> f p = Go q)"
  by (cases r) auto

lemma chunk_size_block_shrinks:
  "chunk_size_block p = Go q \<Longrightarrow> length (p_buf q) \<le> length (p_buf p)
     \<and> (p_in_trailers q \<noteq> p_in_trailers p \<longrightarrow> length (p_buf q) < length (p_buf p))"
  by (auto simp: chunk_size_block_def Let_def dest!: find_sub_Some_length
      split: if_splits option.splits)

lemma chunk_data_block_shrinks: "chunk_data_block p = Go q \<Longrightarrow> length (p_buf q) \<le> length (p_buf p)"
  by (auto simp: chunk_data_block_def Let_def split: if_splits)

lemma chunk_end_block_shrinks: "chunk_end_block p = Go q \<Longrightarrow> length (p_buf q) < length (p_buf p)"
  by (auto simp: chunk_end_block_def split: if_splits)

lemma chunk_turn_shrinks: "chunk_turn cd p = Go q \<Longrightarrow> length (p_buf q) < length (p_buf p)"
  by (fastforce simp: chunk_turn_def flow_then_Go split: if_splits
      dest: chunk_size_block_shrinks chunk_data_block_shrinks chunk_end_block_shrinks)

function parse_chunked :: "codec \<Rightarrow> parser \<Rightarrow> outcome" where
  "parse_chunked cd p = (case chunk_turn cd p of Stop r \<Rightarrow> r | Go q \<Rightarrow> parse_chunked cd q)"
  by pat_completeness auto
termination
  by (relation "measure (\<lambda>(cd, p). length (p_buf p))") (auto dest: chunk_turn_shrinks)

declare parse_chunked.simps [simp del]

section \<open>Headers and the driver\<close>

definition parse_body :: "codec \<Rightarrow> parser \<Rightarrow> outcome" where
  "parse_body cd p =
     (if p_chunked p then parse_chunked cd p
      else case p_content_length p of
             Some len \<Rightarrow> parse_fixed_length cd len p
           | None \<Rightarrow> parse_until_close cd p)"

text \<open>The loop over the lines of the header block; the headers read so far stay on an error.\<close>

fun parse_header_lines :: "headers \<Rightarrow> bytes list \<Rightarrow> (raised \<times> headers) + headers" where
  "parse_header_lines h [] = Inr h"
| "parse_header_lines h (raw # raws) =
     (if raw = [] then parse_header_lines h raws
      else if hd raw \<in> {CHR '' '', CHR 0x09} then
        (if header_items h = [] then Inl (HttpParseError ContinuationWithoutHeader, h)
         else case append_to_last h (bytes_strip raw) of
                Inl e \<Rightarrow> Inl (HeaderRaised e, h)
              | Inr h' \<Rightarrow> parse_header_lines h' raws)
      else case find_sub '':'' raw of
             None \<Rightarrow> Inl (HttpParseError (MalformedHeaderLine raw), h)
           | Some colon \<Rightarrow>
               if colon = 0 then Inl (HttpParseError (MalformedHeaderLine raw), h)
               else parse_header_lines
                      (add_header h (str_strip (take colon raw)) (str_strip (drop (colon + 1) raw)))
                      raws)"

definition finish_headers :: "codec \<Rightarrow> bytes \<Rightarrow> parser \<Rightarrow> outcome" where
  "finish_headers cd block p =
     (case parse_header_lines (p_headers p) (py_split crlf block) of
        Inl (e, h) \<Rightarrow> Inl (e, p\<lparr>p_headers := h\<rparr>)
      | Inr h \<Rightarrow>
          and_then (resolve_framing (p\<lparr>p_headers := h\<rparr>)) (\<lambda>p.
          parse_body cd (p\<lparr>p_state := BODY\<rparr>)))"

definition parse_headers :: "codec \<Rightarrow> parser \<Rightarrow> outcome" where
  "parse_headers cd p =
     (if prefix crlf (p_buf p) then finish_headers cd [] (p\<lparr>p_buf := drop 2 (p_buf p)\<rparr>)
      else case find_sub (crlf @ crlf) (p_buf p) of
             None \<Rightarrow>
               if p_eof p \<and> p_buf p \<noteq> [] then Inl (HttpParseError ClosedInsideHeaders, p) else Inr p
           | Some i \<Rightarrow>
               finish_headers cd (take i (p_buf p)) (p\<lparr>p_buf := drop (i + 4) (p_buf p)\<rparr>))"

definition when_state :: "phase \<Rightarrow> (parser \<Rightarrow> outcome) \<Rightarrow> parser \<Rightarrow> outcome" where
  "when_state ph f p = (if p_state p = ph then f p else Inr p)"

definition parse :: "codec \<Rightarrow> parser \<Rightarrow> outcome" where
  "parse cd p =
     and_then (when_state STATUS parse_status_line p) (\<lambda>p.
     and_then (when_state HEADERS (parse_headers cd) p) (\<lambda>p.
     when_state BODY (parse_body cd) p))"

definition feed :: "codec \<Rightarrow> parser \<Rightarrow> bytes \<Rightarrow> outcome" where
  "feed cd p data = parse cd (if data \<noteq> [] then p\<lparr>p_buf := p_buf p @ data\<rparr> else p)"

definition feed_eof :: "codec \<Rightarrow> parser \<Rightarrow> outcome" where
  "feed_eof cd p = parse cd (p\<lparr>p_eof := True\<rparr>)"

definition is_complete :: "parser \<Rightarrow> bool" where
  "is_complete p \<longleftrightarrow> p_state p = DONE"

definition used_close_framing :: "parser \<Rightarrow> bool" where
  "used_close_framing p = p_read_until_close p"

end
