(* ===== verification/Parser_Increments.thy ===== *)
theory Parser_Increments
  imports Response_Parser
begin

text \<open>
  The parser does not depend on how the wire cuts its input: a method that has to wait can be
  resumed with more bytes and then does what it would have done had they been there at first.
  The locale \<open>incremental\<close> states this contract for any consumer of a stream and derives from
  it that every fragmentation gives the same result; the parser is an interpretation.
\<close>

section \<open>Appending to the buffer\<close>

definition more_input :: "bytes \<Rightarrow> parser \<Rightarrow> parser" where
  "more_input b p = p\<lparr>p_buf := p_buf p @ b\<rparr>"

lemma extend_Nil [simp]: "more_input [] p = p"
  by (simp add: more_input_def)

lemma extend_extend [simp]: "more_input c (more_input b p) = more_input (b @ c) p"
  by (simp add: more_input_def)

lemma extend_sel [simp]:
  "p_buf (more_input b p) = p_buf p @ b" "p_state (more_input b p) = p_state p" "p_eof (more_input b p) = p_eof p"
  "p_headers (more_input b p) = p_headers p" "p_body (more_input b p) = p_body p"
  "p_chunked (more_input b p) = p_chunked p" "p_content_length (more_input b p) = p_content_length p"
  "p_chunk_remaining (more_input b p) = p_chunk_remaining p" "p_status_code (more_input b p) = p_status_code p"
  "p_awaiting_chunk_size (more_input b p) = p_awaiting_chunk_size p"
  "p_in_trailers (more_input b p) = p_in_trailers p" "p_response (more_input b p) = p_response p"
  by (simp_all add: more_input_def)

lemma extend_upd [simp]:
  "(more_input b p)\<lparr>p_headers := h\<rparr> = more_input b (p\<lparr>p_headers := h\<rparr>)"
  "(more_input b p)\<lparr>p_state := ph\<rparr> = more_input b (p\<lparr>p_state := ph\<rparr>)"
  by (simp_all add: more_input_def)

text \<open>\<open>resume f b r\<close>: what became of a call, once \<open>b\<close> arrived and \<open>f\<close> ran again if it returned.\<close>

fun resume :: "(parser \<Rightarrow> outcome) \<Rightarrow> bytes \<Rightarrow> outcome \<Rightarrow> outcome" where
  "resume f b (Inl (e, q)) = Inl (e, more_input b q)"
| "resume f b (Inr q) = f (more_input b q)"

lemma prefix_append_long: "length pat \<le> length xs \<Longrightarrow> prefix pat (xs @ ys) \<longleftrightarrow> prefix pat xs"
  by (meson prefix_length_prefix prefix_prefix prefixI)

lemma find_sub_crlf_append:
  "find_sub crlf xs = Some i \<Longrightarrow> take i (xs @ ys) = take i xs \<and> drop (i + 2) (xs @ ys) = drop (i + 2) xs @ ys"
  using find_sub_Some_length [of crlf xs i] by simp

lemma find_sub_blank_append:
  "find_sub (crlf @ crlf) xs = Some i \<Longrightarrow>
    take i (xs @ ys) = take i xs \<and> drop (i + 4) (xs @ ys) = drop (i + 4) xs @ ys"
  using find_sub_Some_length [of "crlf @ crlf" xs i] by simp

section \<open>Each body reader can be resumed\<close>

lemma finalize_extend: "finalize cd (more_input b p) = resume Inr b (finalize cd p)"
  by (simp add: finalize_def more_input_def split: sum.split)

lemma finalize_InrD: "finalize cd p = Inr q \<Longrightarrow> p_state q = DONE \<and> p_eof q = p_eof p"
  by (auto simp: finalize_def split: sum.splits)

lemma until_close_resume:
  assumes "\<not> p_eof p"
  shows "parse_until_close cd (more_input b p) = resume (parse_until_close cd) b (parse_until_close cd p)"
  using assms by (cases p) (auto simp: parse_until_close_def more_input_def Let_def)

lemma until_close_InrD:
  "\<not> p_eof p \<Longrightarrow> parse_until_close cd p = Inr q \<Longrightarrow>
    p_state q = p_state p \<and> \<not> p_eof q \<and> p_chunked q = p_chunked p \<and> p_content_length q = p_content_length p"
  by (auto simp: parse_until_close_def Let_def split: if_splits)

text \<open>The fixed-length reader, with the number of missing bytes as a natural number.\<close>

lemma take_nat_min:
  "take (nat (min n (int (length xs)))) xs = take (nat n) xs"
  "drop (nat (min n (int (length xs)))) xs = drop (nat n) xs"
  by (auto simp: min_def)

definition take_missing :: "int \<Rightarrow> parser \<Rightarrow> parser" where
  "take_missing len p =
     (let n = nat (len - int (length (p_body p))) in
      p\<lparr>p_body := p_body p @ take n (p_buf p), p_buf := drop n (p_buf p)\<rparr>)"

lemma parse_fixed_length_alt:
  "parse_fixed_length cd len p =
     (let q = take_missing len p in
      if len \<le> int (length (p_body q)) \<or> p_eof p then finalize cd q else Inr q)"
proof (cases "0 < len - int (length (p_body p))")
  case True
  then show ?thesis by (simp add: parse_fixed_length_def take_missing_def Let_def take_nat_min)
next
  case False
  then have "take_missing len p = p" by (simp add: take_missing_def)
  with False show ?thesis by (simp add: parse_fixed_length_def Let_def)
qed

lemma fixed_length_short:
  assumes "\<not> p_eof p" "int (length (p_body p) + length (p_buf p)) < len"
  shows "parse_fixed_length cd len p = Inr (p\<lparr>p_body := p_body p @ p_buf p, p_buf := []\<rparr>)"
  using assms by (simp add: parse_fixed_length_alt take_missing_def Let_def)

lemma fixed_length_absorb:
  assumes "int (length (p_body p) + length (p_buf p)) < len"
  shows "parse_fixed_length cd len (more_input b p) =
    parse_fixed_length cd len (more_input b (p\<lparr>p_body := p_body p @ p_buf p, p_buf := []\<rparr>))"
proof -
  define n where "n = nat (len - (int (length (p_body p)) + int (length (p_buf p))))"
  have "nat (len - int (length (p_body p))) = length (p_buf p) + n"
    using assms by (simp add: n_def)
  then have "take_missing len (more_input b p) =
      take_missing len (more_input b (p\<lparr>p_body := p_body p @ p_buf p, p_buf := []\<rparr>))"
    by (simp add: take_missing_def more_input_def Let_def flip: n_def)
  then show ?thesis by (simp add: parse_fixed_length_alt)
qed

lemma fixed_length_enough:
  assumes "len \<le> int (length (p_body p) + length (p_buf p))"
  shows "parse_fixed_length cd len p = finalize cd (take_missing len p)"
    "take_missing len (more_input b p) = more_input b (take_missing len p)"
  using assms by (simp_all add: parse_fixed_length_alt take_missing_def more_input_def Let_def)

lemma fixed_length_resume_enough:
  assumes "len \<le> int (length (p_body p) + length (p_buf p))"
  shows "parse_fixed_length cd len (more_input b p) = resume Inr b (parse_fixed_length cd len p)"
  using assms fixed_length_enough [of len p] fixed_length_enough(1) [of len "more_input b p" cd]
  by (simp add: finalize_extend)

section \<open>The chunk loop can be resumed\<close>

text \<open>Waiting for the end of the trailers changes nothing; otherwise the response is finished.\<close>

lemma parse_trailers_wait:
  assumes "\<not> p_eof p" "\<not> prefix crlf (p_buf p)" "find_sub (crlf @ crlf) (p_buf p) = None"
  shows "parse_trailers cd p = Inr p"
  using assms by (simp add: parse_trailers_def)

lemma parse_trailers_resume:
  assumes "prefix crlf (p_buf p) \<or> find_sub (crlf @ crlf) (p_buf p) = Some i"
  shows "parse_trailers cd (more_input b p) = resume Inr b (parse_trailers cd p)"
    "parse_trailers cd p = Inr q \<Longrightarrow> p_state q = DONE"
proof -
  show "parse_trailers cd (more_input b p) = resume Inr b (parse_trailers cd p)"
  proof (cases "prefix crlf (p_buf p)")
    case True
    then have "2 \<le> length (p_buf p)" using prefix_length_le by fastforce
    with True show ?thesis
      using finalize_extend [of cd b "p\<lparr>p_buf := drop 2 (p_buf p)\<rparr>"]
      by (simp add: parse_trailers_def more_input_def)
  next
    case False
    with assms have find: "find_sub (crlf @ crlf) (p_buf p) = Some i" by simp
    then have "4 \<le> length (p_buf p)" using find_sub_Some_length by fastforce
    with False have "\<not> prefix crlf (p_buf p @ b)" by (simp add: prefix_append_long)
    with False find find_sub_blank_append [OF find, of b] show ?thesis
      using finalize_extend [of cd b "p\<lparr>p_buf := drop (i + 4) (p_buf p)\<rparr>"] find_sub_append [OF find]
      by (simp add: parse_trailers_def more_input_def)
  qed
  show "parse_trailers cd p = Inr q \<Longrightarrow> p_state q = DONE"
    using assms by (auto simp: parse_trailers_def dest: finalize_InrD split: if_splits option.splits)
qed

text \<open>The three blocks of the loop body.\<close>

fun extend_flow :: "bytes \<Rightarrow> flow \<Rightarrow> flow" where
  "extend_flow b (Stop r) = Stop (resume Inr b r)"
| "extend_flow b (Go q) = Go (more_input b q)"

lemma chunk_size_block_cases:
  assumes "\<not> p_eof p"
  shows "chunk_size_block p = Stop (Inr p)
    \<or> chunk_size_block (more_input b p) = extend_flow b (chunk_size_block p)
      \<and> (\<forall>q. chunk_size_block p \<noteq> Stop (Inr q))"
proof (cases "p_awaiting_chunk_size p")
  case False
  then show ?thesis by (simp add: chunk_size_block_def)
next
  case True
  show ?thesis
  proof (cases "find_sub crlf (p_buf p)")
    case None
    with True assms show ?thesis by (simp add: chunk_size_block_def)
  next
    case (Some i)
    let ?line = "take i (p_buf p)"
    have ext: "find_sub crlf (p_buf p @ b) = Some i" "i + 2 \<le> length (p_buf p)"
      using find_sub_append [OF Some] find_sub_Some_length [OF Some] by auto
    show ?thesis
    proof (cases "py_int 16 is_bytes_space (bytes_strip (takeWhile (\<lambda>c. c \<noteq> CHR '';'') ?line))")
      case None
      with True Some ext show ?thesis by (simp add: chunk_size_block_def Let_def)
    next
      case (Some n)
      with True \<open>find_sub crlf (p_buf p) = Some i\<close> ext show ?thesis
        by (simp add: chunk_size_block_def more_input_def Let_def)
    qed
  qed
qed

lemma chunk_size_block_Go:
  "chunk_size_block p = Go q \<Longrightarrow> p_eof q = p_eof p \<and> p_state q = p_state p \<and> p_chunked q = p_chunked p
    \<and> (\<not> p_in_trailers p \<longrightarrow> \<not> p_in_trailers q \<longrightarrow> \<not> p_awaiting_chunk_size q)"
  by (auto simp: chunk_size_block_def Let_def split: if_splits option.splits)

definition take_chunk :: "parser \<Rightarrow> parser" where
  "take_chunk p =
     (let n = nat (p_chunk_remaining p) in
      p\<lparr>p_body := p_body p @ take n (p_buf p), p_buf := drop n (p_buf p),
        p_chunk_remaining := p_chunk_remaining p - int (min n (length (p_buf p)))\<rparr>)"

lemma chunk_data_block_alt:
  "chunk_data_block p =
     (if 0 < p_chunk_remaining p then
        (let q = take_chunk p in
         if 0 < p_chunk_remaining q
         then (if p_eof p then Stop (Inl (HttpParseError EofInChunkData, q)) else Stop (Inr q))
         else Go q)
      else Go p)"
proof (cases "0 < p_chunk_remaining p")
  case True
  have "nat (min (p_chunk_remaining p) (int (length (p_buf p)))) =
      min (nat (p_chunk_remaining p)) (length (p_buf p))"
    by (simp add: min_def nat_le_iff)
  moreover have "take (min n (length xs)) xs = take n xs \<and> drop (min n (length xs)) xs = drop n xs"
    for n and xs :: bytes by (simp add: min_def)
  ultimately show ?thesis
    using True by (simp add: chunk_data_block_def take_chunk_def Let_def)
next
  case False
  then show ?thesis by (simp add: chunk_data_block_def)
qed

lemma chunk_data_block_extend:
  assumes "\<not> p_eof p"
  shows "chunk_data_block p = Go q \<Longrightarrow> chunk_data_block (more_input b p) = Go (more_input b q)"
    and "chunk_data_block p \<noteq> Stop (Inl e)"
    and "chunk_data_block p = Go q \<Longrightarrow> p_chunk_remaining q \<le> 0 \<and> p_eof q = p_eof p
      \<and> p_state q = p_state p \<and> p_awaiting_chunk_size q = p_awaiting_chunk_size p
      \<and> p_in_trailers q = p_in_trailers p \<and> p_chunked q = p_chunked p"
  using assms
  by (auto simp: chunk_data_block_alt take_chunk_def more_input_def Let_def split: if_splits)

lemma chunk_data_block_wait:
  assumes "\<not> p_eof p" "chunk_data_block p = Stop (Inr q)"
  shows "chunk_data_block (more_input b p) = chunk_data_block (more_input b q)"
    and "p_eof q = p_eof p \<and> p_state q = p_state p \<and> p_awaiting_chunk_size q = p_awaiting_chunk_size p
      \<and> p_in_trailers q = p_in_trailers p \<and> p_chunked q = p_chunked p"
proof -
  define n where "n = nat (p_chunk_remaining p) - length (p_buf p)"
  from assms have pos: "0 < p_chunk_remaining p" "0 < p_chunk_remaining q" and q: "q = take_chunk p"
    by (auto simp: chunk_data_block_alt Let_def split: if_splits)
  then have "length (p_buf p) < nat (p_chunk_remaining p)"
    by (auto simp: take_chunk_def Let_def min_def split: if_splits)
  then have n: "nat (p_chunk_remaining p) = length (p_buf p) + n"
    and rem: "p_chunk_remaining p = int (length (p_buf p)) + int n"
    by (simp_all add: n_def)
  from q n rem have "q = p\<lparr>p_body := p_body p @ p_buf p, p_buf := [], p_chunk_remaining := int n\<rparr>"
    by (simp add: take_chunk_def)
  then show "chunk_data_block (more_input b p) = chunk_data_block (more_input b q)"
    using pos assms(1) n rem
    by (simp add: chunk_data_block_alt take_chunk_def more_input_def Let_def)
  show "p_eof q = p_eof p \<and> p_state q = p_state p \<and> p_awaiting_chunk_size q = p_awaiting_chunk_size p
      \<and> p_in_trailers q = p_in_trailers p \<and> p_chunked q = p_chunked p"
    by (simp add: q take_chunk_def Let_def)
qed

lemma chunk_end_block_cases:
  assumes "\<not> p_eof p"
  shows "chunk_end_block p = Stop (Inr p)
    \<or> chunk_end_block (more_input b p) = extend_flow b (chunk_end_block p)
      \<and> (\<forall>q. chunk_end_block p \<noteq> Stop (Inr q))"
proof (cases "length (p_buf p) < 2")
  case True
  with assms show ?thesis by (simp add: chunk_end_block_def)
next
  case False
  then have "prefix crlf (p_buf p @ b) \<longleftrightarrow> prefix crlf (p_buf p)"
    by (simp add: prefix_append_long)
  with False show ?thesis by (simp add: chunk_end_block_def more_input_def)
qed

lemma chunk_end_block_Go:
  "chunk_end_block p = Go q \<Longrightarrow> p_eof q = p_eof p \<and> p_state q = p_state p
    \<and> p_in_trailers q = p_in_trailers p \<and> p_chunked q = p_chunked p"
  by (auto simp: chunk_end_block_def split: if_splits)

text \<open>\<open>retry f\<close>: run \<open>f\<close> again unless the response is already finished.\<close>

definition retry :: "(parser \<Rightarrow> outcome) \<Rightarrow> parser \<Rightarrow> outcome" where
  "retry f q = (if p_state q = DONE then Inr q else f q)"

lemma retry_DONE [simp]: "p_state q = DONE \<Longrightarrow> retry f q = Inr q"
  by (simp add: retry_def)

lemma retry_not_DONE [simp]: "p_state q \<noteq> DONE \<Longrightarrow> retry f q = f q"
  by (simp add: retry_def)

text \<open>What a reader leaves unchanged when it returns without finishing.\<close>

definition same_mode :: "parser \<Rightarrow> parser \<Rightarrow> bool" where
  "same_mode p q \<longleftrightarrow> p_eof q = p_eof p \<and> p_chunked q = p_chunked p
     \<and> p_content_length q = p_content_length p"

lemma same_mode_refl [simp]: "same_mode p p"
  by (simp add: same_mode_def)

lemma same_mode_trans: "same_mode p q \<Longrightarrow> same_mode q r \<Longrightarrow> same_mode p r"
  by (simp add: same_mode_def)

lemma finalize_mode: "finalize cd p = Inr q \<Longrightarrow> same_mode p q \<and> p_state q = DONE"
  by (auto simp: finalize_def same_mode_def split: sum.splits)

lemma parse_trailers_mode: "parse_trailers cd p = Inr q \<Longrightarrow> same_mode p q \<and> p_state q \<in> {p_state p, DONE}"
  by (auto simp: parse_trailers_def same_mode_def finalize_def split: if_splits option.splits sum.splits)

lemma blocks_mode:
  "chunk_size_block p = Go q \<Longrightarrow> same_mode p q \<and> p_state q = p_state p"
  "chunk_size_block p = Stop (Inr q) \<Longrightarrow> same_mode p q \<and> p_state q = p_state p"
  "chunk_data_block p = Go q \<Longrightarrow> same_mode p q \<and> p_state q = p_state p"
  "chunk_data_block p = Stop (Inr q) \<Longrightarrow> same_mode p q \<and> p_state q = p_state p"
  "chunk_end_block p = Go q \<Longrightarrow> same_mode p q \<and> p_state q = p_state p"
  "chunk_end_block p = Stop (Inr q) \<Longrightarrow> same_mode p q \<and> p_state q = p_state p"
  by (auto simp: chunk_size_block_def chunk_data_block_def chunk_end_block_def same_mode_def Let_def
      split: if_splits option.splits)

lemma flow_then_Stop: "flow_then r f = Stop x \<longleftrightarrow> r = Stop x \<or> (\<exists>p. r = Go p \<and> f p = Stop x)"
  by (cases r) auto

lemma chunk_turn_mode:
  "chunk_turn cd p = Go q \<Longrightarrow> same_mode p q \<and> p_state q = p_state p"
  "chunk_turn cd p = Stop (Inr q) \<Longrightarrow> same_mode p q \<and> p_state q \<in> {p_state p, DONE}"
  by (auto simp: chunk_turn_def flow_then_Go flow_then_Stop split: if_splits
      dest!: blocks_mode parse_trailers_mode intro: same_mode_trans)

lemma parse_chunked_mode:
  "parse_chunked cd p = Inr q \<Longrightarrow> same_mode p q \<and> p_state q \<in> {p_state p, DONE}"
proof (induction cd p rule: parse_chunked.induct)
  case (1 cd p)
  show ?case
  proof (cases "chunk_turn cd p")
    case (Stop r)
    with "1.prems" show ?thesis
      using chunk_turn_mode(2) [of cd p q] by (simp add: parse_chunked.simps [of cd p])
  next
    case (Go p')
    with "1.prems" have "parse_chunked cd p' = Inr q" by (simp add: parse_chunked.simps [of cd p])
    with "1.IH" Go have "same_mode p' q \<and> p_state q \<in> {p_state p', DONE}" by blast
    with chunk_turn_mode(1) [OF Go] show ?thesis by (auto intro: same_mode_trans)
  qed
qed

text \<open>A turn commutes with appending bytes; one that waits can be taken again.\<close>

definition turn_resumes :: "codec \<Rightarrow> bytes \<Rightarrow> parser \<Rightarrow> bool" where
  "turn_resumes cd b p \<longleftrightarrow>
     chunk_turn cd (more_input b p) = extend_flow b (chunk_turn cd p)
       \<and> (\<forall>q. chunk_turn cd p = Stop (Inr q) \<longrightarrow> p_state q = DONE)
     \<or> (\<exists>q. chunk_turn cd p = Stop (Inr q) \<and> p_state q \<noteq> DONE
          \<and> chunk_turn cd (more_input b p) = chunk_turn cd (more_input b q))"

lemma trailers_turn_resumes:
  assumes "\<not> p_eof p" "p_state p \<noteq> DONE" "p_in_trailers p"
  shows "turn_resumes cd b p"
proof (cases "\<not> prefix crlf (p_buf p) \<and> find_sub (crlf @ crlf) (p_buf p) = None")
  case True
  with assms have "chunk_turn cd p = Stop (Inr p)"
    by (simp add: chunk_turn_def parse_trailers_wait)
  with assms(2) show ?thesis by (auto simp: turn_resumes_def)
next
  case False
  then obtain i where "prefix crlf (p_buf p) \<or> find_sub (crlf @ crlf) (p_buf p) = Some i" by auto
  from parse_trailers_resume [OF this] assms(3) show ?thesis
    by (simp add: turn_resumes_def chunk_turn_def)
qed

lemma chunk_turn_data_wait:
  assumes "\<not> p_eof p" "\<not> p_in_trailers p" "chunk_size_block (more_input b p) = Go (more_input b p1)"
    "chunk_size_block p = Go p1" "\<not> p_in_trailers p1" "chunk_data_block p1 = Stop (Inr q)"
  shows "chunk_turn cd (more_input b p) = chunk_turn cd (more_input b q)"
proof -
  have p1: "\<not> p_eof p1" "\<not> p_awaiting_chunk_size p1"
    using chunk_size_block_Go [OF assms(4)] assms by auto
  note w = chunk_data_block_wait [OF p1(1) assms(6)]
  then have "chunk_size_block (more_input b q) = Go (more_input b q)" "\<not> p_in_trailers q"
    using p1 assms(5) by (simp_all add: chunk_size_block_def)
  then show ?thesis
    using assms w(1) by (simp add: chunk_turn_def)
qed

lemma chunk_turn_end_wait:
  assumes "\<not> p_eof p" "\<not> p_in_trailers p" "chunk_size_block (more_input b p) = Go (more_input b p1)"
    "chunk_size_block p = Go p1" "\<not> p_in_trailers p1" "chunk_data_block p1 = Go p2"
  shows "chunk_turn cd (more_input b p) = chunk_turn cd (more_input b p2)"
proof -
  have p1: "\<not> p_eof p1" "\<not> p_awaiting_chunk_size p1"
    using chunk_size_block_Go [OF assms(4)] assms by auto
  note d = chunk_data_block_extend [OF p1(1)]
  from d(3) [OF assms(6)] p1 assms(5)
  have "chunk_size_block (more_input b p2) = Go (more_input b p2)" "\<not> p_in_trailers p2"
    "chunk_data_block (more_input b p2) = Go (more_input b p2)"
    by (simp_all add: chunk_size_block_def chunk_data_block_def)
  then show ?thesis
    using assms d(1) [OF assms(6)] by (simp add: chunk_turn_def)
qed

lemma data_turn_resumes:
  assumes "\<not> p_eof p" "p_state p \<noteq> DONE" "\<not> p_in_trailers p" "chunk_size_block p = Go p1"
    "chunk_size_block (more_input b p) = Go (more_input b p1)" "\<not> p_in_trailers p1"
  shows "turn_resumes cd b p"
proof -
  have p1: "\<not> p_eof p1" "p_state p1 \<noteq> DONE"
    using chunk_size_block_Go [OF assms(4)] assms by auto
  note d = chunk_data_block_extend [OF p1(1)]
  show ?thesis
  proof (cases "chunk_data_block p1")
    case (Stop r)
    with d(2) obtain q where q: "chunk_data_block p1 = Stop (Inr q)"
      by (cases r) auto
    with assms chunk_data_block_wait(2) [OF p1(1) q] p1(2) show ?thesis
      using chunk_turn_data_wait [OF assms(1,3,5,4,6) q]
      by (auto simp: turn_resumes_def chunk_turn_def)
  next
    case p2: (Go p2)
    from d(3) [OF p2] p1 have m2: "\<not> p_eof p2" "p_state p2 \<noteq> DONE" by auto
    consider "chunk_end_block p2 = Stop (Inr p2)"
      | "chunk_end_block (more_input b p2) = extend_flow b (chunk_end_block p2)"
        "\<forall>q. chunk_end_block p2 \<noteq> Stop (Inr q)"
      using chunk_end_block_cases [OF m2(1)] by blast
    then show ?thesis
    proof cases
      case 1
      with assms p2 m2 show ?thesis
        using chunk_turn_end_wait [OF assms(1,3,5,4,6) p2]
        by (auto simp: turn_resumes_def chunk_turn_def)
    next
      case 2
      with assms p2 d(1) [OF p2] show ?thesis
        by (simp add: turn_resumes_def chunk_turn_def)
    qed
  qed
qed

lemma chunk_turn_resumes:
  assumes "\<not> p_eof p" "p_state p \<noteq> DONE"
  shows "turn_resumes cd b p"
proof (cases "p_in_trailers p")
  case True
  with assms show ?thesis by (rule trailers_turn_resumes)
next
  case nt: False
  consider "chunk_size_block p = Stop (Inr p)"
    | "chunk_size_block (more_input b p) = extend_flow b (chunk_size_block p)"
      "\<forall>q. chunk_size_block p \<noteq> Stop (Inr q)"
    using chunk_size_block_cases [OF assms(1)] by blast
  then show ?thesis
  proof cases
    case 1
    with nt assms(2) show ?thesis by (auto simp: turn_resumes_def chunk_turn_def)
  next
    case size: 2
    show ?thesis
    proof (cases "chunk_size_block p")
      case (Stop r)
      with size nt show ?thesis by (simp add: turn_resumes_def chunk_turn_def)
    next
      case p1: (Go p1)
      with size have p1': "chunk_size_block (more_input b p) = Go (more_input b p1)" by simp
      show ?thesis
      proof (cases "p_in_trailers p1")
        case True
        with nt p1 p1' show ?thesis by (simp add: turn_resumes_def chunk_turn_def)
      next
        case False
        then show ?thesis by (rule data_turn_resumes [OF assms nt p1 p1'])
      qed
    qed
  qed
qed

lemma parse_chunked_resume:
  "\<not> p_eof p \<Longrightarrow> p_state p \<noteq> DONE \<Longrightarrow>
    parse_chunked cd (more_input b p) = resume (retry (parse_chunked cd)) b (parse_chunked cd p)"
proof (induction cd p rule: parse_chunked.induct)
  case (1 cd p)
  consider (same) "chunk_turn cd (more_input b p) = extend_flow b (chunk_turn cd p)"
      "\<forall>q. chunk_turn cd p = Stop (Inr q) \<longrightarrow> p_state q = DONE"
    | (wait) q where "chunk_turn cd p = Stop (Inr q)" "p_state q \<noteq> DONE"
      "chunk_turn cd (more_input b p) = chunk_turn cd (more_input b q)"
    using chunk_turn_resumes [OF "1.prems"] unfolding turn_resumes_def by blast
  then show ?case
  proof cases
    case wait
    then show ?thesis
      by (simp add: parse_chunked.simps [of cd p] parse_chunked.simps [of cd "more_input b p"]
          parse_chunked.simps [of cd "more_input b q"])
  next
    case same
    show ?thesis
    proof (cases "chunk_turn cd p")
      case (Stop r)
      with same show ?thesis
        by (cases r) (auto simp: parse_chunked.simps [of cd p] parse_chunked.simps [of cd "more_input b p"])
    next
      case (Go q)
      then have "\<not> p_eof q" "p_state q \<noteq> DONE"
        using chunk_turn_mode(1) [OF Go] "1.prems" by (auto simp: same_mode_def)
      with "1.IH" Go same(1) show ?thesis
        by (simp add: parse_chunked.simps [of cd p] parse_chunked.simps [of cd "more_input b p"])
    qed
  qed
qed

section \<open>The driver can be resumed\<close>

lemma parse_body_mode:
  "\<not> p_eof p \<Longrightarrow> parse_body cd p = Inr q \<Longrightarrow> same_mode p q \<and> p_state q \<in> {p_state p, DONE}"
  by (auto simp: parse_body_def parse_fixed_length_alt parse_until_close_def take_missing_def Let_def
      same_mode_def split: if_splits option.splits
      dest!: parse_chunked_mode finalize_mode)

lemma parse_body_resume:
  assumes "\<not> p_eof p" "p_state p \<noteq> DONE"
  shows "parse_body cd (more_input b p) = resume (retry (parse_body cd)) b (parse_body cd p)"
proof (cases "p_chunked p")
  case True
  then have "resume (retry (parse_body cd)) b (parse_chunked cd p) =
      resume (retry (parse_chunked cd)) b (parse_chunked cd p)"
    using parse_chunked_mode [of cd p]
    by (cases "parse_chunked cd p") (auto simp: parse_body_def retry_def same_mode_def)
  with True show ?thesis
    using parse_chunked_resume [OF assms, of cd b] by (simp add: parse_body_def)
next
  case nc: False
  show ?thesis
  proof (cases "p_content_length p")
    case None
    with nc assms show ?thesis
      using until_close_resume [OF assms(1), of cd b] until_close_InrD [OF assms(1), of cd]
      by (cases "parse_until_close cd p") (auto simp: parse_body_def retry_def)
  next
    case (Some len)
    show ?thesis
    proof (cases "int (length (p_body p) + length (p_buf p)) < len")
      case True
      with nc Some assms show ?thesis
        using fixed_length_absorb [OF True, of cd b] fixed_length_short [OF assms(1) True, of cd]
        by (simp add: parse_body_def)
    next
      case False
      then have enough: "len \<le> int (length (p_body p) + length (p_buf p))" by simp
      with nc Some show ?thesis
        using fixed_length_resume_enough [OF enough, of cd b] fixed_length_enough(1) [OF enough, of cd]
        by (cases "finalize cd (take_missing len p)") (auto simp: parse_body_def dest: finalize_mode)
    qed
  qed
qed

text \<open>Calling the body reader twice is calling it once, as \<open>_parse\<close> does after the headers.\<close>

lemma parse_body_settled:
  assumes "\<not> p_eof p" "p_state p \<noteq> DONE" "parse_body cd p = Inr q" "p_state q \<noteq> DONE"
  shows "parse_body cd q = Inr q"
  using parse_body_resume [OF assms(1,2), of cd "[]"] assms(3,4) by simp

lemma resolve_framing_extend: "resolve_framing (more_input b p) = resume Inr b (resolve_framing p)"
  by (simp add: resolve_framing_def more_input_def Let_def split: option.split)

lemma resolve_framing_mode:
  "resolve_framing p = Inr q \<Longrightarrow> p_eof q = p_eof p \<and> p_state q = p_state p"
  by (auto simp: resolve_framing_def Let_def split: if_splits option.splits)

text \<open>\<open>_parse_headers\<close> up to its call of the body reader.\<close>

definition framed :: "bytes \<Rightarrow> parser \<Rightarrow> outcome" where
  "framed block p =
     (case parse_header_lines (p_headers p) (py_split crlf block) of
        Inl (e, h) \<Rightarrow> Inl (e, p\<lparr>p_headers := h\<rparr>)
      | Inr h \<Rightarrow> and_then (resolve_framing (p\<lparr>p_headers := h\<rparr>)) (\<lambda>p. Inr (p\<lparr>p_state := BODY\<rparr>)))"

lemma finish_headers_framed: "finish_headers cd block p = and_then (framed block p) (parse_body cd)"
  by (auto simp: finish_headers_def framed_def and_then_assoc split: sum.split)

lemma framed_extend: "framed block (more_input b p) = resume Inr b (framed block p)"
proof (cases "parse_header_lines (p_headers p) (py_split crlf block)")
  case (Inl e)
  then show ?thesis by (cases e) (simp add: framed_def)
next
  case (Inr h)
  then show ?thesis
    using resolve_framing_extend [of b "p\<lparr>p_headers := h\<rparr>"]
    by (cases "resolve_framing (p\<lparr>p_headers := h\<rparr>)") (auto simp: framed_def)
qed

lemma framed_mode: "framed block p = Inr q \<Longrightarrow> p_eof q = p_eof p \<and> p_state q = BODY"
  by (auto simp: framed_def and_then_Inr_iff split: sum.splits dest: resolve_framing_mode)

lemma parse_headers_cases:
  assumes "\<not> p_eof p"
  obtains "parse_headers cd p = Inr p"
  | r where "parse_headers cd p = and_then r (parse_body cd)"
      "parse_headers cd (more_input b p) = and_then (resume Inr b r) (parse_body cd)"
      "\<forall>q. r = Inr q \<longrightarrow> \<not> p_eof q \<and> p_state q = BODY"
proof (cases "prefix crlf (p_buf p)")
  case True
  let ?p = "p\<lparr>p_buf := drop 2 (p_buf p)\<rparr>"
  from True have "2 \<le> length (p_buf p)" using prefix_length_le by fastforce
  then have ext: "(more_input b p)\<lparr>p_buf := drop 2 (p_buf p @ b)\<rparr> = more_input b ?p"
    by (simp add: more_input_def)
  show ?thesis
  proof (rule that(2) [of "framed [] ?p"])
    show "parse_headers cd p = and_then (framed [] ?p) (parse_body cd)"
      using True by (simp add: parse_headers_def finish_headers_framed)
    show "parse_headers cd (more_input b p) = and_then (resume Inr b (framed [] ?p)) (parse_body cd)"
      using True ext by (simp add: parse_headers_def finish_headers_framed flip: framed_extend)
    show "\<forall>q. framed [] ?p = Inr q \<longrightarrow> \<not> p_eof q \<and> p_state q = BODY"
      using assms by (auto dest: framed_mode)
  qed
next
  case False
  show ?thesis
  proof (cases "find_sub (crlf @ crlf) (p_buf p)")
    case None
    with False assms show ?thesis by (intro that(1)) (simp add: parse_headers_def)
  next
    case (Some i)
    let ?p = "p\<lparr>p_buf := drop (i + 4) (p_buf p)\<rparr>" and ?block = "take i (p_buf p)"
    have len: "i + 4 \<le> length (p_buf p)" using find_sub_Some_length [OF Some] by simp
    with False have np: "\<not> prefix crlf (p_buf p @ b)" by (simp add: prefix_append_long)
    have ext: "(more_input b p)\<lparr>p_buf := drop (i + 4) (p_buf p @ b)\<rparr> = more_input b ?p"
      "take i (p_buf p @ b) = ?block"
      using len by (simp_all add: more_input_def)
    show ?thesis
    proof (rule that(2) [of "framed ?block ?p"])
      show "parse_headers cd p = and_then (framed ?block ?p) (parse_body cd)"
        using False Some by (simp add: parse_headers_def finish_headers_framed)
      show "parse_headers cd (more_input b p) = and_then (resume Inr b (framed ?block ?p)) (parse_body cd)"
        using np find_sub_append [OF Some, of b] ext len
        by (simp add: parse_headers_def finish_headers_framed flip: framed_extend)
      show "\<forall>q. framed ?block ?p = Inr q \<longrightarrow> \<not> p_eof q \<and> p_state q = BODY"
        using assms by (auto dest: framed_mode)
    qed
  qed
qed

text \<open>The last two stages of \<open>_parse\<close>, from a state past the status line.\<close>

definition after_status :: "codec \<Rightarrow> parser \<Rightarrow> outcome" where
  "after_status cd p =
     and_then (when_state HEADERS (parse_headers cd) p) (when_state BODY (parse_body cd))"

lemma parse_after_status: "parse cd p = and_then (when_state STATUS parse_status_line p) (after_status cd)"
  by (simp add: parse_def after_status_def [abs_def])

lemma body_stage_resume:
  assumes "\<not> p_eof p" "p_state p = BODY"
  shows "after_status cd (more_input b p) = resume (after_status cd) b (after_status cd p)"
    and "after_status cd p = parse_body cd p"
    and "after_status cd p = Inr q \<Longrightarrow> \<not> p_eof q \<and> p_state q \<in> {BODY, DONE}"
proof -
  show a: "after_status cd p = parse_body cd p"
    using assms by (simp add: after_status_def when_state_def)
  show mode: "after_status cd p = Inr q \<Longrightarrow> \<not> p_eof q \<and> p_state q \<in> {BODY, DONE}" for q
    using parse_body_mode [OF assms(1), of cd q] assms by (simp add: a same_mode_def)
  have "after_status cd (more_input b p) = parse_body cd (more_input b p)"
    using assms by (simp add: after_status_def when_state_def)
  also have "\<dots> = resume (retry (parse_body cd)) b (parse_body cd p)"
    using assms by (simp add: parse_body_resume)
  also have "\<dots> = resume (after_status cd) b (parse_body cd p)"
    using mode a
    by (cases "parse_body cd p") (auto simp: after_status_def when_state_def retry_def)
  finally show "after_status cd (more_input b p) = resume (after_status cd) b (after_status cd p)"
    by (simp add: a)
qed

lemma header_stage_body:
  assumes "\<not> p_eof p" "p_state p = HEADERS" "parse_headers cd p = and_then r (parse_body cd)"
    "\<forall>q. r = Inr q \<longrightarrow> \<not> p_eof q \<and> p_state q = BODY"
  shows "after_status cd p = and_then r (after_status cd)"
proof (cases r)
  case (Inl e)
  with assms show ?thesis by (simp add: after_status_def when_state_def)
next
  case (Inr p')
  with assms have p': "\<not> p_eof p'" "p_state p' = BODY" by auto
  have "and_then (parse_body cd p') (when_state BODY (parse_body cd)) = parse_body cd p'"
    using parse_body_mode [OF p'(1), of cd] parse_body_settled [OF p'(1), of cd] p'(2)
    by (cases "parse_body cd p'") (auto simp: when_state_def)
  with Inr assms body_stage_resume(2) [OF p'] show ?thesis
    by (simp add: after_status_def when_state_def)
qed

lemma after_status_resume:
  assumes "\<not> p_eof p" "p_state p \<noteq> STATUS"
  shows "after_status cd (more_input b p) = resume (after_status cd) b (after_status cd p)"
    and "after_status cd p = Inr q \<Longrightarrow> \<not> p_eof q \<and> p_state q \<noteq> STATUS"
proof -
  have "after_status cd (more_input b p) = resume (after_status cd) b (after_status cd p)
    \<and> (\<forall>q. after_status cd p = Inr q \<longrightarrow> \<not> p_eof q \<and> p_state q \<noteq> STATUS)"
  proof (cases "p_state p")
    case STATUS
    with assms show ?thesis by simp
  next
    case DONE
    with assms show ?thesis by (simp add: after_status_def when_state_def)
  next
    case BODY
    with assms body_stage_resume [OF assms(1) BODY, of cd] show ?thesis by auto
  next
    case HEADERS
    show ?thesis
    proof (cases rule: parse_headers_cases [OF assms(1), where cd = cd and b = b])
      case 1
      with assms HEADERS show ?thesis by (simp add: after_status_def when_state_def)
    next
      case (2 r)
      have a: "after_status cd p = and_then r (after_status cd)"
        using header_stage_body [OF assms(1) HEADERS 2(1,3)] .
      have "\<forall>q. resume Inr b r = Inr q \<longrightarrow> \<not> p_eof q \<and> p_state q = BODY"
        using 2(3) by (cases r) auto
      then have ext: "after_status cd (more_input b p) = and_then (resume Inr b r) (after_status cd)"
        using header_stage_body [of "more_input b p" cd "resume Inr b r"] assms(1) HEADERS 2(2) by simp
      show ?thesis
      proof (cases r)
        case (Inl e)
        with a ext show ?thesis by (cases e) simp
      next
        case (Inr q)
        with 2(3) have q: "\<not> p_eof q" "p_state q = BODY" by auto
        from Inr a ext show ?thesis
          using body_stage_resume(1) [OF q, of cd b] body_stage_resume(3) [OF q, of cd] by auto
      qed
    qed
  qed
  then show "after_status cd (more_input b p) = resume (after_status cd) b (after_status cd p)"
    "after_status cd p = Inr q \<Longrightarrow> \<not> p_eof q \<and> p_state q \<noteq> STATUS" by auto
qed

lemma parse_status_line_cases:
  assumes "\<not> p_eof p" "p_state p = STATUS"
  shows "parse_status_line p = Inr p
    \<or> parse_status_line (more_input b p) = resume Inr b (parse_status_line p)
      \<and> (\<forall>q. parse_status_line p = Inr q \<longrightarrow> \<not> p_eof q \<and> p_state q = HEADERS)"
proof (cases "find_sub crlf (p_buf p)")
  case None
  with assms show ?thesis by (simp add: parse_status_line_def)
next
  case (Some i)
  then have "i + 2 \<le> length (p_buf p)" "find_sub crlf (p_buf p @ b) = Some i"
    using find_sub_Some_length [OF Some] find_sub_append [OF Some] by auto
  with Some assms show ?thesis
    by (cases "match_status_line (take i (p_buf p))")
      (auto simp: parse_status_line_def more_input_def Let_def)
qed

lemma parse_resume:
  assumes "\<not> p_eof p"
  shows "parse cd (more_input b p) = resume (parse cd) b (parse cd p)"
    and "parse cd p = Inr q \<Longrightarrow> \<not> p_eof q"
proof -
  have later: "parse cd q = after_status cd q" if "p_state q \<noteq> STATUS" for q
    using that by (simp add: parse_after_status when_state_def)
  have past: "resume (parse cd) b (after_status cd q) = resume (after_status cd) b (after_status cd q)"
    if "\<not> p_eof q" "p_state q \<noteq> STATUS" for q
    using after_status_resume(2) [OF that, of cd] later by (cases "after_status cd q") auto
  have "parse cd (more_input b p) = resume (parse cd) b (parse cd p)
    \<and> (\<forall>q. parse cd p = Inr q \<longrightarrow> \<not> p_eof q)"
  proof (cases "p_state p = STATUS")
    case False
    with assms later past after_status_resume [of p cd] show ?thesis by auto
  next
    case True
    consider "parse_status_line p = Inr p"
      | "parse_status_line (more_input b p) = resume Inr b (parse_status_line p)"
        "\<forall>q. parse_status_line p = Inr q \<longrightarrow> \<not> p_eof q \<and> p_state q = HEADERS"
      using parse_status_line_cases [OF assms True] by blast
    then show ?thesis
    proof cases
      case 1
      with True assms show ?thesis
        by (simp add: parse_after_status after_status_def when_state_def)
    next
      case 2
      show ?thesis
      proof (cases "parse_status_line p")
        case (Inl e)
        with 2 True show ?thesis by (cases e) (simp add: parse_after_status when_state_def)
      next
        case (Inr q)
        with 2(2) have q: "\<not> p_eof q" "p_state q \<noteq> STATUS" by auto
        have "parse cd p = after_status cd q"
          using Inr True by (simp add: parse_after_status when_state_def)
        moreover have "parse cd (more_input b p) = after_status cd (more_input b q)"
          using 2(1) Inr True by (simp add: parse_after_status when_state_def)
        ultimately show ?thesis
          using past [OF q] after_status_resume(1) [OF q, of cd b] after_status_resume(2) [OF q, of cd]
          by auto
      qed
    qed
  qed
  then show "parse cd (more_input b p) = resume (parse cd) b (parse cd p)"
    "parse cd p = Inr q \<Longrightarrow> \<not> p_eof q" by auto
qed

section \<open>Consumers of a fragmented stream\<close>

text \<open>Handing over the chunks one by one; the first exception ends it.\<close>

fun feed_list :: "('s \<Rightarrow> 'c list \<Rightarrow> ('e \<times> 's) + 's) \<Rightarrow> 's \<Rightarrow> 'c list list \<Rightarrow> ('e \<times> 's) + 's" where
  "feed_list f s [] = Inr s"
| "feed_list f s (c # cs) = and_then (f s c) (\<lambda>t. feed_list f t cs)"

text \<open>
  What a consumer promises: handing over two pieces at once is handing over the first and then
  the second, except that after an exception the rest stays in its input (\<open>ext\<close>).
\<close>

locale incremental =
  fixes feed :: "'s \<Rightarrow> 'c list \<Rightarrow> ('e \<times> 's) + 's"
    and ext :: "'c list \<Rightarrow> 's \<Rightarrow> 's"
    and live :: "'s \<Rightarrow> bool"
  assumes feed_append: "live s \<Longrightarrow> feed s (a @ b) =
      (case feed s a of Inl (e, t) \<Rightarrow> Inl (e, ext b t) | Inr t \<Rightarrow> feed t b)"
    and feed_live: "live s \<Longrightarrow> feed s a = Inr t \<Longrightarrow> live t"
    and ext_ext: "ext c (ext b s) = ext (b @ c) s"
begin

lemma feed_settles: "live s \<Longrightarrow> feed s a = Inr t \<Longrightarrow> feed t [] = Inr t"
  using feed_append [of s a "[]"] by simp

lemma feed_list_concat:
  assumes "live s" "feed s [] = Inr s"
  shows "case feed_list feed s cs of
      Inr t \<Rightarrow> feed s (concat cs) = Inr t
    | Inl (e, t) \<Rightarrow> \<exists>rest. feed s (concat cs) = Inl (e, ext rest t)"
  using assms
proof (induction cs arbitrary: s)
  case Nil
  then show ?case by simp
next
  case (Cons c cs)
  have whole: "feed s (concat (c # cs)) = (case feed s c of
      Inl (e, t) \<Rightarrow> Inl (e, ext (concat cs) t) | Inr t \<Rightarrow> feed t (concat cs))"
    using feed_append [of s c "concat cs"] Cons.prems by simp
  show ?case
  proof (cases "feed s c")
    case (Inl et)
    obtain e t where "et = (e, t)" by (cases et)
    with Inl whole show ?thesis by auto
  next
    case (Inr t)
    then have "live t" "feed t [] = Inr t"
      using Cons.prems feed_live feed_settles by blast+
    with Cons.IH have "case feed_list feed t cs of
        Inr t' \<Rightarrow> feed t (concat cs) = Inr t'
      | Inl (e, t') \<Rightarrow> \<exists>rest. feed t (concat cs) = Inl (e, ext rest t')" by blast
    with Inr whole show ?thesis by (auto split: sum.splits)
  qed
qed

lemma feed_list_Inr:
  assumes "live s" "feed s [] = Inr s" "feed s (concat cs) = Inr t"
  shows "feed_list feed s cs = Inr t"
  using feed_list_concat [OF assms(1,2), of cs] assms(3) by (auto split: sum.splits prod.splits)

end

lemma feed_extend: "feed cd p data = parse cd (more_input data p)"
  by (cases "data = []") (simp_all add: feed_def flip: more_input_def)

lemma feed_after: "\<not> p_eof p \<Longrightarrow> feed cd p (a @ b) =
    (case feed cd p a of Inl (e, q) \<Rightarrow> Inl (e, more_input b q) | Inr q \<Rightarrow> feed cd q b)"
  using parse_resume(1) [of "more_input a p" cd b]
  by (cases "parse cd (more_input a p)") (auto simp: feed_extend)

interpretation rp: incremental "feed cd" more_input "\<lambda>p. \<not> p_eof p" for cd
proof (unfold_locales, goal_cases)
  case (1 s a b)
  then show ?case by (rule feed_after)
next
  case (2 s a t)
  then show ?case using parse_resume(2) [of "more_input a s" cd t] by (simp add: feed_extend)
next
  case (3 c b s)
  show ?case by simp
qed

lemma feed_new_Nil: "feed cd new_parser [] = Inr new_parser"
  by (simp add: feed_def parse_def when_state_def parse_status_line_def new_parser_def)

section \<open>Properties\<close>

text \<open>
  What a caller can tell apart: the state after a return, and after an exception the exception
  with the state, up to the bytes that were not looked at any more.
\<close>

fun observe :: "outcome \<Rightarrow> outcome" where
  "observe (Inr q) = Inr q"
| "observe (Inl (e, q)) = Inl (e, q\<lparr>p_buf := []\<rparr>)"

lemma observe_extend: "observe (Inl (e, more_input b q)) = observe (Inl (e, q))"
  by (simp add: more_input_def)

text \<open>
  C2: however the bytes of a response are split into chunks, at any offsets and with empty
  chunks, feeding them one by one gives the state, or the exception, of feeding them at once.
\<close>

theorem any_fragmentation:
  "observe (feed_list (feed cd) new_parser chunks) = observe (feed cd new_parser (concat chunks))"
proof -
  have "\<not> p_eof new_parser" by (simp add: new_parser_def)
  from rp.feed_list_concat [OF this feed_new_Nil, of cd chunks] show ?thesis
    by (auto simp: observe_extend simp del: observe.simps(2) split: sum.splits prod.splits)
qed

end
