(* ===== verification/Http_Request.thy ===== *)
theory Http_Request
  imports Py_Text
begin

text \<open>
  \<open>build_request\<close> of \<open>fizzpy/_http.py\<close>. Its arguments are arbitrary Python strings, so here
  a string is a list of code points, each a Latin-1 character or a code point beyond it, and
  the encoding step at the end can fail. Lowercasing a name with code points beyond Latin-1
  needs the Unicode database: that is the parameter \<open>other\<close>, and no property depends on it.
\<close>

section \<open>Strings and their Latin-1 encoding\<close>

text \<open>A code point: \<open>Latin c\<close> is below 256, \<open>Beyond n\<close> is the code point \<open>256 + n\<close>.\<close>

datatype uchar = Latin char | Beyond nat

type_synonym ustr = "uchar list"

abbreviation lit :: "latin \<Rightarrow> ustr" where
  "lit \<equiv> map Latin"

fun encode_latin1 :: "ustr \<Rightarrow> bytes option" where
  "encode_latin1 [] = Some []"
| "encode_latin1 (Latin c # s) = map_option ((#) c) (encode_latin1 s)"
| "encode_latin1 (Beyond n # s) = None"

definition ustr_lower :: "(ustr \<Rightarrow> ustr) \<Rightarrow> ustr \<Rightarrow> ustr" where
  "ustr_lower other s =
     (case encode_latin1 s of Some t \<Rightarrow> lit (lower t) | None \<Rightarrow> other s)"

lemma encode_latin1_lit [simp]: "encode_latin1 (lit s) = Some s"
  by (induction s) auto

lemma encode_latin1_SomeD: "encode_latin1 s = Some t \<Longrightarrow> s = lit t"
  by (induction s arbitrary: t rule: encode_latin1.induct) auto

lemma encode_latin1_None_iff: "encode_latin1 s = None \<longleftrightarrow> (\<exists>n. Beyond n \<in> set s)"
  by (induction s rule: encode_latin1.induct) auto

lemma lit_inj [simp]: "lit s = lit t \<longleftrightarrow> s = t"
  by (metis encode_latin1_lit option.inject)

lemma ustr_lower_lit [simp]: "ustr_lower other (lit s) = lit (lower s)"
  by (simp add: ustr_lower_def)

section \<open>Building a request\<close>

datatype request_error = UnicodeEncodeError

text \<open>The defaults that fill the gaps the caller left: \<open>Host\<close>, then \<open>Content-Length\<close>.\<close>

definition default_headers ::
    "(ustr \<Rightarrow> ustr) \<Rightarrow> ustr \<Rightarrow> (ustr, ustr) dict \<Rightarrow> bytes option \<Rightarrow> (ustr \<times> ustr) list" where
  "default_headers other host headers body =
     (let supplied = map (\<lambda>(k, v). ustr_lower other k) headers in
      (if lit ''host'' \<notin> set supplied then [(lit ''Host'', host)] else [])
      @ (case body of
           None \<Rightarrow> []
         | Some b \<Rightarrow> if lit ''content-length'' \<notin> set supplied
                     then [(lit ''Content-Length'', lit (str_of_nat (length b)))] else []))"

definition build_request ::
    "(ustr \<Rightarrow> ustr) \<Rightarrow> ustr \<Rightarrow> ustr \<Rightarrow> ustr \<Rightarrow> (ustr, ustr) dict option \<Rightarrow> bytes option
      \<Rightarrow> request_error + bytes" where
  "build_request other method path host headers body =
     (let headers = (case headers of None \<Rightarrow> [] | Some h \<Rightarrow> h);
          lines = (method @ lit '' '' @ path @ lit '' HTTP/1.1'')
                    # map (\<lambda>(name, v). name @ lit '': '' @ v)
                          (default_headers other host headers body @ headers)
      in case encode_latin1 (join_with (lit crlf) lines @ lit (crlf @ crlf)) of
           None \<Rightarrow> Inl UnicodeEncodeError
         | Some head \<Rightarrow> Inr (case body of
                               Some b \<Rightarrow> if b \<noteq> [] then head @ b else head
                             | None \<Rightarrow> head))"

section \<open>Reading a request\<close>

text \<open>
  What a server makes of the bytes: the request line, the header lines split at their first
  colon, and the rest. This is the specification that the builder is checked against.
\<close>

definition read_header_line :: "bytes \<Rightarrow> bytes \<times> bytes" where
  "read_header_line l = (takeWhile (\<lambda>c. c \<noteq> CHR '':'') l, drop 2 (dropWhile (\<lambda>c. c \<noteq> CHR '':'') l))"

definition read_request :: "bytes \<Rightarrow> (bytes \<times> (bytes \<times> bytes) list \<times> bytes) option" where
  "read_request w =
     (case find_sub (crlf @ crlf) w of
        None \<Rightarrow> None
      | Some i \<Rightarrow> (case py_split crlf (take i w) of
          [] \<Rightarrow> None
        | l # ls \<Rightarrow> Some (l, map read_header_line ls, drop (i + 4) w)))"

lemma read_header_line_render:
  "CHR '':'' \<notin> set n \<Longrightarrow> read_header_line (n @ '': '' @ v) = (n, v)"
  by (simp add: read_header_line_def takeWhile_until dropWhile_until)

section \<open>The builder on Latin-1 arguments\<close>

definition latin_dict :: "(latin \<times> latin) list \<Rightarrow> (ustr \<times> ustr) list" where
  "latin_dict hs = map (\<lambda>(n, v). (lit n, lit v)) hs"

text \<open>The header lines the request carries, as a function of what the caller supplied.\<close>

definition sent_defaults :: "latin \<Rightarrow> (latin \<times> latin) list \<Rightarrow> bytes option \<Rightarrow> (latin \<times> latin) list" where
  "sent_defaults host hs body =
     (if \<exists>(n, v) \<in> set hs. lower n = ''host'' then [] else [(''Host'', host)])
     @ (case body of
          None \<Rightarrow> []
        | Some b \<Rightarrow> if \<exists>(n, v) \<in> set hs. lower n = ''content-length'' then []
                    else [(''Content-Length'', str_of_nat (length b))])"

definition sent_headers :: "latin \<Rightarrow> (latin \<times> latin) list \<Rightarrow> bytes option \<Rightarrow> (latin \<times> latin) list" where
  "sent_headers host hs body = sent_defaults host hs body @ hs"

definition request_line :: "latin \<Rightarrow> latin \<Rightarrow> latin" where
  "request_line method path = method @ '' '' @ path @ '' HTTP/1.1''"

definition header_line :: "latin \<times> latin \<Rightarrow> latin" where
  "header_line = (\<lambda>(n, v). n @ '': '' @ v)"

lemma supplied_latin:
  "lit k \<in> set (map (\<lambda>(n, v). ustr_lower other n) (latin_dict hs)) \<longleftrightarrow> (\<exists>(n, v) \<in> set hs. lower n = k)"
  by (force simp: latin_dict_def image_iff)

lemma default_headers_latin:
  "default_headers other (lit host) (latin_dict hs) body @ latin_dict hs =
     latin_dict (sent_headers host hs body)"
  unfolding default_headers_def sent_headers_def sent_defaults_def Let_def supplied_latin
  by (simp add: latin_dict_def split: option.split)

lemma build_request_latin:
  "build_request other (lit method) (lit path) (lit host) (Some (latin_dict hs)) body =
     Inr (join_with crlf (request_line method path # map header_line (sent_headers host hs body))
          @ crlf @ crlf @ (case body of None \<Rightarrow> [] | Some b \<Rightarrow> b))"
proof -
  let ?ls = "request_line method path # map header_line (sent_headers host hs body)"
  have "(lit method @ lit '' '' @ lit path @ lit '' HTTP/1.1'')
      # map (\<lambda>(name, v). name @ lit '': '' @ v) (latin_dict (sent_headers host hs body)) =
      map lit ?ls"
    by (simp add: request_line_def header_line_def latin_dict_def split_beta)
  moreover have "join_with (lit crlf) (map lit ?ls) @ lit (crlf @ crlf) = lit (join_with crlf ?ls @ crlf @ crlf)"
    by (simp only: map_join_with map_append append_assoc)
  ultimately show ?thesis
    unfolding build_request_def Let_def option.case default_headers_latin
    by (simp only: encode_latin1_lit option.case) (simp split: option.split)
qed

section \<open>Properties\<close>

definition header_ok :: "latin \<times> latin \<Rightarrow> bool" where
  "header_ok = (\<lambda>(n, v). CR \<notin> set n \<and> CHR '':'' \<notin> set n \<and> CR \<notin> set v)"

lemma line_ok_header_line: "header_ok nv \<Longrightarrow> line_ok (header_line nv)"
  by (cases nv) (auto simp: header_ok_def header_line_def line_ok_def)

lemma header_ok_sent_headers:
  assumes "CR \<notin> set host" "\<forall>nv \<in> set hs. header_ok nv"
  shows "\<forall>nv \<in> set (sent_headers host hs body). header_ok nv"
  using assms hd_render_nat_not_sign render_nat_notin [of 10 CR]
  by (auto simp: sent_headers_def sent_defaults_def header_ok_def split: option.splits if_splits)

text \<open>
  C27: for arguments in Latin-1 with no CR in any part and no colon in a header name, the bytes
  read back as the request line, the header lines (a default \<open>Host\<close> and \<open>Content-Length\<close>
  where the caller gave none in any casing, then the caller's, in order and in their casing)
  and the body.
\<close>

theorem build_request_reads_back:
  assumes "CR \<notin> set method" "CR \<notin> set path" "CR \<notin> set host" "\<forall>nv \<in> set hs. header_ok nv"
  shows "\<exists>wire. build_request other (lit method) (lit path) (lit host) (Some (latin_dict hs)) body = Inr wire
    \<and> read_request wire = Some (request_line method path, sent_headers host hs body,
        case body of None \<Rightarrow> [] | Some b \<Rightarrow> b)"
proof -
  let ?hs = "sent_headers host hs body"
  let ?ls = "request_line method path # map header_line ?hs"
  have hs: "\<forall>nv \<in> set ?hs. header_ok nv"
    using assms by (intro header_ok_sent_headers)
  have ok: "list_all line_ok ?ls"
    using assms hs line_ok_header_line by (auto simp: list_all_iff request_line_def line_ok_def)
  have "read_header_line (header_line nv) = nv" if "header_ok nv" for nv
    using that read_header_line_render by (auto simp: header_line_def header_ok_def simp del: append.simps)
  with hs have "map (read_header_line \<circ> header_line) ?hs = ?hs"
    by (intro map_idI) auto
  then have "read_request (join_with crlf ?ls @ crlf @ crlf @ b) =
      Some (request_line method path, ?hs, b)" for b
    using find_sub_blank_line [OF _ ok, of b] py_split_lines [OF _ ok]
    by (simp add: read_request_def)
  then show ?thesis
    unfolding build_request_latin by blast
qed

lemma build_request_reads_back_witness:
  "\<exists>wire. build_request (\<lambda>s. s) (lit ''POST'') (lit ''/api'') (lit ''h'')
      (Some (latin_dict [(''X-A'', ''b'')])) (Some ''hi'') = Inr wire
    \<and> read_request wire = Some (''POST /api HTTP/1.1'',
        [(''Host'', ''h''), (''Content-Length'', ''2''), (''X-A'', ''b'')], ''hi'')"
proof -
  have "sent_headers ''h'' [(''X-A'', ''b'')] (Some ''hi'') =
      [(''Host'', ''h''), (''Content-Length'', ''2''), (''X-A'', ''b'')]"
    by code_simp
  then show ?thesis
    using build_request_reads_back [of "''POST''" "''/api''" "''h''" "[(''X-A'', ''b'')]" "\<lambda>s. s" "Some ''hi''"]
    by (simp add: header_ok_def request_line_def)
qed

text \<open>
  Nothing checks header values for line breaks: a value that contains CRLF and a second
  header gives byte for byte the request of a caller who passed that second header, so a value
  can inject a header of its choice.
\<close>

theorem header_value_injects_header:
  assumes "lower n' \<noteq> ''host''" "lower n' \<noteq> ''content-length''"
  shows "build_request other (lit method) (lit path) (lit host)
      (Some (latin_dict (hs @ [(n, v @ crlf @ n' @ '': '' @ v')] @ hs'))) body =
    build_request other (lit method) (lit path) (lit host)
      (Some (latin_dict (hs @ [(n, v), (n', v')] @ hs'))) body"
proof -
  let ?one = "hs @ [(n, v @ crlf @ n' @ '': '' @ v')] @ hs'"
  let ?two = "hs @ [(n, v), (n', v')] @ hs'"
  define pre where "pre = sent_defaults host ?two body"
  have "sent_defaults host ?one body = pre"
    using assms by (simp add: pre_def sent_defaults_def split: option.split)
  then have pre: "sent_headers host ?one body = pre @ ?one" "sent_headers host ?two body = pre @ ?two"
    by (simp_all add: sent_headers_def pre_def)
  have "join_with crlf (request_line method path # map header_line (pre @ ?one)) =
      join_with crlf (request_line method path # map header_line (pre @ ?two))"
    using join_with_pair [of crlf "request_line method path # map header_line (pre @ hs)"
        "header_line (n, v)" "header_line (n', v')" "map header_line hs'"]
    by (simp add: header_line_def)
  then show ?thesis
    unfolding build_request_latin pre by simp
qed

lemma header_value_injects_header_witness:
  "lower ''X-Admin'' \<noteq> ''host'' \<and> build_request (\<lambda>s. s) (lit ''GET'') (lit ''/'') (lit ''h'')
      (Some (latin_dict [(''A'', ''b'' @ crlf @ ''X-Admin: 1'')])) None =
    build_request (\<lambda>s. s) (lit ''GET'') (lit ''/'') (lit ''h'')
      (Some (latin_dict [(''A'', ''b''), (''X-Admin'', ''1'')])) None"
proof -
  have "lower ''X-Admin'' = ''x-admin''" by code_simp
  then show ?thesis
    using header_value_injects_header [of "''X-Admin''" "\<lambda>s. s" "''GET''" "''/''" "''h''" "[]" "''A''" "''b''" "''1''" "[]" None]
    by simp
qed

end
