(* ===== verification/Parser_Framing.thy ===== *)
theory Parser_Framing
  imports Parser_Increments Http_Request
begin

text \<open>
  The parser against the writer's side of RFC 7230: a response is rendered from its status,
  header lines and body in each of the three framings, and the parser gives exactly that
  response back, however the bytes are cut, leaving what follows the response in its buffer.
\<close>

section \<open>Rendering a response head\<close>

definition three_digits :: "nat \<Rightarrow> bytes" where
  "three_digits code = map digit_char [code div 100, code div 10 mod 10, code mod 10]"

definition version_text :: "nat \<Rightarrow> nat \<Rightarrow> bytes" where
  "version_text major minor = ''HTTP/'' @ [digit_char major, CHR ''.'', digit_char minor]"

record head =
  h_major :: nat
  h_minor :: nat
  h_code :: nat
  h_reason :: latin
  h_lines :: "(latin \<times> latin) list"

definition status_line :: "head \<Rightarrow> bytes" where
  "status_line w =
     version_text (h_major w) (h_minor w) @ '' '' @ three_digits (h_code w) @ '' '' @ h_reason w"

definition render_head :: "head \<Rightarrow> bytes" where
  "render_head w = join_with crlf (status_line w # map header_line (h_lines w)) @ crlf @ crlf"

text \<open>A field line that is read as it was written.\<close>

definition field_ok :: "latin \<times> latin \<Rightarrow> bool" where
  "field_ok = (\<lambda>(n, v). n \<noteq> [] \<and> CR \<notin> set n \<and> CHR '':'' \<notin> set n \<and> CR \<notin> set v
     \<and> stripped is_str_space n \<and> stripped is_str_space v)"

definition head_ok :: "head \<Rightarrow> bool" where
  "head_ok w \<longleftrightarrow> h_major w < 10 \<and> h_minor w < 10 \<and> h_code w < 1000
     \<and> CR \<notin> set (h_reason w) \<and> LF \<notin> set (h_reason w) \<and> list_all field_ok (h_lines w)"

section \<open>Reading the status line\<close>

lemma is_digit_digit_char [simp]: "d < 10 \<Longrightarrow> is_digit (digit_char d)"
  by (simp add: is_digit_def of_char_digit_char)

lemma of_char_digit_char_int: "d < 10 \<Longrightarrow> (of_char (digit_char d) :: int) = int d + 48"
proof -
  assume "d < 10"
  have "(of_char (digit_char d) :: int) = int (of_char (digit_char d))"
    by (rule of_nat_of_char [symmetric])
  with \<open>d < 10\<close> show ?thesis by (simp only: of_char_digit_char) simp
qed

lemma decimal_value_three_digits:
  assumes "code < 1000"
  shows "decimal_value (three_digits code) = int code"
proof -
  have horner: "int n = (10 * int k + int b) * 10 + int a" if "m * 10 + a = n" "k * 10 + b = m"
    for n m k a b :: nat
    using that by auto
  have "int code = (10 * int (code div 10 div 10) + int (code div 10 mod 10)) * 10 + int (code mod 10)"
    by (rule horner) (rule div_mult_mod_eq)+
  then have "int code = (10 * int (code div 100) + int (code div 10 mod 10)) * 10 + int (code mod 10)"
    by (simp only: div_mult2_eq [symmetric]) simp
  moreover have "code div 100 < 10" using assms by simp
  ultimately show ?thesis
    by (simp add: decimal_value_def three_digits_def of_char_digit_char_int)
qed

lemma CR_digit_char: "d < 10 \<Longrightarrow> digit_char d \<noteq> CR"
  by (rule digit_char_neq) simp_all

lemma takeWhile_all: "c \<notin> set xs \<Longrightarrow> takeWhile (\<lambda>x. x \<noteq> c) xs = xs"
  by (induction xs) auto

lemma match_status_line_shape:
  assumes "is_digit a" "is_digit b" "is_digit x" "is_digit y" "is_digit z" "LF \<notin> set r"
  shows "match_status_line (''HTTP/'' @ [a, CHR ''.'', b] @ '' '' @ [x, y, z] @ '' '' @ r) =
    Some (''HTTP/'' @ [a, CHR ''.'', b], [x, y, z], Some r)"
proof -
  have "dropWhile (\<lambda>c. c \<noteq> LF) r = []"
    using assms(6) by (auto simp: dropWhile_eq_Nil_conv)
  then show ?thesis
    using assms by (simp add: match_status_line_def Let_def at_dollar_def takeWhile_all)
qed

lemma match_status_line_render:
  assumes "head_ok w"
  shows "match_status_line (status_line w) =
    Some (version_text (h_major w) (h_minor w), three_digits (h_code w), Some (h_reason w))"
  unfolding status_line_def version_text_def three_digits_def append_assoc list.map
  by (rule match_status_line_shape) (use assms in \<open>auto simp: head_ok_def\<close>)

lemma line_ok_status_line:
  assumes "head_ok w"
  shows "line_ok (status_line w)"
proof -
  have "h_major w < 10" "h_minor w < 10" "h_code w div 100 < 10"
    using assms by (auto simp: head_ok_def)
  then have "digit_char (h_major w) \<noteq> CR" "digit_char (h_minor w) \<noteq> CR"
    "digit_char (h_code w div 100) \<noteq> CR" "digit_char (h_code w div 10 mod 10) \<noteq> CR"
    "digit_char (h_code w mod 10) \<noteq> CR"
    by (simp_all add: CR_digit_char)
  then show ?thesis
    using assms by (auto simp: head_ok_def line_ok_def status_line_def version_text_def three_digits_def)
qed

section \<open>Reading the field lines\<close>

lemma field_ok_line_ok: "field_ok nv \<Longrightarrow> line_ok (header_line nv)"
  by (cases nv) (auto simp: field_ok_def header_line_def line_ok_def)

lemma read_field_line:
  assumes "field_ok (n, v)"
  shows "parse_header_lines h (header_line (n, v) # raws) = parse_header_lines (add_header h n v) raws"
proof -
  have n: "n \<noteq> []" "CHR '':'' \<notin> set n" "stripped is_str_space n" "stripped is_str_space v"
    using assms by (auto simp: field_ok_def)
  have "hd n \<notin> {CHR '' '', CHR 0x09}"
    using n by (auto simp: stripped_def is_str_space_def is_bytes_space_def)
  moreover have "find_sub '':'' (n @ '': '' @ v) = Some (length n)"
    using find_sub_skip_hd [of "CHR '':''" n "[]" "'' '' @ v"] n by simp
  moreover have "str_strip ('' '' @ v) = v"
    using n by (simp add: strip_by_skip is_str_space_def is_bytes_space_def strip_by_stripped)
  ultimately show ?thesis
    using n by (simp add: header_line_def strip_by_stripped hd_append)
qed

lemma read_field_lines:
  "list_all field_ok hs \<Longrightarrow>
    parse_header_lines h (map header_line hs) = Inr (foldl (\<lambda>h (n, v). add_header h n v) h hs)"
proof (induction hs arbitrary: h)
  case Nil
  then show ?case by simp
next
  case (Cons nv hs)
  then show ?case by (cases nv) (simp add: read_field_line del: parse_header_lines.simps(2))
qed

section \<open>From the first byte to the body\<close>

text \<open>The parser when the head has been read and the framing is still to be resolved.\<close>

definition after_head :: "head \<Rightarrow> bytes \<Rightarrow> parser" where
  "after_head w rest = new_parser\<lparr>p_buf := rest, p_state := HEADERS,
     p_http_version := version_text (h_major w) (h_minor w), p_status_code := int (h_code w),
     p_reason := h_reason w, p_headers := headers_init (h_lines w)\<rparr>"

lemma parse_status_line_head:
  assumes "head_ok w"
  shows "parse_status_line (new_parser\<lparr>p_buf := status_line w @ crlf @ rest\<rparr>) =
    Inr ((after_head w rest)\<lparr>p_headers := []\<rparr>)"
proof -
  have "CR \<notin> set (status_line w)" "h_code w < 1000"
    using line_ok_status_line [OF assms] assms by (auto simp: line_ok_def head_ok_def)
  then show ?thesis
    by (simp add: parse_status_line_def find_sub_crlf match_status_line_render [OF assms]
        decimal_value_three_digits after_head_def new_parser_def)
qed

text \<open>The rest of the head, for a head without field lines and for one with them.\<close>

definition field_block :: "head \<Rightarrow> bytes" where
  "field_block w =
     (if h_lines w = [] then crlf else join_with crlf (map header_line (h_lines w)) @ crlf @ crlf)"

lemma render_head_block: "render_head w = status_line w @ crlf @ field_block w"
  by (simp add: render_head_def field_block_def join_with_Cons)

lemma parse_headers_head:
  assumes "head_ok w"
  shows "parse_headers cd ((after_head w (field_block w @ rest))\<lparr>p_headers := []\<rparr>) =
    and_then (resolve_framing (after_head w rest)) (\<lambda>p. parse_body cd (p\<lparr>p_state := BODY\<rparr>))"
proof (cases "h_lines w = []")
  case True
  then show ?thesis
    by (simp add: field_block_def parse_headers_def after_head_def finish_headers_def headers_init_def
        py_split_single new_parser_def)
next
  case False
  let ?ls = "map header_line (h_lines w)"
  have fields: "list_all field_ok (h_lines w)" using assms(1) by (simp add: head_ok_def)
  then have ok: "list_all line_ok ?ls" by (auto simp: list_all_iff field_ok_line_ok)
  have block: "field_block w = join_with crlf ?ls @ crlf @ crlf" using False by (simp add: field_block_def)
  have "find_sub (crlf @ crlf) (field_block w @ rest) = Some (length (join_with crlf ?ls))"
    using find_sub_blank_line [OF _ ok, of rest] False by (simp add: block)
  moreover have "\<not> prefix crlf (field_block w @ rest)"
    using not_blank_first [OF _ ok] False by (simp add: block)
  moreover have "py_split crlf (join_with crlf ?ls) = ?ls"
    using py_split_lines [OF _ ok] False by simp
  ultimately show ?thesis
    using read_field_lines [OF fields, of "[]"]
    by (simp add: parse_headers_def after_head_def finish_headers_def headers_init_def new_parser_def block)
qed

lemma feed_head:
  assumes "head_ok w" "resolve_framing (after_head w rest) = Inr p"
  shows "feed cd new_parser (render_head w @ rest) =
    and_then (parse_body cd (p\<lparr>p_state := BODY\<rparr>)) (when_state BODY (parse_body cd))"
proof -
  have "feed cd new_parser (render_head w @ rest) =
      parse cd (new_parser\<lparr>p_buf := status_line w @ crlf @ field_block w @ rest\<rparr>)"
    by (simp add: feed_extend more_input_def render_head_block new_parser_def)
  moreover have "p_state (new_parser\<lparr>p_buf := b\<rparr>) = STATUS" "p_state ((after_head w b)\<lparr>p_headers := h\<rparr>) = HEADERS" for b h
    by (simp_all add: new_parser_def after_head_def)
  ultimately show ?thesis
    using assms(2) parse_headers_head [OF assms(1), of cd rest]
      parse_status_line_head [OF assms(1), of "field_block w @ rest"]
    by (simp add: parse_def when_state_def [abs_def])
qed

lemma feed_head_done:
  assumes "head_ok w" "resolve_framing (after_head w rest) = Inr p"
    and "parse_body cd (p\<lparr>p_state := BODY\<rparr>) = Inr q" "p_state q = DONE"
    and "concat chunks = render_head w @ rest"
  shows "feed_list (feed cd) new_parser chunks = Inr q"
proof (rule rp.feed_list_Inr [OF _ feed_new_Nil])
  show "\<not> p_eof new_parser" by (simp add: new_parser_def)
  show "feed cd new_parser (concat chunks) = Inr q"
    using assms by (simp add: feed_head when_state_def)
qed

section \<open>The three framings\<close>

text \<open>The response a caller is given, and the parser that holds it.\<close>

definition parsed_response :: "head \<Rightarrow> bytes \<Rightarrow> response" where
  "parsed_response w body = \<lparr>status_code = int (h_code w), reason = h_reason w,
     http_version = version_text (h_major w) (h_minor w), resp_headers = headers_init (h_lines w),
     content = body, resp_url = [], resp_tls = None\<rparr>"

text \<open>Whether a parser is finished with this response, and what is left of its input.\<close>

definition delivers :: "parser \<Rightarrow> head \<Rightarrow> bytes \<Rightarrow> bytes \<Rightarrow> bool" where
  "delivers q w body left \<longleftrightarrow>
     is_complete q \<and> p_response q = Some (parsed_response w body) \<and> p_buf q = left"

lemma finalize_delivers:
  assumes "decompress cd (headers_init (h_lines w)) body = Inr out"
    and "p_headers p = headers_init (h_lines w)" "p_status_code p = int (h_code w)"
    "p_reason p = h_reason w" "p_http_version p = version_text (h_major w) (h_minor w)"
    "p_body p = body" "p_buf p = left"
  shows "\<exists>q. finalize cd p = Inr q \<and> delivers q w out left \<and> p_state q = DONE
    \<and> p_read_until_close q = p_read_until_close p"
  using assms by (simp add: finalize_def delivers_def parsed_response_def is_complete_def)

subsection \<open>Content-Length\<close>

definition says_chunked :: "head \<Rightarrow> bool" where
  "says_chunked w \<longleftrightarrow>
     (case get_header (headers_init (h_lines w)) ''Transfer-Encoding'' of
        None \<Rightarrow> False
      | Some te \<Rightarrow> contains ''chunked'' (lower te))"

definition bodiless :: "head \<Rightarrow> bool" where
  "bodiless w \<longleftrightarrow> h_code w < 200 \<or> h_code w \<in> {204, 304}"

lemma contains_Nil: "contains sub [] \<longleftrightarrow> sub = []"
  by (simp add: contains_def)

lemma resolve_framing_after_head:
  "resolve_framing (after_head w rest) =
     (let p = after_head w rest in
      if says_chunked w then Inr (p\<lparr>p_chunked := True\<rparr>)
      else if bodiless w then Inr (p\<lparr>p_content_length := Some 0\<rparr>)
      else case get_header (headers_init (h_lines w)) ''Content-Length'' of
          Some cl \<Rightarrow> (case py_int 10 is_str_space (str_strip cl) of
             Some n \<Rightarrow> Inr (p\<lparr>p_content_length := Some n\<rparr>)
           | None \<Rightarrow> Inl (HttpParseError (InvalidContentLength cl), p))
        | None \<Rightarrow> Inr (p\<lparr>p_read_until_close := True\<rparr>))"
proof -
  have "(case get_header (headers_init (h_lines w)) ''Transfer-Encoding'' of None \<Rightarrow> False
      | Some t \<Rightarrow> t \<noteq> [] \<and> contains ''chunked'' (lower t)) = says_chunked w"
    by (auto simp: says_chunked_def contains_Nil split: option.split)
  moreover have "int (h_code w) < 200 \<or> int (h_code w) \<in> {204, 304} \<longleftrightarrow> bodiless w"
    by (auto simp: bodiless_def)
  ultimately show ?thesis
    by (simp add: resolve_framing_def after_head_def Let_def)
qed

lemma fixed_length_body:
  assumes "p_body p = []" "p_buf p = body @ extra"
  shows "parse_fixed_length cd (int (length body)) p = finalize cd (p\<lparr>p_body := body, p_buf := extra\<rparr>)"
proof -
  have "take_missing (int (length body)) p = p\<lparr>p_body := body, p_buf := extra\<rparr>"
    using assms by (simp add: take_missing_def)
  then show ?thesis by (simp add: parse_fixed_length_alt)
qed

lemma content_length_value:
  assumes "values_named (h_lines w) ''Content-Length'' = [str_of_nat n]" "n < 10 ^ int_max_str_digits"
  shows "get_header (headers_init (h_lines w)) ''Content-Length'' = Some (str_of_nat n)"
    "py_int 10 is_str_space (str_strip (str_of_nat n)) = Some (int n)"
proof -
  show "get_header (headers_init (h_lines w)) ''Content-Length'' = Some (str_of_nat n)"
    unfolding headers_init_def by (rule hdr.lookup_single [OF assms(1)])
  show "py_int 10 is_str_space (str_strip (str_of_nat n)) = Some (int n)"
    using py_int_decimal [OF assms(2)] stripped_render_nat(1) [of 10 n] by (simp add: strip_by_stripped)
qed

subsection \<open>Chunked\<close>

text \<open>A chunk with its extension, and the body: the chunks, the last chunk, trailer lines.\<close>

definition render_chunk :: "bytes \<times> bytes \<Rightarrow> bytes" where
  "render_chunk = (\<lambda>(ext, data). hex_of_nat (length data) @ ext @ crlf @ data @ crlf)"

definition ext_ok :: "bytes \<Rightarrow> bool" where
  "ext_ok ext \<longleftrightarrow> CR \<notin> set ext \<and> (ext = [] \<or> hd ext = CHR '';'')"

definition chunk_ok :: "bytes \<times> bytes \<Rightarrow> bool" where
  "chunk_ok = (\<lambda>(ext, data). ext_ok ext \<and> data \<noteq> [])"

lemma size_token_hex:
  assumes "ext_ok ext"
  shows "takeWhile (\<lambda>c. c \<noteq> CHR '';'') (hex_of_nat n @ ext) = hex_of_nat n"
    "CR \<notin> set (hex_of_nat n @ ext)"
proof -
  have h: "CHR '';'' \<notin> set (hex_of_nat n)" "CR \<notin> set (hex_of_nat n)"
    using render_nat_notin [of 16 _ n] by simp_all
  then show "CR \<notin> set (hex_of_nat n @ ext)" using assms by (simp add: ext_ok_def)
  show "takeWhile (\<lambda>c. c \<noteq> CHR '';'') (hex_of_nat n @ ext) = hex_of_nat n"
    using assms h(1) by (cases ext) (auto simp: ext_ok_def takeWhile_until takeWhile_all)
qed

lemma chunk_size_block_render:
  assumes "ext_ok ext" "p_awaiting_chunk_size p" "p_buf p = hex_of_nat n @ ext @ crlf @ rest"
  shows "chunk_size_block p = Go (if n = 0 then p\<lparr>p_buf := rest, p_in_trailers := True\<rparr>
    else p\<lparr>p_buf := rest, p_chunk_remaining := int n, p_awaiting_chunk_size := False\<rparr>)"
proof -
  have "find_sub crlf (p_buf p) = Some (length (hex_of_nat n @ ext))"
    using find_sub_crlf [OF size_token_hex(2) [OF assms(1), of n], of rest] assms(3) by simp
  moreover have "bytes_strip (takeWhile (\<lambda>c. c \<noteq> CHR '';'') (hex_of_nat n @ ext)) = hex_of_nat n"
    using stripped_render_nat(2) [of 16 n] by (simp add: size_token_hex(1) [OF assms(1)] strip_by_stripped)
  ultimately show ?thesis
    using assms(2,3) py_int_hex [of n] by (simp add: chunk_size_block_def Let_def)
qed

text \<open>One turn of the loop reads one chunk.\<close>

lemma chunk_turn_render:
  assumes "chunk_ok (ext, data)" "p_awaiting_chunk_size p" "\<not> p_in_trailers p"
    and "p_buf p = render_chunk (ext, data) @ rest"
  shows "chunk_turn cd p = Go (p\<lparr>p_body := p_body p @ data, p_buf := rest, p_chunk_remaining := 0\<rparr>)"
proof -
  let ?p = "p\<lparr>p_buf := data @ crlf @ rest, p_chunk_remaining := int (length data),
    p_awaiting_chunk_size := False\<rparr>"
  have "ext_ok ext" "data \<noteq> []" using assms(1) by (simp_all add: chunk_ok_def)
  then have "chunk_size_block p = Go ?p"
    using chunk_size_block_render [of ext p "length data" "data @ crlf @ rest"] assms(2,4)
    by (simp add: render_chunk_def)
  moreover have "chunk_data_block ?p = Go (?p\<lparr>p_body := p_body p @ data, p_buf := crlf @ rest,
      p_chunk_remaining := 0\<rparr>)"
    using \<open>data \<noteq> []\<close> by (simp add: chunk_data_block_def)
  moreover have "chunk_end_block (?p\<lparr>p_body := p_body p @ data, p_buf := crlf @ rest, p_chunk_remaining := 0\<rparr>) =
      Go (p\<lparr>p_body := p_body p @ data, p_buf := rest, p_chunk_remaining := 0\<rparr>)"
    using assms(2) by (simp add: chunk_end_block_def)
  ultimately show ?thesis
    using assms(3) by (simp add: chunk_turn_def)
qed

definition render_last :: "bytes \<Rightarrow> bytes list \<Rightarrow> bytes" where
  "render_last last_ext trailers = ''0'' @ last_ext @ crlf
     @ (if trailers = [] then crlf else join_with crlf trailers @ crlf @ crlf)"

lemma parse_trailers_render:
  assumes "list_all line_ok trailers"
    and "p_buf p = (if trailers = [] then crlf else join_with crlf trailers @ crlf @ crlf) @ extra"
  shows "parse_trailers cd p = finalize cd (p\<lparr>p_buf := extra\<rparr>)"
  using assms find_sub_blank_line [of trailers extra] not_blank_first [of trailers "crlf @ crlf @ extra"]
  by (simp add: parse_trailers_def split: if_splits)

lemma last_chunk_render:
  assumes "ext_ok last_ext" "list_all line_ok trailers" "p_awaiting_chunk_size p" "\<not> p_in_trailers p"
    and "p_buf p = render_last last_ext trailers @ extra"
  shows "parse_chunked cd p = finalize cd (p\<lparr>p_in_trailers := True, p_buf := extra\<rparr>)"
proof -
  define t where "t = (if trailers = [] then crlf else join_with crlf trailers @ crlf @ crlf) @ extra"
  let ?p = "p\<lparr>p_buf := t, p_in_trailers := True\<rparr>"
  have zero: "hex_of_nat 0 = ''0''" by code_simp
  have "p_buf p = hex_of_nat 0 @ last_ext @ crlf @ t"
    by (simp only: zero assms(5) render_last_def t_def append_assoc)
  then have "chunk_size_block p = Go ?p"
    using chunk_size_block_render [OF assms(1,3)] by simp
  then have "chunk_turn cd p = Go ?p" using assms(4) by (simp add: chunk_turn_def)
  moreover have "parse_trailers cd ?p = finalize cd (?p\<lparr>p_buf := extra\<rparr>)"
    by (rule parse_trailers_render [OF assms(2)]) (simp add: t_def)
  then have "chunk_turn cd ?p = Stop (finalize cd (p\<lparr>p_in_trailers := True, p_buf := extra\<rparr>))"
    by (simp add: chunk_turn_def)
  ultimately show ?thesis
    by (simp add: parse_chunked.simps [of cd p] parse_chunked.simps [of cd ?p])
qed

lemma parse_chunked_render:
  assumes "list_all chunk_ok chunks" "ext_ok last_ext" "list_all line_ok trailers"
    and "p_awaiting_chunk_size p" "\<not> p_in_trailers p"
    and "p_buf p = concat (map render_chunk chunks) @ render_last last_ext trailers @ extra"
  shows "\<exists>n. parse_chunked cd p = finalize cd (p\<lparr>p_body := p_body p @ concat (map snd chunks),
    p_buf := extra, p_in_trailers := True, p_chunk_remaining := n\<rparr>)"
  using assms
proof (induction chunks arbitrary: p)
  case Nil
  then have "parse_chunked cd p = finalize cd (p\<lparr>p_body := p_body p @ concat (map snd []),
      p_buf := extra, p_in_trailers := True, p_chunk_remaining := p_chunk_remaining p\<rparr>)"
    using last_chunk_render [of last_ext trailers p extra cd] by (cases p) simp
  then show ?case by (rule exI)
next
  case (Cons c chunks)
  obtain ext data where c: "c = (ext, data)" by (cases c)
  let ?rest = "concat (map render_chunk chunks) @ render_last last_ext trailers @ extra"
  let ?p = "p\<lparr>p_body := p_body p @ data, p_buf := ?rest, p_chunk_remaining := 0\<rparr>"
  have "chunk_turn cd p = Go ?p"
    using Cons.prems c by (intro chunk_turn_render) auto
  then have "parse_chunked cd p = parse_chunked cd ?p"
    by (simp add: parse_chunked.simps [of cd p])
  then show ?case
    using Cons.IH [of ?p] Cons.prems c by simp
qed

section \<open>The end of the connection\<close>

lemma feed_head_waits:
  assumes "head_ok w" "resolve_framing (after_head w rest) = Inr p"
    and "parse_body cd (p\<lparr>p_state := BODY\<rparr>) = Inr q" "p_state q = BODY" "parse_body cd q = Inr q"
    and "concat chunks = render_head w @ rest"
  shows "feed_list (feed cd) new_parser chunks = Inr q"
proof (rule rp.feed_list_Inr [OF _ feed_new_Nil])
  show "\<not> p_eof new_parser" by (simp add: new_parser_def)
  show "feed cd new_parser (concat chunks) = Inr q"
    using assms by (simp add: feed_head when_state_def)
qed

lemma feed_eof_body: "p_state p = BODY \<Longrightarrow> feed_eof cd p = parse_body cd (p\<lparr>p_eof := True\<rparr>)"
  by (simp add: feed_eof_def parse_def when_state_def)

text \<open>A body reader that has taken everything and waits, and is then told of the end.\<close>

definition waiting_body :: "head \<Rightarrow> bytes \<Rightarrow> int option \<Rightarrow> parser" where
  "waiting_body w body len = (after_head w [])\<lparr>p_content_length := len, p_state := BODY,
     p_read_until_close := (len = None), p_body := body\<rparr>"

lemma waiting_body_eof:
  assumes "decompress cd (headers_init (h_lines w)) body = Inr out"
    and "\<And>n. len = Some n \<Longrightarrow> int (length body) < n"
  shows "\<exists>q. feed_eof cd (waiting_body w body len) = Inr q \<and> delivers q w out []
    \<and> (used_close_framing q \<longleftrightarrow> len = None)"
proof -
  let ?p = "(waiting_body w body len)\<lparr>p_eof := True\<rparr>"
  have sel: "p_buf ?p = []" "p_body ?p = body" "\<not> p_chunked ?p" "p_content_length ?p = len"
    by (simp_all add: waiting_body_def after_head_def new_parser_def)
  have "take_missing n ?p = ?p" for n
    by (simp add: take_missing_def waiting_body_def after_head_def new_parser_def)
  then have "parse_body cd ?p = finalize cd ?p"
    using sel by (cases len) (simp_all add: parse_body_def parse_fixed_length_alt parse_until_close_def)
  moreover obtain q where "finalize cd ?p = Inr q" "delivers q w out []"
    "p_read_until_close q = p_read_until_close ?p"
    using finalize_delivers [OF assms(1), of ?p "[]"]
    by (auto simp: waiting_body_def after_head_def new_parser_def)
  moreover have "feed_eof cd (waiting_body w body len) = parse_body cd ?p"
    by (rule feed_eof_body) (simp add: waiting_body_def)
  ultimately show ?thesis by (auto simp: used_close_framing_def waiting_body_def)
qed

lemma bodiless_parsed:
  assumes "head_ok w" "\<not> says_chunked w" "bodiless w"
    and "concat chunks = render_head w @ extra"
  shows "\<exists>q. feed_list (feed cd) new_parser chunks = Inr q \<and> delivers q w [] extra
    \<and> \<not> used_close_framing q"
proof -
  let ?p = "(after_head w extra)\<lparr>p_content_length := Some 0\<rparr>"
  have "resolve_framing (after_head w extra) = Inr ?p"
    using assms(2,3) by (simp add: resolve_framing_after_head)
  moreover have "parse_body cd (?p\<lparr>p_state := BODY\<rparr>) = finalize cd (?p\<lparr>p_state := BODY\<rparr>)"
    by (simp add: parse_body_def parse_fixed_length_def after_head_def new_parser_def)
  moreover have "decompress cd (headers_init (h_lines w)) [] = Inr []"
    by (simp add: decompress_def split: option.split)
  from finalize_delivers [OF this, of "?p\<lparr>p_state := BODY\<rparr>" extra]
  obtain q where "finalize cd (?p\<lparr>p_state := BODY\<rparr>) = Inr q"
    "delivers q w [] extra" "p_state q = DONE" "\<not> p_read_until_close q"
    by (auto simp: after_head_def new_parser_def)
  ultimately show ?thesis
    using feed_head_done [OF assms(1) _ _ _ assms(4)] by (auto simp: used_close_framing_def)
qed

section \<open>Properties\<close>

lemma chunked_fed:
  assumes "head_ok w" "says_chunked w"
    and "list_all chunk_ok chunks" "ext_ok last_ext" "list_all line_ok trailers"
    and "decompress cd (headers_init (h_lines w)) (concat (map snd chunks)) = Inr out"
    and "concat pieces = render_head w @ concat (map render_chunk chunks) @ render_last last_ext trailers @ extra"
  shows "\<exists>q. feed_list (feed cd) new_parser pieces = Inr q \<and> delivers q w out extra
    \<and> \<not> used_close_framing q"
proof -
  let ?body = "concat (map render_chunk chunks) @ render_last last_ext trailers @ extra"
  let ?p = "(after_head w ?body)\<lparr>p_chunked := True\<rparr>"
  let ?b = "?p\<lparr>p_state := BODY\<rparr>"
  have framing: "resolve_framing (after_head w ?body) = Inr ?p"
    using assms(2) by (simp add: resolve_framing_after_head)
  have "p_awaiting_chunk_size ?b" "\<not> p_in_trailers ?b" "p_buf ?b = ?body"
    by (simp_all add: after_head_def new_parser_def)
  then obtain n where "parse_chunked cd ?b = finalize cd (?b\<lparr>p_body := p_body ?b @ concat (map snd chunks),
      p_buf := extra, p_in_trailers := True, p_chunk_remaining := n\<rparr>)"
    using parse_chunked_render [OF assms(3-5)] by blast
  moreover have "p_body ?b = []" by (simp add: after_head_def new_parser_def)
  ultimately have body: "parse_body cd ?b = finalize cd (?b\<lparr>p_body := concat (map snd chunks),
      p_buf := extra, p_in_trailers := True, p_chunk_remaining := n\<rparr>)"
    by (simp add: parse_body_def)
  obtain q where "finalize cd (?b\<lparr>p_body := concat (map snd chunks),
      p_buf := extra, p_in_trailers := True, p_chunk_remaining := n\<rparr>) = Inr q"
    "delivers q w out extra" "p_state q = DONE" "\<not> p_read_until_close q"
    using finalize_delivers [OF assms(6), of "?b\<lparr>p_body := concat (map snd chunks),
      p_buf := extra, p_in_trailers := True, p_chunk_remaining := n\<rparr>" extra]
    by (auto simp: after_head_def new_parser_def)
  with body show ?thesis
    using feed_head_done [OF assms(1) framing _ _ assms(7), of cd q] by (auto simp: used_close_framing_def)
qed

lemma content_length_fed:
  assumes "head_ok w" "\<not> says_chunked w" "\<not> bodiless w"
    and "values_named (h_lines w) ''Content-Length'' = [str_of_nat (length body)]"
    and "length body < 10 ^ int_max_str_digits"
    and "decompress cd (headers_init (h_lines w)) body = Inr out"
    and "concat chunks = render_head w @ body @ extra"
  shows "\<exists>q. feed_list (feed cd) new_parser chunks = Inr q \<and> delivers q w out extra
    \<and> \<not> used_close_framing q"
proof -
  let ?p = "(after_head w (body @ extra))\<lparr>p_content_length := Some (int (length body))\<rparr>"
  have "resolve_framing (after_head w (body @ extra)) = Inr ?p"
    using assms(2,3) content_length_value [OF assms(4,5)] by (simp add: resolve_framing_after_head)
  moreover have "parse_body cd (?p\<lparr>p_state := BODY\<rparr>) =
      finalize cd (?p\<lparr>p_state := BODY, p_body := body, p_buf := extra\<rparr>)"
    using fixed_length_body [of "?p\<lparr>p_state := BODY\<rparr>" body extra cd]
    by (simp add: parse_body_def after_head_def new_parser_def)
  moreover obtain q where "finalize cd (?p\<lparr>p_state := BODY, p_body := body, p_buf := extra\<rparr>) = Inr q"
    "delivers q w out extra" "p_state q = DONE" "\<not> p_read_until_close q"
    using finalize_delivers [OF assms(6), of "?p\<lparr>p_state := BODY, p_body := body, p_buf := extra\<rparr>" extra]
    by (auto simp: after_head_def new_parser_def)
  ultimately show ?thesis
    using feed_head_done [OF assms(1) _ _ _ assms(7)] by (auto simp: used_close_framing_def)
qed

text \<open>
  C5: a response with a Content-Length comes out as written, whatever the chunks it arrives in:
  status, reason, version, headers and the body (decompressed), with the bytes after it left
  in the buffer, and the connection is not taken to be delimited by its end.
\<close>

theorem content_length_response:
  assumes "head_ok w" "\<not> says_chunked w" "\<not> bodiless w"
    and "values_named (h_lines w) ''Content-Length'' = [str_of_nat (length body)]"
    and "length body < 10 ^ int_max_str_digits"
    and "decompress cd (headers_init (h_lines w)) body = Inr out"
    and "concat chunks = render_head w @ body @ extra"
  shows "\<exists>q. feed_list (feed cd) new_parser chunks = Inr q \<and> delivers q w out extra
    \<and> \<not> used_close_framing q"
  by (rule content_length_fed [OF assms])

text \<open>
  C4: a chunked response, with chunk extensions and trailer lines, comes out with the chunks'
  data joined, whatever pieces it arrives in, and leaves what follows in the buffer.
\<close>

theorem chunked_response:
  assumes "head_ok w" "says_chunked w"
    and "list_all chunk_ok chunks" "ext_ok last_ext" "list_all line_ok trailers"
    and "decompress cd (headers_init (h_lines w)) (concat (map snd chunks)) = Inr out"
    and "concat pieces = render_head w @ concat (map render_chunk chunks) @ render_last last_ext trailers @ extra"
  shows "\<exists>q. feed_list (feed cd) new_parser pieces = Inr q \<and> delivers q w out extra
    \<and> \<not> used_close_framing q"
  by (rule chunked_fed [OF assms])

text \<open>
  An informational response, a 204 or a 304 that is not chunked ends with its head, even
  when it announces a Content-Length.
\<close>

theorem bodiless_response:
  assumes "head_ok w" "\<not> says_chunked w" "bodiless w"
    and "concat chunks = render_head w @ extra"
  shows "\<exists>q. feed_list (feed cd) new_parser chunks = Inr q \<and> delivers q w [] extra
    \<and> \<not> used_close_framing q"
  using assms by (rule bodiless_parsed)

text \<open>
  C13: a response without framing headers is complete only at the end of the connection: before
  it the parser waits, whatever arrived, and then gives the whole body; the connection counts
  as not reusable.
\<close>

theorem until_close_response:
  assumes "head_ok w" "\<not> says_chunked w" "\<not> bodiless w" "values_named (h_lines w) ''Content-Length'' = []"
    and "decompress cd (headers_init (h_lines w)) body = Inr out"
    and "concat chunks = render_head w @ body"
  shows "\<exists>p q. feed_list (feed cd) new_parser chunks = Inr p \<and> \<not> is_complete p
    \<and> feed_eof cd p = Inr q \<and> delivers q w out [] \<and> used_close_framing q"
proof -
  let ?p = "(after_head w body)\<lparr>p_read_until_close := True\<rparr>"
  let ?q = "waiting_body w body None"
  have "get_header (headers_init (h_lines w)) ''Content-Length'' = None"
    using assms(4) unfolding headers_init_def by (simp add: hdr.lookup_items)
  then have "resolve_framing (after_head w body) = Inr ?p"
    using assms(2,3) by (simp add: resolve_framing_after_head)
  moreover have "parse_body cd (?p\<lparr>p_state := BODY\<rparr>) = Inr ?q" "parse_body cd ?q = Inr ?q"
    by (auto simp: parse_body_def parse_until_close_def waiting_body_def after_head_def new_parser_def)
  moreover have "p_state ?q = BODY" by (simp add: waiting_body_def)
  ultimately have "feed_list (feed cd) new_parser chunks = Inr ?q"
    using feed_head_waits [OF assms(1) _ _ _ _ assms(6)] by blast
  with \<open>p_state ?q = BODY\<close> show ?thesis
    using waiting_body_eof [OF assms(5), of None] by (auto simp: is_complete_def)
qed

text \<open>
  When the connection ends before the announced Content-Length, the parser does not fail:
  after waiting it finishes the response with the part of the body that arrived.
\<close>

theorem short_content_length_response:
  assumes "head_ok w" "\<not> says_chunked w" "\<not> bodiless w"
    and "values_named (h_lines w) ''Content-Length'' = [str_of_nat n]" "n < 10 ^ int_max_str_digits"
    and "length body < n"
    and "decompress cd (headers_init (h_lines w)) body = Inr out"
    and "concat chunks = render_head w @ body"
  shows "\<exists>p q. feed_list (feed cd) new_parser chunks = Inr p \<and> \<not> is_complete p
    \<and> feed_eof cd p = Inr q \<and> delivers q w out [] \<and> \<not> used_close_framing q"
proof -
  let ?p = "(after_head w body)\<lparr>p_content_length := Some (int n)\<rparr>"
  let ?q = "waiting_body w body (Some (int n))"
  have "resolve_framing (after_head w body) = Inr ?p"
    using assms(2,3) content_length_value [OF assms(4,5)] by (simp add: resolve_framing_after_head)
  moreover have "parse_body cd (?p\<lparr>p_state := BODY\<rparr>) = Inr ?q" "parse_body cd ?q = Inr ?q"
    using assms(6)
    by (simp_all add: parse_body_def parse_fixed_length_alt take_missing_def waiting_body_def
        after_head_def new_parser_def)
  moreover have "p_state ?q = BODY" by (simp add: waiting_body_def)
  ultimately have "feed_list (feed cd) new_parser chunks = Inr ?q"
    using feed_head_waits [OF assms(1) _ _ _ _ assms(8)] by blast
  with \<open>p_state ?q = BODY\<close> show ?thesis
    using waiting_body_eof [OF assms(7), of "Some (int n)"] assms(6) by (auto simp: is_complete_def)
qed

section \<open>The properties at concrete responses\<close>

text \<open>A codec that knows one compressed stream of each kind.\<close>

definition demo_codec :: codec where
  "demo_codec = (let table = (\<lambda>b. if b = ''zip'' then Inr ''text'' else Inl OSError) in
     \<lparr>gzip_decompress = table, zlib_decompress = table, raw_decompress = table\<rparr>)"

definition demo_head :: "nat \<Rightarrow> (latin \<times> latin) list \<Rightarrow> head" where
  "demo_head code hs = \<lparr>h_major = 1, h_minor = 1, h_code = code, h_reason = ''OK'', h_lines = hs\<rparr>"

lemma content_length_response_witness:
  "\<exists>q. feed_list (feed demo_codec) new_parser [''HTTP/1.1 200 OK'' @ crlf @ ''Content-Le'',
      ''ngth: 3'' @ crlf @ ''content-encoding: GZip'' @ [CR], [], LF # crlf @ ''z'', ''ipHTTP''] = Inr q
    \<and> delivers q (demo_head 200 [(''Content-Length'', ''3''), (''content-encoding'', ''GZip'')]) ''text'' ''HTTP''
    \<and> \<not> used_close_framing q"
proof -
  let ?w = "demo_head 200 [(''Content-Length'', ''3''), (''content-encoding'', ''GZip'')]"
  have h: "head_ok ?w" "\<not> says_chunked ?w" "\<not> bodiless ?w"
    "values_named (h_lines ?w) ''Content-Length'' = [str_of_nat (length ''zip'')]"
    "decompress demo_codec (headers_init (h_lines ?w)) ''zip'' = Inr ''text''"
    "concat [''HTTP/1.1 200 OK'' @ crlf @ ''Content-Le'',
      ''ngth: 3'' @ crlf @ ''content-encoding: GZip'' @ [CR], [], LF # crlf @ ''z'', ''ipHTTP''] =
      render_head ?w @ ''zip'' @ ''HTTP''"
    by code_simp+
  show ?thesis by (rule content_length_response [OF h(1-4) small_decimal h(5,6)]) simp
qed

lemma chunked_response_witness:
  "\<exists>q. feed_list (feed demo_codec) new_parser [''HTTP/1.1 200 OK'' @ crlf @ ''transfer-encoding: Chunked'',
      crlf @ crlf @ ''3;x=y'' @ crlf @ ''abc'' @ [CR], LF # ''2'' @ crlf, ''de'' @ crlf @ ''0'' @ crlf @ ''T: v'',
      crlf @ crlf] = Inr q
    \<and> delivers q (demo_head 200 [(''transfer-encoding'', ''Chunked'')]) ''abcde'' []
    \<and> \<not> used_close_framing q"
proof -
  let ?w = "demo_head 200 [(''transfer-encoding'', ''Chunked'')]"
  have "head_ok ?w" "says_chunked ?w"
    "list_all chunk_ok [('';x=y'', ''abc''), ([], ''de'')]" "ext_ok []" "list_all line_ok [''T: v'']"
    "decompress demo_codec (headers_init (h_lines ?w)) (concat (map snd [('';x=y'', ''abc''), ([], ''de'')])) = Inr ''abcde''"
    "concat [''HTTP/1.1 200 OK'' @ crlf @ ''transfer-encoding: Chunked'',
      crlf @ crlf @ ''3;x=y'' @ crlf @ ''abc'' @ [CR], LF # ''2'' @ crlf, ''de'' @ crlf @ ''0'' @ crlf @ ''T: v'',
      crlf @ crlf] =
      render_head ?w @ concat (map render_chunk [('';x=y'', ''abc''), ([], ''de'')]) @ render_last [] [''T: v''] @ []"
    by code_simp+
  then show ?thesis by (rule chunked_response)
qed

lemma bodiless_response_witness:
  "\<exists>q. feed_list (feed demo_codec) new_parser [''HTTP/1.1 304 OK'' @ crlf @ ''Content-Length: 9'' @ crlf, crlf @ ''HT''] = Inr q
    \<and> delivers q (demo_head 304 [(''Content-Length'', ''9'')]) [] ''HT'' \<and> \<not> used_close_framing q"
proof -
  let ?w = "demo_head 304 [(''Content-Length'', ''9'')]"
  have "head_ok ?w" "\<not> says_chunked ?w" "bodiless ?w"
    "concat [''HTTP/1.1 304 OK'' @ crlf @ ''Content-Length: 9'' @ crlf, crlf @ ''HT''] = render_head ?w @ ''HT''"
    by code_simp+
  then show ?thesis by (rule bodiless_response)
qed

lemma until_close_response_witness:
  "\<exists>p q. feed_list (feed demo_codec) new_parser [''HTTP/1.1 200 OK'' @ crlf, crlf @ ''so'', '' far''] = Inr p
    \<and> \<not> is_complete p \<and> feed_eof demo_codec p = Inr q \<and> delivers q (demo_head 200 []) ''so far'' []
    \<and> used_close_framing q"
proof -
  let ?w = "demo_head 200 []"
  have "head_ok ?w" "\<not> says_chunked ?w" "\<not> bodiless ?w" "values_named (h_lines ?w) ''Content-Length'' = []"
    "decompress demo_codec (headers_init (h_lines ?w)) ''so far'' = Inr ''so far''"
    "concat [''HTTP/1.1 200 OK'' @ crlf, crlf @ ''so'', '' far''] = render_head ?w @ ''so far''"
    by code_simp+
  then show ?thesis by (rule until_close_response)
qed

lemma short_content_length_response_witness:
  "\<exists>p q. feed_list (feed demo_codec) new_parser [''HTTP/1.1 200 OK'' @ crlf @ ''content-length: 9'' @ crlf, crlf @ ''so far''] = Inr p
    \<and> \<not> is_complete p \<and> feed_eof demo_codec p = Inr q
    \<and> delivers q (demo_head 200 [(''content-length'', ''9'')]) ''so far'' [] \<and> \<not> used_close_framing q"
proof -
  let ?w = "demo_head 200 [(''content-length'', ''9'')]"
  have h: "head_ok ?w" "\<not> says_chunked ?w" "\<not> bodiless ?w"
    "values_named (h_lines ?w) ''Content-Length'' = [str_of_nat 9]" "length ''so far'' < (9::nat)"
    "decompress demo_codec (headers_init (h_lines ?w)) ''so far'' = Inr ''so far''"
    "concat [''HTTP/1.1 200 OK'' @ crlf @ ''content-length: 9'' @ crlf, crlf @ ''so far''] = render_head ?w @ ''so far''"
    by code_simp+
  show ?thesis by (rule short_content_length_response [OF h(1-4) small_decimal h(5-7)]) simp
qed

end
