(* ===== verification/Parser_Invariant.thy ===== *)
theory Parser_Invariant
  imports Parser_Framing
begin

text \<open>
  What holds of a parser object whatever bytes it was given, in whatever pieces, with the end of
  the connection signalled or not, also when calls raised and the caller went on: the states are
  the inductive set \<open>reached\<close>, and the invariant is preserved by every call. The relation
  \<open>body_step\<close> collects what the body readers may change.
\<close>

section \<open>The object after a call\<close>

text \<open>The object a call leaves behind, whether it returned or raised.\<close>

fun left_by :: "outcome \<Rightarrow> parser" where
  "left_by (Inl (e, q)) = q"
| "left_by (Inr q) = q"

inductive reached :: "codec \<Rightarrow> parser \<Rightarrow> bool" for cd where
  reached_new: "reached cd new_parser"
| reached_feed: "reached cd p \<Longrightarrow> reached cd (left_by (feed cd p data))"
| reached_eof: "reached cd p \<Longrightarrow> reached cd (left_by (feed_eof cd p))"

section \<open>Steps of a body reader\<close>

text \<open>
  A body reader changes neither the head nor the framing, only appends to the body, only drops
  bytes from the front of the buffer, and either leaves the response alone or finishes it.
\<close>

definition same_head :: "parser \<Rightarrow> parser \<Rightarrow> bool" where
  "same_head p q \<longleftrightarrow> p_headers q = p_headers p \<and> p_status_code q = p_status_code p
     \<and> p_reason q = p_reason p \<and> p_http_version q = p_http_version p \<and> p_eof q = p_eof p
     \<and> p_chunked q = p_chunked p \<and> p_content_length q = p_content_length p
     \<and> p_read_until_close q = p_read_until_close p"

definition describes :: "parser \<Rightarrow> response \<Rightarrow> bool" where
  "describes p r \<longleftrightarrow> status_code r = p_status_code p \<and> reason r = p_reason p
     \<and> http_version r = p_http_version p \<and> resp_headers r = p_headers p"

definition body_step :: "parser \<Rightarrow> parser \<Rightarrow> bool" where
  "body_step p q \<longleftrightarrow> same_head p q \<and> prefix (p_body p) (p_body q) \<and> suffix (p_buf q) (p_buf p)
     \<and> (p_state q = p_state p \<and> p_response q = p_response p
        \<or> p_state q = DONE \<and> (\<exists>r. p_response q = Some r \<and> describes q r))"

lemma same_head_refl [simp]: "same_head p p"
  by (simp add: same_head_def)

lemma same_head_trans: "same_head p q \<Longrightarrow> same_head q r \<Longrightarrow> same_head p r"
  by (simp add: same_head_def)

lemma body_step_refl [simp]: "body_step p p"
  by (simp add: body_step_def)

lemma body_step_trans:
  assumes "body_step p q" "body_step q r"
  shows "body_step p r"
proof -
  have "prefix (p_body p) (p_body r)" "suffix (p_buf r) (p_buf p)" "same_head p r"
    using assms same_head_trans by (auto simp: body_step_def intro: prefix_order.trans suffix_order.trans)
  moreover have "p_state r = p_state p \<and> p_response r = p_response p
      \<or> p_state r = DONE \<and> (\<exists>x. p_response r = Some x \<and> describes r x)"
    using assms by (auto simp: body_step_def same_head_def describes_def)
  ultimately show ?thesis by (simp add: body_step_def)
qed

text \<open>Moving bytes from the buffer to the body, and consuming some of the buffer.\<close>

lemma body_step_take:
  "body_step p (p\<lparr>p_body := p_body p @ take n (p_buf p), p_buf := drop n (p_buf p)\<rparr>)"
  "body_step p (p\<lparr>p_body := p_body p @ take n (p_buf p), p_buf := drop n (p_buf p), p_chunk_remaining := m\<rparr>)"
  "body_step p (p\<lparr>p_buf := drop n (p_buf p)\<rparr>)"
  "body_step p (p\<lparr>p_buf := drop n (p_buf p), p_awaiting_chunk_size := b\<rparr>)"
  "body_step p (p\<lparr>p_buf := drop n (p_buf p), p_in_trailers := b\<rparr>)"
  "body_step p (p\<lparr>p_buf := drop n (p_buf p), p_chunk_remaining := m, p_awaiting_chunk_size := b\<rparr>)"
  by (simp_all add: body_step_def same_head_def suffix_drop)

lemma body_step_all: "body_step p (p\<lparr>p_body := p_body p @ p_buf p, p_buf := []\<rparr>)"
  by (simp add: body_step_def same_head_def)

lemma finalize_step: "body_step p (left_by (finalize cd p))"
  by (auto simp: finalize_def body_step_def same_head_def describes_def split: sum.split)

lemma then_finalize: "body_step p q \<Longrightarrow> body_step p (left_by (finalize cd q))"
  using finalize_step body_step_trans by blast

lemma fixed_length_step: "body_step p (left_by (parse_fixed_length cd len p))"
  using body_step_take(1) [of p "nat (len - int (length (p_body p)))"]
  by (auto simp: parse_fixed_length_alt take_missing_def Let_def intro: then_finalize)

lemma until_close_step: "body_step p (left_by (parse_until_close cd p))"
  using body_step_all [of p] by (auto simp: parse_until_close_def Let_def intro: then_finalize)

section \<open>Steps of the chunk loop\<close>

fun flow_left :: "flow \<Rightarrow> parser" where
  "flow_left (Stop r) = left_by r"
| "flow_left (Go q) = q"

lemma parse_trailers_step: "body_step p (left_by (parse_trailers cd p))"
  using body_step_take(3) [of p]
  by (auto simp: parse_trailers_def intro: then_finalize split: option.split)

lemma chunk_size_step: "body_step p (flow_left (chunk_size_block p))"
  using body_step_take(5,6) [of p] by (auto simp: chunk_size_block_def Let_def split: option.split)

lemma take_chunk_step: "body_step p (take_chunk p)"
  unfolding take_chunk_def Let_def by (rule body_step_take)

lemma chunk_data_step: "body_step p (flow_left (chunk_data_block p))"
  using take_chunk_step [of p] by (auto simp: chunk_data_block_alt Let_def)

lemma chunk_end_step: "body_step p (flow_left (chunk_end_block p))"
  using body_step_take(4) [of p] by (auto simp: chunk_end_block_def)

lemma flow_then_step:
  "body_step p (flow_left r) \<Longrightarrow> (\<And>q. r = Go q \<Longrightarrow> body_step q (flow_left (f q))) \<Longrightarrow>
    body_step p (flow_left (flow_then r f))"
  by (cases r) (auto intro: body_step_trans)

lemma chunk_turn_step: "body_step p (flow_left (chunk_turn cd p))"
  using parse_trailers_step [of p cd]
  by (auto simp: chunk_turn_def intro!: flow_then_step chunk_size_step chunk_data_step chunk_end_step)

lemma parse_chunked_step: "body_step p (left_by (parse_chunked cd p))"
proof (induction cd p rule: parse_chunked.induct)
  case (1 cd p)
  show ?case
  proof (cases "chunk_turn cd p")
    case (Stop r)
    with chunk_turn_step [of p cd] show ?thesis by (simp add: parse_chunked.simps [of cd p])
  next
    case (Go q)
    with chunk_turn_step [of p cd] have "body_step p q" by simp
    with 1 [OF Go] Go show ?thesis
      by (auto simp: parse_chunked.simps [of cd p] intro: body_step_trans)
  qed
qed

lemma parse_body_step: "body_step p (left_by (parse_body cd p))"
  using parse_chunked_step fixed_length_step until_close_step
  by (auto simp: parse_body_def split: option.split)

section \<open>The invariant\<close>

text \<open>
  Exactly one framing once the head is read; no framing, no body and a fresh chunk cursor before.
\<close>

definition one_framing :: "parser \<Rightarrow> bool" where
  "one_framing p \<longleftrightarrow>
     (p_chunked p \<and> p_content_length p = None \<and> \<not> p_read_until_close p)
     \<or> (\<not> p_chunked p \<and> p_content_length p \<noteq> None \<and> \<not> p_read_until_close p)
     \<or> (\<not> p_chunked p \<and> p_content_length p = None \<and> p_read_until_close p)"

definition no_body_yet :: "parser \<Rightarrow> bool" where
  "no_body_yet p \<longleftrightarrow> \<not> p_chunked p \<and> p_content_length p = None \<and> \<not> p_read_until_close p
     \<and> p_body p = [] \<and> p_response p = None"

definition parser_inv :: "parser \<Rightarrow> bool" where
  "parser_inv p \<longleftrightarrow> headers_wf (p_headers p)
     \<and> (p_state p \<in> {STATUS, HEADERS} \<longrightarrow> no_body_yet p)
     \<and> (p_state p = STATUS \<longrightarrow> p_headers p = [])
     \<and> (p_state p \<in> {BODY, DONE} \<longrightarrow> one_framing p)
     \<and> (p_state p \<noteq> DONE \<longrightarrow> p_response p = None)
     \<and> (p_state p = DONE \<longrightarrow> (\<exists>r. p_response p = Some r \<and> describes p r))"

lemma parser_inv_new: "parser_inv new_parser"
  by (simp add: parser_inv_def new_parser_def no_body_yet_def)

lemma parser_inv_eof: "parser_inv p \<Longrightarrow> parser_inv (p\<lparr>p_eof := True\<rparr>)"
  by (auto simp: parser_inv_def no_body_yet_def one_framing_def describes_def)

lemma parser_inv_more: "parser_inv p \<Longrightarrow> parser_inv (more_input b p)"
  by (auto simp: parser_inv_def no_body_yet_def one_framing_def describes_def more_input_def)

lemma parser_inv_body:
  assumes "parser_inv p" "p_state p = BODY" "body_step p q"
  shows "parser_inv q \<and> p_state q \<in> {BODY, DONE}"
  using assms by (auto simp: parser_inv_def body_step_def same_head_def one_framing_def)

lemma status_line_inv:
  assumes "parser_inv p" "p_state p = STATUS"
  shows "parser_inv (left_by (parse_status_line p))"
  using assms
  by (auto simp: parse_status_line_def Let_def parser_inv_def no_body_yet_def split: option.split)

lemma parse_header_lines_wf:
  "headers_wf h \<Longrightarrow> case parse_header_lines h raws of
      Inr h' \<Rightarrow> headers_wf h'
    | Inl (e, h') \<Rightarrow> headers_wf h' \<and> (\<exists>m. e = HttpParseError m)"
proof (induction h raws rule: parse_header_lines.induct)
  case (1 h)
  then show ?case by simp
next
  case (2 h raw raws)
  consider "raw = []" | "raw \<noteq> []" "hd raw \<in> {CHR '' '', CHR 0x09}" "header_items h = []"
    | h' where "raw \<noteq> []" "hd raw \<in> {CHR '' '', CHR 0x09}" "header_items h \<noteq> []"
        "append_to_last h (bytes_strip raw) = Inr h'"
    | e where "raw \<noteq> []" "hd raw \<in> {CHR '' '', CHR 0x09}" "header_items h \<noteq> []"
        "append_to_last h (bytes_strip raw) = Inl e"
    | "raw \<noteq> []" "hd raw \<notin> {CHR '' '', CHR 0x09}"
    by (cases "append_to_last h (bytes_strip raw)") blast+
  then show ?case
  proof cases
    case 1
    with 2 show ?thesis by simp
  next
    case 2
    with \<open>headers_wf h\<close> show ?thesis by simp
  next
    case 3
    with 2 headers_wf_append_to_last [of h _ h'] show ?thesis by simp
  next
    case 4
    with \<open>headers_wf h\<close> header_items_empty_iff [of h] have "h \<noteq> []" by blast
    then obtain key name vals where "last h = (key, name, vals)" "(key, name, vals) \<in> set h"
      by (metis last_in_set prod_cases3)
    with 4(4) \<open>headers_wf h\<close> \<open>h \<noteq> []\<close> show ?thesis
      by (auto simp: append_to_last_def headers_wf_def)
  next
    case 5
    with 2 headers_wf_add [of h] show ?thesis by (auto split: option.split)
  qed
qed

text \<open>The framing decision turns a head without framing into one with exactly one.\<close>

lemma resolve_framing_inv:
  assumes "parser_inv p" "p_state p = HEADERS"
  shows "case resolve_framing p of
      Inr q \<Rightarrow> parser_inv (q\<lparr>p_state := BODY\<rparr>)
    | Inl (e, q) \<Rightarrow> q = p"
  using assms
  by (auto simp: resolve_framing_def Let_def parser_inv_def no_body_yet_def one_framing_def
      split: option.split)

lemma parser_inv_set_headers:
  "parser_inv p \<Longrightarrow> p_state p = HEADERS \<Longrightarrow> headers_wf h \<Longrightarrow> parser_inv (p\<lparr>p_headers := h\<rparr>)"
  by (simp add: parser_inv_def no_body_yet_def)

lemma parser_inv_drop: "parser_inv p \<Longrightarrow> parser_inv (p\<lparr>p_buf := b\<rparr>)"
  by (auto simp: parser_inv_def no_body_yet_def one_framing_def describes_def)

lemma body_inv: "parser_inv p \<Longrightarrow> p_state p = BODY \<Longrightarrow> parser_inv (left_by (parse_body cd p))"
  using parser_inv_body parse_body_step by blast

lemma finish_headers_inv:
  assumes "parser_inv p" "p_state p = HEADERS"
  shows "parser_inv (left_by (finish_headers cd block p))"
proof (cases "parse_header_lines (p_headers p) (py_split crlf block)")
  case (Inl eh)
  obtain e h where "eh = (e, h)" by (cases eh)
  with Inl parse_header_lines_wf [of "p_headers p" "py_split crlf block"] assms
  have "headers_wf h" by (simp add: parser_inv_def)
  with Inl \<open>eh = (e, h)\<close> assms show ?thesis
    by (simp add: finish_headers_def parser_inv_set_headers)
next
  case (Inr h)
  with parse_header_lines_wf [of "p_headers p" "py_split crlf block"] assms
  have "headers_wf h" by (simp add: parser_inv_def)
  with assms have inv: "parser_inv (p\<lparr>p_headers := h\<rparr>)" by (simp add: parser_inv_set_headers)
  show ?thesis
  proof (cases "resolve_framing (p\<lparr>p_headers := h\<rparr>)")
    case (Inl eq)
    then show ?thesis
      using Inr resolve_framing_inv [OF inv] inv assms(2)
      by (cases eq) (simp add: finish_headers_def)
  next
    case (Inr q)
    then have "parser_inv (q\<lparr>p_state := BODY\<rparr>)"
      using resolve_framing_inv [OF inv] assms(2) by simp
    then have "parser_inv (left_by (parse_body cd (q\<lparr>p_state := BODY\<rparr>)))"
      by (rule body_inv) simp
    with Inr \<open>parse_header_lines (p_headers p) (py_split crlf block) = Inr h\<close> show ?thesis
      by (simp add: finish_headers_def)
  qed
qed

lemma parse_headers_inv:
  assumes "parser_inv p" "p_state p = HEADERS"
  shows "parser_inv (left_by (parse_headers cd p))"
  using assms by (auto simp: parse_headers_def parser_inv_drop split: option.split
      intro!: finish_headers_inv)

lemma and_then_inv:
  assumes "parser_inv (left_by r)" "\<And>q. r = Inr q \<Longrightarrow> parser_inv (left_by (f q))"
  shows "parser_inv (left_by (and_then r f))"
proof (cases r)
  case (Inl e)
  then show ?thesis using assms(1) by simp
next
  case (Inr q)
  then show ?thesis using assms(2) by simp
qed

lemma when_state_inv:
  assumes "parser_inv p" "p_state p = ph \<Longrightarrow> parser_inv (left_by (f p))"
  shows "parser_inv (left_by (when_state ph f p))"
  using assms by (simp add: when_state_def)

lemma parse_inv:
  assumes "parser_inv p"
  shows "parser_inv (left_by (parse cd p))"
  unfolding parse_def
proof (rule and_then_inv)
  show s: "parser_inv (left_by (when_state STATUS parse_status_line p))"
    using assms status_line_inv by (blast intro: when_state_inv)
  fix q assume "when_state STATUS parse_status_line p = Inr q"
  with s have q: "parser_inv q" by simp
  show "parser_inv (left_by (and_then (when_state HEADERS (parse_headers cd) q)
      (when_state BODY (parse_body cd))))"
  proof (rule and_then_inv)
    show h: "parser_inv (left_by (when_state HEADERS (parse_headers cd) q))"
      using q parse_headers_inv by (blast intro: when_state_inv)
    fix t assume "when_state HEADERS (parse_headers cd) q = Inr t"
    with h have "parser_inv t" by simp
    then show "parser_inv (left_by (when_state BODY (parse_body cd) t))"
      using body_inv by (blast intro: when_state_inv)
  qed
qed

lemma reached_inv: "reached cd p \<Longrightarrow> parser_inv p"
proof (induction rule: reached.induct)
  case reached_new
  show ?case by (rule parser_inv_new)
next
  case (reached_feed p data)
  then show ?case by (simp add: feed_extend parse_inv parser_inv_more)
next
  case (reached_eof p)
  then show ?case by (simp add: feed_eof_def parse_inv parser_inv_eof)
qed

section \<open>What can be raised\<close>

fun parser_error :: "raised \<Rightarrow> bool" where
  "parser_error (HttpParseError m) \<longleftrightarrow> True"
| "parser_error (CodecRaised c) \<longleftrightarrow> c = EOFError"
| "parser_error (HeaderRaised x) \<longleftrightarrow> False"

fun raises_ok :: "outcome \<Rightarrow> bool" where
  "raises_ok (Inl (e, q)) \<longleftrightarrow> parser_error e"
| "raises_ok (Inr q) \<longleftrightarrow> True"

fun flow_ok :: "flow \<Rightarrow> bool" where
  "flow_ok (Stop r) \<longleftrightarrow> raises_ok r"
| "flow_ok (Go q) \<longleftrightarrow> True"

lemma decompress_error: "decompress cd h data = Inl e \<Longrightarrow> e = EOFError"
  by (auto simp: decompress_def Let_def split: if_splits option.splits sum.splits codec_error.splits)

lemma finalize_ok [simp]: "raises_ok (finalize cd p)"
  by (auto simp: finalize_def dest: decompress_error split: sum.split)

lemma blocks_ok:
  "flow_ok (chunk_size_block p)" "flow_ok (chunk_data_block p)" "flow_ok (chunk_end_block p)"
  by (auto simp: chunk_size_block_def chunk_data_block_def chunk_end_block_def Let_def split: option.split)

lemma flow_then_ok: "flow_ok r \<Longrightarrow> (\<And>q. flow_ok (f q)) \<Longrightarrow> flow_ok (flow_then r f)"
  by (cases r) auto

lemma chunk_turn_ok: "flow_ok (chunk_turn cd p)"
  by (auto simp: chunk_turn_def parse_trailers_def intro!: flow_then_ok blocks_ok split: option.split)

lemma parse_chunked_ok: "raises_ok (parse_chunked cd p)"
proof (induction cd p rule: parse_chunked.induct)
  case (1 cd p)
  then show ?case
    using chunk_turn_ok [of cd p] by (cases "chunk_turn cd p") (simp_all add: parse_chunked.simps [of cd p])
qed

lemma parse_body_ok: "raises_ok (parse_body cd p)"
  by (auto simp: parse_body_def parse_chunked_ok parse_fixed_length_def parse_until_close_def Let_def
      split: option.split)

lemma and_then_ok: "raises_ok r \<Longrightarrow> (\<And>q. r = Inr q \<Longrightarrow> raises_ok (f q)) \<Longrightarrow> raises_ok (and_then r f)"
  by (cases r) auto

lemma finish_headers_ok: "headers_wf (p_headers p) \<Longrightarrow> raises_ok (finish_headers cd block p)"
  using parse_header_lines_wf [of "p_headers p" "py_split crlf block"]
  by (auto simp: finish_headers_def resolve_framing_def Let_def
      intro!: and_then_ok parse_body_ok split: sum.splits prod.splits option.split)

lemma parse_ok:
  assumes "parser_inv p"
  shows "raises_ok (parse cd p)"
  unfolding parse_def
proof (intro and_then_ok)
  show "raises_ok (when_state STATUS parse_status_line p)"
    by (auto simp: when_state_def parse_status_line_def Let_def split: option.split)
  fix q assume "when_state STATUS parse_status_line p = Inr q"
  moreover have "parser_inv (left_by (when_state STATUS parse_status_line p))"
    using assms status_line_inv by (blast intro: when_state_inv)
  ultimately have "headers_wf (p_headers q)" by (simp add: parser_inv_def)
  then show "raises_ok (when_state HEADERS (parse_headers cd) q)"
    by (auto simp: when_state_def parse_headers_def intro!: finish_headers_ok split: option.split)
  fix t
  show "raises_ok (when_state BODY (parse_body cd) t)"
    by (simp add: when_state_def parse_body_ok)
qed

section \<open>After the end of the connection\<close>

text \<open>A parser that was told of the end is finished, or had nothing unread and no body to end.\<close>

definition quiet :: "parser \<Rightarrow> bool" where
  "quiet p \<longleftrightarrow> p_buf p = [] \<and> (p_state p = BODY \<longrightarrow> p_chunked p \<and> p_awaiting_chunk_size p \<and> \<not> p_in_trailers p)"

definition ended :: "parser \<Rightarrow> bool" where
  "ended p \<longleftrightarrow> p_eof p \<and> (p_state p = DONE \<or> quiet p)"

lemma finalize_ended: "p_eof p \<Longrightarrow> finalize cd p = Inr q \<Longrightarrow> ended q"
  by (auto simp: finalize_def ended_def split: sum.splits)

lemma trailers_ended: "p_eof p \<Longrightarrow> parse_trailers cd p = Inr q \<Longrightarrow> ended q"
  by (auto simp: parse_trailers_def split: if_splits option.splits elim!: finalize_ended [rotated])

lemma chunk_turn_ended:
  assumes "p_eof p" "p_chunked p"
  shows "chunk_turn cd p = Stop (Inr q) \<Longrightarrow> ended q"
    and "chunk_turn cd p = Go q \<Longrightarrow> p_eof q \<and> p_chunked q"
proof -
  show "ended q" if "chunk_turn cd p = Stop (Inr q)"
  proof (cases "p_in_trailers p")
    case True
    with that assms show ?thesis by (simp add: chunk_turn_def trailers_ended)
  next
    case False
    with that consider "chunk_size_block p = Stop (Inr q)"
      | p1 where "chunk_size_block p = Go p1" "chunk_data_block p1 = Stop (Inr q)"
      | p1 p2 where "chunk_size_block p = Go p1" "chunk_data_block p1 = Go p2" "chunk_end_block p2 = Stop (Inr q)"
      by (auto simp: chunk_turn_def flow_then_Stop split: if_splits)
    then show ?thesis
    proof cases
      case 1
      with False assms show ?thesis
        by (auto simp: chunk_size_block_def Let_def ended_def quiet_def split: if_splits option.splits)
    next
      case 2
      then have "p_eof p1" using assms blocks_mode(1) by (auto simp: same_mode_def)
      with 2 show ?thesis by (auto simp: chunk_data_block_def Let_def split: if_splits)
    next
      case 3
      then have "p_eof p2" using assms blocks_mode(1,3) by (fastforce simp: same_mode_def)
      with 3 show ?thesis by (auto simp: chunk_end_block_def split: if_splits)
    qed
  qed
  show "p_eof q \<and> p_chunked q" if "chunk_turn cd p = Go q"
    using chunk_turn_mode(1) [OF that] assms by (simp add: same_mode_def)
qed

lemma parse_chunked_ended: "p_eof p \<Longrightarrow> p_chunked p \<Longrightarrow> parse_chunked cd p = Inr q \<Longrightarrow> ended q"
proof (induction cd p rule: parse_chunked.induct)
  case (1 cd p)
  show ?case
  proof (cases "chunk_turn cd p")
    case (Stop r)
    with "1.prems" have "chunk_turn cd p = Stop (Inr q)" by (simp add: parse_chunked.simps [of cd p])
    with "1.prems" chunk_turn_ended(1) show ?thesis by blast
  next
    case (Go p')
    with "1.prems" have "parse_chunked cd p' = Inr q" by (simp add: parse_chunked.simps [of cd p])
    with "1.IH" [OF Go] chunk_turn_ended(2) [OF _ _ Go] "1.prems" show ?thesis by blast
  qed
qed

lemma parse_body_ended:
  assumes "p_eof p" "parse_body cd p = Inr q"
  shows "ended q"
proof (cases "p_chunked p")
  case True
  with assms show ?thesis by (simp add: parse_body_def parse_chunked_ended)
next
  case False
  show ?thesis
  proof (cases "p_content_length p")
    case None
    with False assms have "finalize cd (if p_buf p \<noteq> [] then p\<lparr>p_body := p_body p @ p_buf p, p_buf := []\<rparr> else p) = Inr q"
      by (cases "p_buf p = []") (simp_all add: parse_body_def parse_until_close_def Let_def)
    with assms(1) show ?thesis by (auto elim!: finalize_ended [rotated] split: if_splits)
  next
    case (Some len)
    with False assms have "finalize cd (take_missing len p) = Inr q"
      by (simp add: parse_body_def parse_fixed_length_alt)
    then show ?thesis
      by (rule finalize_ended [rotated]) (simp add: assms(1) take_missing_def Let_def)
  qed
qed

lemma finish_headers_end:
  assumes "p_eof p" "finish_headers cd block p = Inr q"
  shows "ended q \<and> (p_state q = BODY \<or> p_state q = DONE)"
proof -
  from assms(2) obtain h r where r: "resolve_framing (p\<lparr>p_headers := h\<rparr>) = Inr r"
    and q: "parse_body cd (r\<lparr>p_state := BODY\<rparr>) = Inr q"
    by (auto simp: finish_headers_def and_then_Inr_iff split: sum.splits prod.splits)
  have "p_eof r" using r assms(1)
    by (auto simp: resolve_framing_def Let_def split: if_splits option.splits)
  then have "ended q" using q parse_body_ended [of "r\<lparr>p_state := BODY\<rparr>" cd q] by simp
  moreover have "p_state q \<in> {BODY, DONE}"
    using parse_body_step [of "r\<lparr>p_state := BODY\<rparr>" cd] q by (auto simp: body_step_def)
  ultimately show ?thesis by simp
qed

lemma headers_end:
  assumes "p_eof p" "p_state p = HEADERS" "parse_headers cd p = Inr q"
  shows "p_eof q \<and> (p_state q \<in> {STATUS, HEADERS} \<longrightarrow> p_buf q = [])"
proof (cases "prefix crlf (p_buf p) \<or> find_sub (crlf @ crlf) (p_buf p) \<noteq> None")
  case True
  then obtain block b where "finish_headers cd block (p\<lparr>p_buf := b\<rparr>) = Inr q"
    using assms(3) by (auto simp: parse_headers_def split: if_splits option.splits)
  with finish_headers_end [of "p\<lparr>p_buf := b\<rparr>" cd block q] assms(1) show ?thesis
    by (auto simp: ended_def)
next
  case False
  with assms show ?thesis by (auto simp: parse_headers_def split: if_splits)
qed

lemma complete_feed: "is_complete p \<Longrightarrow> feed cd p data = Inr (p\<lparr>p_buf := p_buf p @ data\<rparr>)"
  by (simp add: feed_extend parse_def when_state_def is_complete_def more_input_def)

section \<open>Properties\<close>

text \<open>
  C8: in every state a parser object can get into, a response exists exactly when the parser is
  complete, and it carries the status, reason, version and headers that were parsed; headers
  are well formed, exactly one body framing is in force once the head is read and none before,
  and no body byte is stored before the head is complete.
\<close>

theorem reached_parser_inv:
  assumes "reached cd p"
  shows "parser_inv p \<and> (is_complete p \<longleftrightarrow> p_response p \<noteq> None)"
  using reached_inv [OF assms] by (auto simp: parser_inv_def is_complete_def)

text \<open>
  C19: in every reachable state, the only exceptions are the parser's own and the \<open>EOFError\<close> of a
  truncated compressed body, whether bytes arrive or the connection ends: \<open>append_to_last\<close> never
  fails inside the parser.
\<close>

theorem reached_raises_ok:
  assumes "reached cd p"
  shows "raises_ok (feed cd p data) \<and> raises_ok (feed_eof cd p)"
  using reached_inv [OF assms]
  by (simp add: feed_extend feed_eof_def parse_ok parser_inv_more parser_inv_eof)

text \<open>
  Signalling the end of the connection either raises, or finishes the response, or finds
  nothing unread where no body is open: before the status line, before the header block, or
  exactly between two chunks. In the last case no response exists and nothing is raised.
\<close>

theorem feed_eof_settles:
  assumes "feed_eof cd p = Inr q"
  shows "is_complete q \<or> p_buf q = []
    \<and> (p_state q = BODY \<longrightarrow> p_chunked q \<and> p_awaiting_chunk_size q \<and> \<not> p_in_trailers q)"
proof -
  have "ended q"
  proof -
    from assms obtain r t where r: "when_state STATUS parse_status_line (p\<lparr>p_eof := True\<rparr>) = Inr r"
      and t: "when_state HEADERS (parse_headers cd) r = Inr t" and q: "when_state BODY (parse_body cd) t = Inr q"
      by (auto simp: feed_eof_def parse_def and_then_Inr_iff)
    have re: "p_eof r \<and> (p_state r = STATUS \<longrightarrow> p_buf r = [])"
      using r by (auto simp: when_state_def parse_status_line_def Let_def split: if_splits option.splits)
    have te: "p_eof t \<and> (p_state t \<in> {STATUS, HEADERS} \<longrightarrow> p_buf t = [])"
      using t re headers_end by (cases "p_state r = HEADERS") (auto simp: when_state_def)
    show ?thesis
    proof (cases "p_state t = BODY")
      case True
      with q te parse_body_ended show ?thesis by (simp add: when_state_def)
    next
      case False
      with q te show ?thesis by (cases "p_state t") (auto simp: when_state_def ended_def quiet_def)
    qed
  qed
  then show ?thesis by (auto simp: ended_def quiet_def is_complete_def)
qed

text \<open>
  Once complete, a parser ignores whatever it is fed and told: the response stays, bytes
  that arrive only pile up behind what the response left over.
\<close>

theorem complete_is_final:
  assumes "is_complete p"
  shows "feed cd p data = Inr (p\<lparr>p_buf := p_buf p @ data\<rparr>) \<and> feed_eof cd p = Inr (p\<lparr>p_eof := True\<rparr>)"
  using complete_feed [OF assms] assms by (simp add: feed_eof_def parse_def when_state_def is_complete_def)

text \<open>
  A Content-Length that is not positive, a negative one included, is accepted: the response
  is complete with an empty body, and the bytes the server sent as its body stay in the buffer.
\<close>

theorem negative_length_accepted:
  assumes "head_ok w" "\<not> says_chunked w" "\<not> bodiless w"
    and "get_header (headers_init (h_lines w)) ''Content-Length'' = Some cl"
    and "py_int 10 is_str_space (str_strip cl) = Some n" "n \<le> 0"
    and "concat chunks = render_head w @ body"
  shows "\<exists>q. feed_list (feed cd) new_parser chunks = Inr q \<and> delivers q w [] body"
proof -
  let ?p = "(after_head w body)\<lparr>p_content_length := Some n\<rparr>"
  have "resolve_framing (after_head w body) = Inr ?p"
    using assms(2-5) by (simp add: resolve_framing_after_head)
  moreover have "parse_body cd (?p\<lparr>p_state := BODY\<rparr>) = finalize cd (?p\<lparr>p_state := BODY\<rparr>)"
    using assms(6) by (simp add: parse_body_def parse_fixed_length_def after_head_def new_parser_def)
  moreover have "decompress cd (headers_init (h_lines w)) [] = Inr []"
    by (simp add: decompress_def split: option.split)
  from finalize_delivers [OF this, of "?p\<lparr>p_state := BODY\<rparr>" body]
  obtain q where "finalize cd (?p\<lparr>p_state := BODY\<rparr>) = Inr q" "delivers q w [] body" "p_state q = DONE"
    by (auto simp: after_head_def new_parser_def)
  ultimately show ?thesis
    using feed_head_done [OF assms(1) _ _ _ assms(7)] by auto
qed

text \<open>
  A 1xx, 204 or 304 response with a chunked Transfer-Encoding is not complete after its
  head: it waits for chunks that such a response does not have.
\<close>

theorem chunked_bodiless_waits:
  assumes "head_ok w" "says_chunked w" "bodiless w" "concat chunks = render_head w"
  shows "\<exists>p. feed_list (feed cd) new_parser chunks = Inr p \<and> \<not> is_complete p"
proof -
  let ?p = "(after_head w [])\<lparr>p_chunked := True\<rparr>"
  let ?q = "?p\<lparr>p_state := BODY\<rparr>"
  have "resolve_framing (after_head w []) = Inr ?p"
    using assms(2) by (simp add: resolve_framing_after_head)
  moreover have "chunk_turn cd ?q = Stop (Inr ?q)"
    by (simp add: chunk_turn_def chunk_size_block_def after_head_def new_parser_def)
  then have "parse_body cd ?q = Inr ?q"
    by (simp add: parse_body_def parse_chunked.simps [of cd ?q])
  ultimately have "feed_list (feed cd) new_parser chunks = Inr ?q"
    using feed_head_waits [OF assms(1)] assms(4) by simp
  then show ?thesis by (simp add: is_complete_def)
qed

section \<open>The properties at concrete runs\<close>

definition no_content :: bytes where
  "no_content = ''HTTP/1.1 204 No Content'' @ crlf @ crlf"

lemma reached_parser_inv_witness:
  "let p = left_by (feed demo_codec new_parser no_content) in
     parser_inv p \<and> is_complete p \<and> p_response p \<noteq> None"
proof -
  let ?p = "left_by (feed demo_codec new_parser no_content)"
  have "is_complete ?p" by code_simp
  then show ?thesis
    using reached_parser_inv [OF reached_feed [OF reached_new, of demo_codec no_content]] by simp
qed

text \<open>A codec for which every compressed stream is cut short.\<close>

definition cut_codec :: codec where
  "cut_codec = \<lparr>gzip_decompress = \<lambda>b. Inl EOFError, zlib_decompress = \<lambda>b. Inl ZlibError,
     raw_decompress = \<lambda>b. Inl ZlibError\<rparr>"

definition gzip_head :: bytes where
  "gzip_head = ''HTTP/1.1 200 OK'' @ crlf @ ''Content-Encoding: gzip'' @ crlf @ ''Content-Length: 3'' @ crlf @ crlf"

lemma reached_raises_ok_witness:
  "let p = left_by (feed cut_codec new_parser gzip_head) in
     raises_ok (feed cut_codec p ''zip'')
     \<and> (case feed cut_codec p ''zip'' of Inl (e, q) \<Rightarrow> e = CodecRaised EOFError | Inr q \<Rightarrow> False)"
proof -
  let ?p = "left_by (feed cut_codec new_parser gzip_head)"
  have "case feed cut_codec ?p ''zip'' of Inl (e, q) \<Rightarrow> e = CodecRaised EOFError | Inr q \<Rightarrow> False"
    by code_simp
  then show ?thesis
    using reached_raises_ok [OF reached_feed [OF reached_new, of cut_codec gzip_head], of "''zip''"]
    by (simp only: Let_def simp_thms)
qed

definition one_chunk :: bytes where
  "one_chunk = ''HTTP/1.1 200 OK'' @ crlf @ ''Transfer-Encoding: chunked'' @ crlf @ crlf
     @ ''2'' @ crlf @ ''ab'' @ crlf"

lemma feed_eof_settles_witness:
  "\<exists>q. feed_eof demo_codec (left_by (feed demo_codec new_parser one_chunk)) = Inr q
     \<and> \<not> is_complete q \<and> p_buf q = []"
proof -
  let ?r = "feed_eof demo_codec (left_by (feed demo_codec new_parser one_chunk))"
  have "case ?r of Inr q \<Rightarrow> \<not> is_complete q | Inl e \<Rightarrow> False" by code_simp
  then obtain q where q: "?r = Inr q" "\<not> is_complete q" by (cases ?r) auto
  with feed_eof_settles [OF q(1)] show ?thesis by blast
qed

lemma complete_is_final_witness:
  "let p = left_by (feed demo_codec new_parser no_content) in
     feed demo_codec p ''HTTP'' = Inr (p\<lparr>p_buf := p_buf p @ ''HTTP''\<rparr>)"
proof -
  have "is_complete (left_by (feed demo_codec new_parser no_content))" by code_simp
  then show ?thesis using complete_is_final by (simp only: Let_def)
qed

lemma negative_length_accepted_witness:
  "\<exists>q. feed_list (feed demo_codec) new_parser
      [''HTTP/1.1 200 OK'' @ crlf @ ''Content-Length: -3'' @ crlf, crlf @ ''abc''] = Inr q
    \<and> delivers q (demo_head 200 [(''Content-Length'', ''-3'')]) [] ''abc''"
proof -
  let ?w = "demo_head 200 [(''Content-Length'', ''-3'')]"
  have "head_ok ?w" "\<not> says_chunked ?w" "\<not> bodiless ?w"
    "get_header (headers_init (h_lines ?w)) ''Content-Length'' = Some ''-3''"
    "py_int 10 is_str_space (str_strip ''-3'') = Some (-3)" "- 3 \<le> (0::int)"
    "concat [''HTTP/1.1 200 OK'' @ crlf @ ''Content-Length: -3'' @ crlf, crlf @ ''abc''] = render_head ?w @ ''abc''"
    by code_simp+
  then show ?thesis by (rule negative_length_accepted)
qed

lemma chunked_bodiless_waits_witness:
  "\<exists>p. feed_list (feed demo_codec) new_parser
      [''HTTP/1.1 204 OK'' @ crlf @ ''Transfer-Encoding: chunked'' @ crlf @ crlf] = Inr p \<and> \<not> is_complete p"
proof -
  let ?w = "demo_head 204 [(''Transfer-Encoding'', ''chunked'')]"
  have "head_ok ?w" "says_chunked ?w" "bodiless ?w"
    "concat [''HTTP/1.1 204 OK'' @ crlf @ ''Transfer-Encoding: chunked'' @ crlf @ crlf] = render_head ?w"
    by code_simp+
  then show ?thesis by (rule chunked_bodiless_waits)
qed

end
