(* ===== verification/Py_Url.thy ===== *)
theory Py_Url
  imports Py_Text
begin

text \<open>
  The part of \<open>urllib.parse\<close> that fizzpy uses, for URLs of Latin-1 text: \<open>urlsplit\<close> with the
  \<open>hostname\<close> and \<open>port\<close> of its result, \<open>urljoin\<close>, and the check of a bracketed host by
  \<open>ipaddress\<close>. Exceptions are values of \<open>url_error\<close>. The NFKC check of a network location
  needs no model: no Latin-1 character has a compatibility decomposition that contains one of
  the characters it looks for.
\<close>

section \<open>Cutting text\<close>

text \<open>\<open>s.partition(c)\<close>: before and after the first \<open>c\<close>; the flag \<open>c in s\<close> is used where it matters.\<close>

definition before :: "char \<Rightarrow> latin \<Rightarrow> latin" where
  "before c s = takeWhile (\<lambda>x. x \<noteq> c) s"

definition after :: "char \<Rightarrow> latin \<Rightarrow> latin" where
  "after c s = drop 1 (dropWhile (\<lambda>x. x \<noteq> c) s)"

text \<open>\<open>s.rpartition(c)[2]\<close>: what follows the last \<open>c\<close>, or all of \<open>s\<close>.\<close>

definition after_last :: "char \<Rightarrow> latin \<Rightarrow> latin" where
  "after_last c s = rev (takeWhile (\<lambda>x. x \<noteq> c) (rev s))"

definition is_ascii_alpha :: "char \<Rightarrow> bool" where
  "is_ascii_alpha c \<longleftrightarrow> (let n = (of_char c :: nat) in 65 \<le> n \<and> n \<le> 90 \<or> 97 \<le> n \<and> n \<le> 122)"

definition is_ascii_digit :: "char \<Rightarrow> bool" where
  "is_ascii_digit c \<longleftrightarrow> (let n = (of_char c :: nat) in 48 \<le> n \<and> n \<le> 57)"

definition is_hex_digit :: "char \<Rightarrow> bool" where
  "is_hex_digit c \<longleftrightarrow> (case digit_val c of Some d \<Rightarrow> d < 16 | None \<Rightarrow> False)"

section \<open>Errors\<close>

text \<open>The \<open>ValueError\<close>s of the module, by message.\<close>

datatype url_error = InvalidIPv6Url | InvalidBracketedHost | PortNotInteger latin | PortOutOfRange

section \<open>Bracketed hosts\<close>

text \<open>\<open>ipaddress.IPv4Address\<close> accepts four decimal octets without leading zeros.\<close>

definition octet_ok :: "latin \<Rightarrow> bool" where
  "octet_ok s \<longleftrightarrow> s \<noteq> [] \<and> list_all is_ascii_digit s \<and> length s \<le> 3
     \<and> (s = ''0'' \<or> hd s \<noteq> CHR ''0'') \<and> (case py_int 10 is_str_space s of Some n \<Rightarrow> n \<le> 255 | None \<Rightarrow> False)"

definition ipv4_ok :: "latin \<Rightarrow> bool" where
  "ipv4_ok s \<longleftrightarrow> (let octets = py_split ''.'' s in length octets = 4 \<and> list_all octet_ok octets)"

definition hextet_ok :: "latin \<Rightarrow> bool" where
  "hextet_ok s \<longleftrightarrow> s \<noteq> [] \<and> length s \<le> 4 \<and> list_all is_hex_digit s"

text \<open>\<open>IPv6Address\<close>: eight groups, or fewer around one \<open>::\<close>; the last two may be an IPv4 address.\<close>

definition ipv6_groups :: "latin \<Rightarrow> latin list option" where
  "ipv6_groups s =
     (let parts = py_split '':'' s in
      if s = [] \<or> length parts < 3 then None
      else if CHR ''.'' \<in> set (last parts)
           then (if ipv4_ok (last parts) then Some (butlast parts @ [''0'', ''0'']) else None)
           else Some parts)"

definition ipv6_ok :: "latin \<Rightarrow> bool" where
  "ipv6_ok s =
     (let addr = before CHR ''%'' s; scope = after CHR ''%'' s in
      (CHR ''%'' \<in> set s \<longrightarrow> scope \<noteq> [] \<and> CHR ''%'' \<notin> set scope)
      \<and> (case ipv6_groups addr of
          None \<Rightarrow> False
        | Some parts \<Rightarrow>
            (let n = length parts; skips = filter (\<lambda>i. parts ! i = []) [1..<n - 1] in
             n \<le> 9 \<and>
             (case skips of
                [] \<Rightarrow> n = 8 \<and> list_all hextet_ok parts
              | [k] \<Rightarrow>
                  (let hi = take k parts; lo = drop (k + 1) parts;
                       hi' = (if hd parts = [] then tl hi else hi);
                       lo' = (if last parts = [] then butlast lo else lo) in
                   (hd parts = [] \<longrightarrow> hi' = []) \<and> (last parts = [] \<longrightarrow> lo' = [])
                   \<and> length hi' + length lo' < 8 \<and> list_all hextet_ok hi' \<and> list_all hextet_ok lo')
              | _ \<Rightarrow> False))))"

text \<open>\<^verbatim>\<open>\Av[a-fA-F0-9]+\..+\Z\<close>, where the dot does not match a line feed.\<close>

definition ipvfuture_ok :: "latin \<Rightarrow> bool" where
  "ipvfuture_ok s \<longleftrightarrow> (let t = drop 1 s; hex = takeWhile is_hex_digit t; rest = dropWhile is_hex_digit t in
     hex \<noteq> [] \<and> prefix ''.'' rest \<and> drop 1 rest \<noteq> [] \<and> LF \<notin> set (drop 1 rest))"

definition bracketed_host_ok :: "latin \<Rightarrow> bool" where
  "bracketed_host_ok h = (if prefix ''v'' h then ipvfuture_ok h else ipv6_ok h)"

section \<open>urlsplit\<close>

record split =
  sp_scheme :: latin
  sp_netloc :: latin
  sp_path :: latin
  sp_query :: latin
  sp_fragment :: latin

definition is_c0_or_space :: "char \<Rightarrow> bool" where
  "is_c0_or_space c \<longleftrightarrow> (of_char c :: nat) \<le> 32"

definition is_removed :: "char \<Rightarrow> bool" where
  "is_removed c \<longleftrightarrow> (of_char c :: nat) \<in> {9, 10, 13}"

definition is_scheme_char :: "char \<Rightarrow> bool" where
  "is_scheme_char c \<longleftrightarrow> is_ascii_alpha c \<or> is_ascii_digit c \<or> c \<in> {CHR ''+'', CHR ''-'', CHR ''.''}"

definition is_delim :: "char \<Rightarrow> bool" where
  "is_delim c \<longleftrightarrow> c \<in> {CHR ''/'', CHR ''?'', CHR ''#''}"

definition split_scheme :: "latin \<Rightarrow> latin \<Rightarrow> latin \<times> latin" where
  "split_scheme dflt url =
     (let s = before CHR '':'' url in
      if CHR '':'' \<in> set url \<and> s \<noteq> [] \<and> is_ascii_alpha (hd s) \<and> list_all is_scheme_char s
      then (lower s, after CHR '':'' url) else (dflt, url))"

definition netloc_error :: "latin \<Rightarrow> url_error option" where
  "netloc_error netloc =
     (if (CHR ''['' \<in> set netloc) \<noteq> (CHR '']'' \<in> set netloc) then Some InvalidIPv6Url
      else if CHR ''['' \<in> set netloc \<and> \<not> bracketed_host_ok (before CHR '']'' (after CHR ''['' netloc))
      then Some InvalidBracketedHost else None)"

definition split_path :: "latin \<Rightarrow> latin \<Rightarrow> latin \<Rightarrow> split" where
  "split_path scheme netloc url =
     (let path_query = before CHR ''#'' url in
      \<lparr>sp_scheme = scheme, sp_netloc = netloc, sp_path = before CHR ''?'' path_query,
       sp_query = after CHR ''?'' path_query, sp_fragment = after CHR ''#'' url\<rparr>)"

definition urlsplit :: "latin \<Rightarrow> latin \<Rightarrow> url_error + split" where
  "urlsplit dflt url =
     (let url = filter (\<lambda>c. \<not> is_removed c) (dropWhile is_c0_or_space url);
          (scheme, url) = split_scheme dflt url in
      if prefix ''//'' url then
        (let netloc = takeWhile (\<lambda>c. \<not> is_delim c) (drop 2 url);
             url = dropWhile (\<lambda>c. \<not> is_delim c) (drop 2 url) in
         case netloc_error netloc of
           Some e \<Rightarrow> Inl e
         | None \<Rightarrow> Inr (split_path scheme netloc url))
      else Inr (split_path scheme [] url))"

subsection \<open>hostname and port\<close>

definition hostinfo :: "split \<Rightarrow> latin \<times> latin" where
  "hostinfo sp =
     (let info = after_last CHR ''@'' (sp_netloc sp) in
      if CHR ''['' \<in> set info
      then (let bracketed = after CHR ''['' info in
            (before CHR '']'' bracketed, after CHR '':'' (after CHR '']'' bracketed)))
      else (before CHR '':'' info, after CHR '':'' info))"

definition hostname :: "split \<Rightarrow> latin option" where
  "hostname sp =
     (let h = fst (hostinfo sp) in
      if h = [] then None
      else Some (lower (before CHR ''%'' h) @ dropWhile (\<lambda>c. c \<noteq> CHR ''%'') h))"

text \<open>\<open>int\<close> of a string of ASCII digits fails only beyond its limit on the number of digits.\<close>

definition port :: "split \<Rightarrow> url_error + int option" where
  "port sp =
     (let p = snd (hostinfo sp) in
      if p = [] then Inr None
      else if list_all is_ascii_digit p then
        (case py_int 10 is_str_space p of
           None \<Rightarrow> Inl (PortNotInteger p)
         | Some n \<Rightarrow> if 0 \<le> n \<and> n \<le> 65535 then Inr (Some n) else Inl PortOutOfRange)
      else Inl (PortNotInteger p))"

section \<open>urljoin\<close>

definition uses_relative :: "latin list" where
  "uses_relative = [[], ''ftp'', ''http'', ''gopher'', ''nntp'', ''imap'', ''wais'', ''file'', ''https'',
     ''shttp'', ''mms'', ''prospero'', ''rtsp'', ''rtsps'', ''rtspu'', ''sftp'', ''svn'', ''svn+ssh'', ''ws'', ''wss'']"

definition uses_netloc :: "latin list" where
  "uses_netloc = [[], ''ftp'', ''http'', ''gopher'', ''nntp'', ''telnet'', ''imap'', ''wais'', ''file'', ''mms'',
     ''https'', ''shttp'', ''snews'', ''prospero'', ''rtsp'', ''rtsps'', ''rtspu'', ''rsync'', ''svn'', ''svn+ssh'',
     ''sftp'', ''nfs'', ''git'', ''git+ssh'', ''ws'', ''wss'']"

definition uses_params :: "latin list" where
  "uses_params = [[], ''ftp'', ''hdl'', ''prospero'', ''http'', ''imap'', ''https'', ''shttp'', ''rtsp'', ''rtsps'',
     ''rtspu'', ''sip'', ''sips'', ''mms'', ''sftp'', ''tel'']"

text \<open>\<open>_splitparams\<close>: the parameters follow the first semicolon of the last segment.\<close>

definition split_params :: "latin \<Rightarrow> latin \<times> latin" where
  "split_params url =
     (let seg = after_last CHR ''/'' url; keep = take (length url - length seg) url in
      if CHR '';'' \<in> set seg then (keep @ before CHR '';'' seg, after CHR '';'' seg) else (url, []))"

record parse_result = split +
  sp_params :: latin

definition urlparse :: "latin \<Rightarrow> latin \<Rightarrow> url_error + parse_result" where
  "urlparse dflt url =
     and_then (urlsplit dflt url) (\<lambda>sp.
       let (path, params) =
         (if sp_scheme sp \<in> set uses_params \<and> CHR '';'' \<in> set (sp_path sp)
          then split_params (sp_path sp) else (sp_path sp, [])) in
       Inr (split.extend (sp\<lparr>sp_path := path\<rparr>) \<lparr>sp_params = params\<rparr>))"

definition urlunsplit :: "latin \<Rightarrow> latin \<Rightarrow> latin \<Rightarrow> latin \<Rightarrow> latin \<Rightarrow> latin" where
  "urlunsplit scheme netloc url query fragment =
     (let url = (if netloc \<noteq> [] \<or> scheme \<noteq> [] \<and> scheme \<in> set uses_netloc \<or> prefix ''//'' url
                 then ''//'' @ netloc @ (if url \<noteq> [] \<and> \<not> prefix ''/'' url then ''/'' @ url else url)
                 else url);
          url = (if scheme \<noteq> [] then scheme @ '':'' @ url else url);
          url = (if query \<noteq> [] then url @ ''?'' @ query else url) in
      if fragment \<noteq> [] then url @ ''#'' @ fragment else url)"

definition urlunparse :: "latin \<Rightarrow> latin \<Rightarrow> latin \<Rightarrow> latin \<Rightarrow> latin \<Rightarrow> latin \<Rightarrow> latin" where
  "urlunparse scheme netloc url params query fragment =
     urlunsplit scheme netloc (if params \<noteq> [] then url @ '';'' @ params else url) query fragment"

text \<open>Dot segments: \<open>..\<close> pops a segment when there is one, \<open>.\<close> is dropped.\<close>

definition resolve_segment :: "latin list \<Rightarrow> latin \<Rightarrow> latin list" where
  "resolve_segment resolved seg =
     (if seg = ''..'' then butlast resolved else if seg = ''.'' then resolved else resolved @ [seg])"

definition merge_segments :: "latin \<Rightarrow> latin \<Rightarrow> latin list" where
  "merge_segments bpath path =
     (let parts = py_split ''/'' bpath;
          base_parts = (if last parts \<noteq> [] then butlast parts else parts) in
      if prefix ''/'' path then py_split ''/'' path
      else (let segs = base_parts @ py_split ''/'' path in
            if length segs \<le> 2 then segs
            else [hd segs] @ filter (\<lambda>s. s \<noteq> []) (butlast (tl segs)) @ [last segs]))"

definition join_path :: "latin \<Rightarrow> latin \<Rightarrow> latin" where
  "join_path bpath path =
     (let segs = merge_segments bpath path;
          resolved = foldl resolve_segment [] segs;
          resolved = (if last segs \<in> {''.'', ''..''} then resolved @ [[]] else resolved);
          joined = join_with ''/'' resolved in
      if joined = [] then ''/'' else joined)"

definition urljoin :: "latin \<Rightarrow> latin \<Rightarrow> url_error + latin" where
  "urljoin base url =
     (if base = [] then Inr url
      else if url = [] then Inr base
      else and_then (urlparse [] base) (\<lambda>b.
           and_then (urlparse (sp_scheme b) url) (\<lambda>u.
             if sp_scheme u \<noteq> sp_scheme b \<or> sp_scheme u \<notin> set uses_relative then Inr url
             else if sp_scheme u \<in> set uses_netloc \<and> sp_netloc u \<noteq> []
             then Inr (urlunparse (sp_scheme u) (sp_netloc u) (sp_path u) (sp_params u) (sp_query u) (sp_fragment u))
             else (let netloc = (if sp_scheme u \<in> set uses_netloc then sp_netloc b else sp_netloc u) in
               if sp_path u = [] \<and> sp_params u = []
               then Inr (urlunparse (sp_scheme u) netloc (sp_path b) (sp_params b)
                      (if sp_query u = [] then sp_query b else sp_query u) (sp_fragment u))
               else Inr (urlunparse (sp_scheme u) netloc (join_path (sp_path b) (sp_path u))
                      (sp_params u) (sp_query u) (sp_fragment u))))))"

section \<open>What the parts are made of\<close>

lemma set_before: "set (before c s) \<subseteq> set s"
  by (auto simp: before_def dest: set_takeWhileD)

lemma set_after: "set (after c s) \<subseteq> set s"
  by (auto simp: after_def dest!: in_set_dropD set_dropWhileD)

lemma set_after_last: "set (after_last c s) \<subseteq> set s"
  by (auto simp: after_last_def dest!: set_takeWhileD)

text \<open>The parts of a split URL are made of the URL's characters without the removed ones.\<close>

definition kept :: "latin \<Rightarrow> char set" where
  "kept url = {c \<in> set url. \<not> is_removed c}"

lemma split_scheme_url: "snd (split_scheme d url) = url \<or> snd (split_scheme d url) = after CHR '':'' url"
  by (simp add: split_scheme_def Let_def)

lemma split_path_slash:
  "r = [] \<or> is_delim (hd r) \<Longrightarrow> sp_path (split_path a b r) = [] \<or> hd (sp_path (split_path a b r)) = CHR ''/''"
  by (cases r) (auto simp: split_path_def before_def Let_def is_delim_def)

lemma urlsplit_shape:
  assumes "urlsplit [] url = Inr sp"
  shows "set (sp_netloc sp) \<subseteq> kept url" "set (sp_path sp) \<subseteq> kept url" "set (sp_query sp) \<subseteq> kept url"
    and "sp_netloc sp \<noteq> [] \<Longrightarrow> sp_path sp = [] \<or> hd (sp_path sp) = CHR ''/''"
proof -
  obtain scheme rest where s: "split_scheme [] (filter (\<lambda>c. \<not> is_removed c) (dropWhile is_c0_or_space url)) = (scheme, rest)"
    by fastforce
  have "set (dropWhile is_c0_or_space url) \<subseteq> set url" by (auto dest: set_dropWhileD)
  then have clean: "set (filter (\<lambda>c. \<not> is_removed c) (dropWhile is_c0_or_space url)) \<subseteq> kept url"
    by (auto simp: kept_def)
  with split_scheme_url [of "[]" "filter (\<lambda>c. \<not> is_removed c) (dropWhile is_c0_or_space url)"] s
  have rest: "set rest \<subseteq> kept url"
    using set_after [of "CHR '':''"] by (metis snd_conv subset_trans)
  have path: "set (sp_path (split_path a b r)) \<subseteq> set r" "set (sp_query (split_path a b r)) \<subseteq> set r" for a b r
    by (simp_all add: split_path_def Let_def subset_trans [OF set_before set_before]
        subset_trans [OF set_after set_before])
  let ?netloc = "takeWhile (\<lambda>c. \<not> is_delim c) (drop 2 rest)" and ?r = "dropWhile (\<lambda>c. \<not> is_delim c) (drop 2 rest)"
  have sub: "set ?netloc \<subseteq> set rest" "set ?r \<subseteq> set rest"
    by (auto dest!: set_takeWhileD set_dropWhileD in_set_dropD)
  have sp: "sp = (if prefix ''//'' rest then split_path scheme ?netloc ?r else split_path scheme [] rest)"
    using assms s by (auto simp: urlsplit_def Let_def split: if_splits option.splits)
  have netloc: "sp_netloc (split_path a b r) = b" for a b r by (simp add: split_path_def Let_def)
  have "set (sp_netloc sp) \<subseteq> set rest" "set (sp_path sp) \<subseteq> set rest" "set (sp_query sp) \<subseteq> set rest"
    unfolding sp using sub(1) path subset_trans [OF path(1) sub(2)] subset_trans [OF path(2) sub(2)]
    by (simp_all add: netloc)
  then show "set (sp_netloc sp) \<subseteq> kept url" "set (sp_path sp) \<subseteq> kept url" "set (sp_query sp) \<subseteq> kept url"
    using rest by blast+
  show "sp_path sp = [] \<or> hd (sp_path sp) = CHR ''/''" if "sp_netloc sp \<noteq> []"
  proof -
    have "sp = split_path scheme ?netloc ?r"
      using that unfolding sp by (cases "prefix ''//'' rest") (simp_all add: netloc)
    moreover have "?r = [] \<or> is_delim (hd ?r)" by (metis (mono_tags) hd_dropWhile)
    ultimately show ?thesis using split_path_slash [of ?r scheme ?netloc] by simp
  qed
qed

lemma lower_char_removed: "is_removed (lower_char c) \<longleftrightarrow> is_removed c"
  by (auto simp: is_removed_def of_char_lower_char Let_def)

end
