(* ===== verification/Common.thy ===== *)
theory Common
  imports Complex_Main Http_Request Http_Headers Py_Url
begin

text \<open>
  The plumbing both clients share, \<open>fizzpy/_common.py\<close>: timeouts in native milliseconds, the
  validation of custom ClientHello extensions, redirects, and the parsing of request URLs.
  URLs are Latin-1 text, methods and request headers arbitrary strings.
\<close>

section \<open>Timeouts\<close>

text \<open>
  A Python float. The product of a finite float and 1000 is rounded to a float: that is the
  parameter \<open>mul\<close>, and no bound on the result depends on how it rounds.
\<close>

datatype pyfloat = Fin rat | Inf | NegInf | NaN

datatype float_error = OverflowError | ValueErrorNaN

abbreviation DEFAULT_TIMEOUT_MS :: int where "DEFAULT_TIMEOUT_MS \<equiv> 30000"
abbreviation DEFAULT_MAX_REDIRECTS :: int where "DEFAULT_MAX_REDIRECTS \<equiv> 10"
abbreviation MAX_TIMEOUT_MS :: int where "MAX_TIMEOUT_MS \<equiv> 0xFFFFFFFF"

fun not_positive :: "pyfloat \<Rightarrow> bool" where
  "not_positive (Fin r) \<longleftrightarrow> r \<le> 0"
| "not_positive NegInf \<longleftrightarrow> True"
| "not_positive Inf \<longleftrightarrow> False"
| "not_positive NaN \<longleftrightarrow> False"

fun times_1000 :: "(rat \<Rightarrow> pyfloat) \<Rightarrow> pyfloat \<Rightarrow> pyfloat" where
  "times_1000 mul (Fin r) = mul r"
| "times_1000 mul f = f"

fun math_ceil :: "pyfloat \<Rightarrow> float_error + int" where
  "math_ceil (Fin r) = Inr \<lceil>r\<rceil>"
| "math_ceil NaN = Inl ValueErrorNaN"
| "math_ceil Inf = Inl OverflowError"
| "math_ceil NegInf = Inl OverflowError"

definition timeout_to_ms :: "(rat \<Rightarrow> pyfloat) \<Rightarrow> pyfloat option \<Rightarrow> float_error + int" where
  "timeout_to_ms mul timeout =
     (case timeout of
        None \<Rightarrow> Inr 0
      | Some t \<Rightarrow>
          if not_positive t then Inr 1
          else and_then (math_ceil (times_1000 mul t)) (\<lambda>ms. Inr (min MAX_TIMEOUT_MS (max 1 ms))))"

section \<open>What other packages provide\<close>

text \<open>
  The CA bundle: that of certifi, or none when importing certifi or asking it raises anything;
  the argument is what that gave. Whether the build has ML-KEM is what the core says.
\<close>

definition default_ca_file :: "'e + latin \<Rightarrow> latin" where
  "default_ca_file certifi_where = (case certifi_where of Inl e \<Rightarrow> [] | Inr path \<Rightarrow> path)"

definition supports_post_quantum :: "bool \<Rightarrow> bool" where
  "supports_post_quantum core_pq_supported = core_pq_supported"

section \<open>ClientHello extensions\<close>

definition FIZZ_MANAGED_EXTENSIONS :: "int list" where
  "FIZZ_MANAGED_EXTENSIONS = [0, 10, 13, 16, 41, 42, 43, 44, 45, 47, 50, 51, 0xFE0D]"

datatype extension_error =
    TypeOutOfRange int
  | DataTooLong int nat
  | ManagedByFizz int
  | DuplicateType int

text \<open>The loop over the extensions; \<open>seen\<close> are the types so far.\<close>

fun check_extensions :: "int list \<Rightarrow> (int \<times> bytes) list \<Rightarrow> extension_error + (int \<times> bytes) list" where
  "check_extensions seen [] = Inr []"
| "check_extensions seen ((etype, data) # items) =
     (if \<not> (0 \<le> etype \<and> etype \<le> 0xFFFF) then Inl (TypeOutOfRange etype)
      else if 0xFFFF < length data then Inl (DataTooLong etype (length data))
      else if etype \<in> set FIZZ_MANAGED_EXTENSIONS then Inl (ManagedByFizz etype)
      else if etype \<in> set seen then Inl (DuplicateType etype)
      else and_then (check_extensions (etype # seen) items) (\<lambda>out. Inr ((etype, data) # out)))"

definition normalize_extensions :: "(int \<times> bytes) list option \<Rightarrow> extension_error + (int \<times> bytes) list" where
  "normalize_extensions extensions =
     (case extensions of None \<Rightarrow> Inr [] | Some items \<Rightarrow> check_extensions [] items)"

section \<open>Redirects\<close>

text \<open>
  \<open>str.upper()\<close>: three characters of Latin-1 have capitals outside it or of two letters; code
  points beyond Latin-1 are the parameter \<open>up\<close>.
\<close>

definition upper_char :: "char \<Rightarrow> ustr" where
  "upper_char c =
     (let n = (of_char c :: nat) in
      if 97 \<le> n \<and> n \<le> 122 \<or> 224 \<le> n \<and> n \<le> 254 \<and> n \<noteq> 247 then [Latin (char_of (n - 32))]
      else if n = 223 then lit ''SS''
      else if n = 255 then [Beyond (0x178 - 256)]
      else if n = 181 then [Beyond (0x39C - 256)]
      else [Latin c])"

definition ustr_upper :: "(nat \<Rightarrow> ustr) \<Rightarrow> ustr \<Rightarrow> ustr" where
  "ustr_upper up s = concat (map (\<lambda>c. case c of Latin x \<Rightarrow> upper_char x | Beyond n \<Rightarrow> up n) s)"

definition REDIRECT_CODES :: "int list" where
  "REDIRECT_CODES = [301, 302, 303, 307, 308]"

definition next_redirect ::
    "(nat \<Rightarrow> ustr) \<Rightarrow> ustr \<Rightarrow> latin \<Rightarrow> int \<Rightarrow> latin option \<Rightarrow> url_error + (ustr \<times> latin) option" where
  "next_redirect up method url status location =
     (if status \<notin> set REDIRECT_CODES then Inr None
      else case location of
          None \<Rightarrow> Inr None
        | Some loc \<Rightarrow>
            if loc = [] then Inr None
            else and_then (urljoin url loc) (\<lambda>target.
              let method = ustr_upper up method in
              Inr (Some (if status = 303 \<and> method \<noteq> lit ''HEAD'' \<or> status \<in> {301, 302} \<and> method = lit ''POST''
                         then lit ''GET'' else method, target))))"

definition body_headers :: "latin list" where
  "body_headers = [''content-length'', ''content-type'', ''transfer-encoding'']"

definition strip_body_headers ::
    "(ustr \<Rightarrow> ustr) \<Rightarrow> (ustr, ustr) dict option \<Rightarrow> (ustr, ustr) dict option" where
  "strip_body_headers other headers =
     (case headers of
        None \<Rightarrow> None
      | Some h \<Rightarrow> if h = [] then None
          else Some (filter (\<lambda>(k, v). ustr_lower other k \<notin> lit ` set body_headers) h))"

section \<open>Request URLs\<close>

record target =
  t_host :: latin
  t_port :: int
  t_path :: latin

datatype target_error = UrlError url_error | NotHttps latin | NoHost latin

definition parse_url :: "latin \<Rightarrow> target_error + target" where
  "parse_url url =
     (case urlsplit [] url of
        Inl e \<Rightarrow> Inl (UrlError e)
      | Inr parts \<Rightarrow>
          if sp_scheme parts \<noteq> ''https'' then Inl (NotHttps (sp_scheme parts))
          else case hostname parts of
              None \<Rightarrow> Inl (NoHost url)
            | Some host \<Rightarrow>
                if host = [] then Inl (NoHost url)
                else let path = (if sp_path parts \<noteq> [] then sp_path parts else ''/'');
                         path = (if sp_query parts \<noteq> [] then path @ ''?'' @ sp_query parts else path) in
                     (case port parts of
                        Inl e \<Rightarrow> Inl (UrlError e)
                      | Inr p \<Rightarrow> Inr \<lparr>t_host = host,
                          t_port = (case p of Some n \<Rightarrow> if n = 0 then 443 else n | None \<Rightarrow> 443),
                          t_path = path\<rparr>))"

section \<open>Properties\<close>

text \<open>
  C38: a converted timeout fits the native unsigned 32-bit deadline, and it is 0, which there
  means no deadline, exactly for \<open>None\<close>: no float, however small or negative, is read as infinite.
\<close>

theorem timeout_bounds:
  assumes "timeout_to_ms mul timeout = Inr ms"
  shows "0 \<le> ms \<and> ms < 2 ^ 32 \<and> (ms = 0 \<longleftrightarrow> timeout = None)"
  using assms by (auto simp: timeout_to_ms_def and_then_Inr_iff split: option.splits if_splits)

lemma timeout_bounds_witness:
  "(0::int) \<le> 1 \<and> (1::int) < 2 ^ 32 \<and> ((1::int) = 0 \<longleftrightarrow> Some (Fin (1 / 10000)) = None)"
  by (rule timeout_bounds [of "\<lambda>r. Fin (r * 1000)"])
    (simp add: timeout_to_ms_def ceiling_eq_iff)

text \<open>
  A positive timeout whose product with 1000 is exact and within the native range is never
  shortened, and lengthened by less than a millisecond.
\<close>

theorem timeout_rounds_up:
  assumes "0 < s" "mul s = Fin (s * 1000)" "s * 1000 \<le> of_int MAX_TIMEOUT_MS"
  shows "\<exists>ms. timeout_to_ms mul (Some (Fin s)) = Inr ms \<and> s * 1000 \<le> of_int ms \<and> of_int ms < s * 1000 + 1"
proof -
  have "1 \<le> \<lceil>s * 1000\<rceil>" using assms(1) by (simp add: less_ceiling_iff int_one_le_iff_zero_less)
  moreover have "\<lceil>s * 1000\<rceil> \<le> MAX_TIMEOUT_MS" using assms(3) by (simp only: ceiling_le_iff)
  ultimately have "timeout_to_ms mul (Some (Fin s)) = Inr \<lceil>s * 1000\<rceil>"
    using assms(1,2) by (simp add: timeout_to_ms_def)
  moreover have "of_int \<lceil>s * 1000\<rceil> < s * 1000 + 1" by linarith
  ultimately show ?thesis using le_of_int_ceiling by blast
qed

lemma timeout_rounds_up_witness:
  "\<exists>ms. timeout_to_ms (\<lambda>r. Fin (r * 1000)) (Some (Fin (5 / 2))) = Inr ms
    \<and> (5 / 2 :: rat) * 1000 \<le> of_int ms \<and> of_int ms < (5 / 2 :: rat) * 1000 + 1"
  by (rule timeout_rounds_up) simp_all

text \<open>An infinite timeout is not clamped: it raises, and so does an overflowing product.\<close>

lemma infinite_timeout_raises:
  "timeout_to_ms mul (Some Inf) = Inl OverflowError"
  "0 < s \<Longrightarrow> mul s = Inf \<Longrightarrow> timeout_to_ms mul (Some (Fin s)) = Inl OverflowError"
  by (simp_all add: timeout_to_ms_def)

subsection \<open>Extensions\<close>

text \<open>What Fizz can be handed: the specification of a valid list of extensions.\<close>

definition extension_ok :: "int \<times> bytes \<Rightarrow> bool" where
  "extension_ok = (\<lambda>(etype, data). 0 \<le> etype \<and> etype \<le> 0xFFFF \<and> length data \<le> 0xFFFF
     \<and> etype \<notin> set FIZZ_MANAGED_EXTENSIONS)"

fun offends :: "extension_error \<Rightarrow> (int \<times> bytes) list \<Rightarrow> int \<times> bytes \<Rightarrow> bool" where
  "offends (TypeOutOfRange t) earlier item \<longleftrightarrow> t = fst item \<and> (t < 0 \<or> 0xFFFF < t)"
| "offends (DataTooLong t n) earlier item \<longleftrightarrow> t = fst item \<and> n = length (snd item) \<and> 0xFFFF < n"
| "offends (ManagedByFizz t) earlier item \<longleftrightarrow> t = fst item \<and> t \<in> set FIZZ_MANAGED_EXTENSIONS"
| "offends (DuplicateType t) earlier item \<longleftrightarrow> t = fst item \<and> t \<in> fst ` set earlier"

lemma check_extensions_Inr:
  "check_extensions seen items = Inr out \<longleftrightarrow>
     out = items \<and> list_all extension_ok items \<and> distinct (map fst items) \<and> set seen \<inter> fst ` set items = {}"
proof (induction seen items arbitrary: out rule: check_extensions.induct)
  case (1 seen)
  then show ?case by auto
next
  case (2 seen etype data items)
  show ?case
  proof (cases "extension_ok (etype, data) \<and> etype \<notin> set seen")
    case True
    then have "check_extensions seen ((etype, data) # items) =
        and_then (check_extensions (etype # seen) items) (\<lambda>out. Inr ((etype, data) # out))"
      by (simp add: extension_ok_def)
    moreover have "check_extensions (etype # seen) items = Inr out' \<longleftrightarrow>
        out' = items \<and> list_all extension_ok items \<and> distinct (map fst items)
        \<and> set (etype # seen) \<inter> fst ` set items = {}" for out'
      using True by (intro 2) (simp_all add: extension_ok_def not_less)
    ultimately show ?thesis using True by (auto simp: and_then_Inr_iff)
  next
    case False
    then show ?thesis by (auto simp: extension_ok_def)
  qed
qed

lemma check_extensions_Inl:
  "check_extensions seen items = Inl e \<Longrightarrow>
     \<exists>earlier item later. items = earlier @ item # later \<and> list_all extension_ok earlier
       \<and> distinct (map fst earlier) \<and> set seen \<inter> fst ` set earlier = {}
       \<and> (offends e earlier item \<or> (\<exists>t. e = DuplicateType t \<and> t = fst item \<and> t \<in> set seen))"
proof (induction seen items rule: check_extensions.induct)
  case (1 seen)
  then show ?case by simp
next
  case (2 seen etype data items)
  show ?case
  proof (cases "extension_ok (etype, data) \<and> etype \<notin> set seen")
    case True
    with "2.prems" have "check_extensions (etype # seen) items = Inl e"
      by (auto simp: extension_ok_def and_then_Inl_iff split: if_splits)
    moreover have "0 \<le> etype \<and> etype \<le> 0xFFFF" "\<not> 0xFFFF < length data"
      "etype \<notin> set FIZZ_MANAGED_EXTENSIONS" using True by (auto simp: extension_ok_def)
    ultimately obtain earlier item later where "items = earlier @ item # later" "list_all extension_ok earlier"
      "distinct (map fst earlier)" "set (etype # seen) \<inter> fst ` set earlier = {}"
      "offends e earlier item \<or> (\<exists>t. e = DuplicateType t \<and> t = fst item \<and> t \<in> set (etype # seen))"
      using "2.IH" True by blast
    with True show ?thesis
      by (intro exI [of _ "(etype, data) # earlier"] exI [of _ item] exI [of _ later]) (cases e; auto)
  next
    case False
    with "2.prems" show ?thesis
      by (intro exI [of _ "[]"] exI [of _ "(etype, data)"] exI [of _ items])
        (auto simp: extension_ok_def split: if_splits)
  qed
qed

text \<open>
  Extensions are accepted exactly when every type fits 16 bits and is not managed by Fizz,
  every payload fits 16 bits of length and no type occurs twice, and they are then passed on as
  they are, in order.
\<close>

theorem normalize_extensions_accepts:
  "normalize_extensions (Some items) = Inr out \<longleftrightarrow>
     out = items \<and> list_all extension_ok items \<and> distinct (map fst items)"
  by (simp add: normalize_extensions_def check_extensions_Inr)

text \<open>
  A refusal names the first offender: the extensions before it are all valid, and it has the
  fault that the error names.
\<close>

theorem normalize_extensions_names_offender:
  assumes "normalize_extensions (Some items) = Inl e"
  shows "\<exists>earlier item later. items = earlier @ item # later \<and> list_all extension_ok earlier
    \<and> distinct (map fst earlier) \<and> offends e earlier item"
  using check_extensions_Inl [of "[]" items e] assms by (auto simp: normalize_extensions_def)

lemma normalize_extensions_names_offender_witness:
  "\<exists>earlier item later. [(21, ''x''), (16, []), (99999, [])] = earlier @ item # later
    \<and> list_all extension_ok earlier \<and> distinct (map fst earlier) \<and> offends (ManagedByFizz 16) earlier item"
  by (rule normalize_extensions_names_offender)
    (simp add: normalize_extensions_def FIZZ_MANAGED_EXTENSIONS_def)

subsection \<open>Redirects\<close>

text \<open>
  What a redirect does to the method: it asks for a follow-up only for the five codes and a
  non-empty Location; 307 and 308 keep the method, 303 turns everything but HEAD into GET, 301
  and 302 turn only POST into GET. The URL is the Location resolved against the request's URL.
\<close>

theorem next_redirect_method:
  assumes "next_redirect up method url status location = Inr (Some (method', url'))"
  shows "status \<in> {301, 302, 303, 307, 308}
    \<and> (\<exists>loc. location = Some loc \<and> loc \<noteq> [] \<and> urljoin url loc = Inr url')
    \<and> (status \<in> {307, 308} \<longrightarrow> method' = ustr_upper up method)
    \<and> (status = 303 \<longrightarrow> method' = (if ustr_upper up method = lit ''HEAD'' then lit ''HEAD'' else lit ''GET''))
    \<and> (status \<in> {301, 302} \<longrightarrow>
        method' = (if ustr_upper up method = lit ''POST'' then lit ''GET'' else ustr_upper up method))"
  using assms
  by (auto simp: next_redirect_def REDIRECT_CODES_def and_then_Inr_iff Let_def split: if_splits option.splits)

lemma next_redirect_method_witness:
  "(303::int) \<in> {301, 302, 303, 307, 308} \<and> urljoin ''https://h/a/b'' ''../c?d'' = Inr ''https://h/c?d''"
proof -
  have "next_redirect (\<lambda>n. []) (lit ''post'') ''https://h/a/b'' 303 (Some ''../c?d'') =
      Inr (Some (lit ''GET'', ''https://h/c?d''))"
    by code_simp
  from next_redirect_method [OF this] show ?thesis by blast
qed

text \<open>
  A body is described by three headers, and a downgrade to GET drops exactly these, in any
  casing, and keeps the others in their order.
\<close>

theorem strip_body_headers_drops:
  assumes "strip_body_headers other (Some (latin_dict hs)) = Some rest"
  shows "rest = latin_dict (filter (\<lambda>(k, v). lower k \<notin> set body_headers) hs)"
proof -
  have "(lit k \<in> lit ` S) = (k \<in> S)" for k S by auto
  then show ?thesis
    using assms
    by (simp add: strip_body_headers_def latin_dict_def filter_map comp_def case_prod_unfold split: if_splits)
qed

lemma strip_body_headers_drops_witness:
  "strip_body_headers (\<lambda>s. s) (Some (latin_dict [(''Accept'', ''a''), (''CONTENT-Type'', ''b'')])) =
     Some (latin_dict [(''Accept'', ''a'')])
   \<and> latin_dict [(''Accept'', ''a'')] =
     latin_dict (filter (\<lambda>(k, v). lower k \<notin> set body_headers) [(''Accept'', ''a''), (''CONTENT-Type'', ''b'')])"
proof -
  have "strip_body_headers (\<lambda>s. s) (Some (latin_dict [(''Accept'', ''a''), (''CONTENT-Type'', ''b'')])) =
     Some (latin_dict [(''Accept'', ''a'')])"
    by code_simp
  with strip_body_headers_drops [OF this] show ?thesis by simp
qed

subsection \<open>URLs\<close>

text \<open>
  C26: a URL that is accepted gives a target that can be dialled and put on a request line: a
  non-empty host, a port from 1 to 65535, a path with its leading slash, and no tab, carriage
  return or line feed anywhere, so that a URL cannot add lines to the request.
\<close>

theorem parse_url_target:
  assumes "parse_url url = Inr t"
  shows "t_host t \<noteq> [] \<and> 1 \<le> t_port t \<and> t_port t \<le> 65535 \<and> prefix ''/'' (t_path t)
    \<and> list_all (\<lambda>c. c \<noteq> CHR 0x09 \<and> c \<noteq> CR \<and> c \<noteq> LF) (t_host t @ t_path t)"
proof -
  from assms obtain sp host p where sp: "urlsplit [] url = Inr sp" and host: "hostname sp = Some host" "host \<noteq> []"
    and port: "port sp = Inr p" and t: "t = \<lparr>t_host = host,
      t_port = (case p of Some n \<Rightarrow> if n = 0 then 443 else n | None \<Rightarrow> 443),
      t_path = (if sp_path sp \<noteq> [] then sp_path sp else ''/'')
        @ (if sp_query sp \<noteq> [] then ''?'' @ sp_query sp else [])\<rparr>"
    by (auto simp: parse_url_def Let_def split: sum.splits option.splits if_splits)
  note shape = urlsplit_shape [OF sp]
  define h where "h = fst (hostinfo sp)"
  have hset: "set h \<subseteq> set (sp_netloc sp)"
  proof -
    have "set h \<subseteq> set (after_last CHR ''@'' (sp_netloc sp))"
      unfolding h_def hostinfo_def Let_def
      by (simp add: set_before subset_trans [OF set_before set_after])
    then show ?thesis using set_after_last by blast
  qed
  have hd: "host = lower (before CHR ''%'' h) @ dropWhile (\<lambda>c. c \<noteq> CHR ''%'') h" "h \<noteq> []"
    using host(1) by (auto simp: hostname_def h_def Let_def split: if_splits)
  have "sp_netloc sp \<noteq> []" using hd(2) hset by auto
  then have "prefix ''/'' (t_path t)"
    using shape(4) t by (cases "sp_path sp") auto
  moreover have rm: "is_removed CR" "is_removed LF" "is_removed (CHR 0x09)" by (simp_all add: is_removed_def)
  moreover have "\<not> is_removed c" if "c \<in> set (t_host t)" for c
  proof -
    have "set host \<subseteq> lower_char ` set h \<union> set h"
      using set_before [of "CHR ''%''" h] by (auto simp: hd(1) lower_def dest!: set_dropWhileD)
    with that t hset shape(1) show ?thesis
      using lower_char_removed by (fastforce simp: kept_def)
  qed
  moreover have "\<not> is_removed c" if "c \<in> set (t_path t)" for c
    using that t shape(2,3) by (auto simp: kept_def is_removed_def split: if_splits)
  ultimately have "list_all (\<lambda>c. c \<noteq> CHR 0x09 \<and> c \<noteq> CR \<and> c \<noteq> LF) (t_host t @ t_path t)"
    using rm by (auto simp: list_all_iff)
  moreover have "1 \<le> t_port t \<and> t_port t \<le> 65535"
    using port t by (auto simp: port_def Let_def split: if_splits option.splits)
  ultimately show ?thesis
    using host(2) t \<open>prefix ''/'' (t_path t)\<close> by simp
qed

lemma parse_url_target_witness:
  "prefix ''/'' ''/?q=1'' \<and> parse_url ''https://u@H:0?q=1#f'' = Inr \<lparr>t_host = ''h'', t_port = 443, t_path = ''/?q=1''\<rparr>"
proof -
  have "parse_url ''https://u@H:0?q=1#f'' = Inr \<lparr>t_host = ''h'', t_port = 443, t_path = ''/?q=1''\<rparr>" by code_simp
  with parse_url_target [OF this] show ?thesis by simp
qed

end
