(* ===== verification/Transport.thy ===== *)
theory Transport
  imports Prelude
begin

text \<open>
  \<open>fizzpy/_transport.py\<close>: every operation of the native core is submitted with two callbacks,
  and \<open>run_sync\<close> and \<open>run_async\<close> turn what the core's thread does with them into a result. The
  core's thread and the waiting thread interleave: the calls are a list, in the order the core
  makes them, and the bridges are run against any of its prefixes.
\<close>

section \<open>The callbacks of an operation\<close>

datatype ('e, 'a) callback = Resolve 'a | Reject 'e

section \<open>run_sync\<close>

text \<open>The dict \<open>box\<close>, with the event \<open>done\<close>.\<close>

record ('e, 'a) box =
  b_result :: "'a option"
  b_error :: "'e option"
  b_done :: bool

definition new_box :: "('e, 'a) box" where
  "new_box = \<lparr>b_result = None, b_error = None, b_done = False\<rparr>"

fun call_back :: "('e, 'a) box \<Rightarrow> ('e, 'a) callback \<Rightarrow> ('e, 'a) box" where
  "call_back box (Resolve a) = box\<lparr>b_result := Some a, b_done := True\<rparr>"
| "call_back box (Reject e) = box\<lparr>b_error := Some e, b_done := True\<rparr>"

datatype 'e sync_error = Raised 'e | KeyErrorResult

text \<open>
  What the caller gets when it reads the box after the calls \<open>cbs\<close>; \<open>None\<close>: it is still blocked
  in \<open>done.wait()\<close>.
\<close>

definition run_sync :: "('e, 'a) callback list \<Rightarrow> ('e sync_error + 'a) option" where
  "run_sync cbs =
     (let box = foldl call_back new_box cbs in
      if \<not> b_done box then None
      else Some (case b_error box of
                   Some e \<Rightarrow> Inl (Raised e)
                 | None \<Rightarrow> (case b_result box of None \<Rightarrow> Inl KeyErrorResult | Some a \<Rightarrow> Inr a)))"

section \<open>run_async\<close>

text \<open>
  The future. The loop runs \<open>_set_result\<close> and \<open>_set_exception\<close> in the order in which the core's
  thread scheduled them; the awaiting task may have cancelled the future before.
\<close>

datatype ('e, 'a) future = Pending | Finished 'a | Failed 'e | Cancelled

definition future_done :: "('e, 'a) future \<Rightarrow> bool" where
  "future_done fut = (case fut of Pending \<Rightarrow> False | _ \<Rightarrow> True)"

definition set_result :: "('e, 'a) future \<Rightarrow> 'a \<Rightarrow> ('e, 'a) future" where
  "set_result fut a = (if \<not> future_done fut then Finished a else fut)"

definition set_exception :: "('e, 'a) future \<Rightarrow> 'e \<Rightarrow> ('e, 'a) future" where
  "set_exception fut e = (if \<not> future_done fut then Failed e else fut)"

fun on_loop :: "('e, 'a) future \<Rightarrow> ('e, 'a) callback \<Rightarrow> ('e, 'a) future" where
  "on_loop fut (Resolve a) = set_result fut a"
| "on_loop fut (Reject e) = set_exception fut e"

definition run_async :: "('e, 'a) future \<Rightarrow> ('e, 'a) callback list \<Rightarrow> ('e, 'a) future" where
  "run_async fut cbs = foldl on_loop fut cbs"

lemma on_loop_done: "future_done fut \<Longrightarrow> on_loop fut cb = fut"
  by (cases cb) (simp_all add: set_result_def set_exception_def)

lemma run_async_done: "future_done fut \<Longrightarrow> run_async fut cbs = fut"
  by (induction cbs) (simp_all add: run_async_def on_loop_done)

section \<open>Properties\<close>

text \<open>What a single call means.\<close>

fun meaning :: "('e, 'a) callback \<Rightarrow> 'e sync_error + 'a" where
  "meaning (Resolve a) = Inr a"
| "meaning (Reject e) = Inl (Raised e)"

fun settled_as :: "('e, 'a) callback \<Rightarrow> ('e, 'a) future" where
  "settled_as (Resolve a) = Finished a"
| "settled_as (Reject e) = Failed e"

lemma settled_as_done: "future_done (settled_as cb)"
  by (cases cb) (simp_all add: future_done_def)

text \<open>
  Both bridges deliver exactly what the core reports when it makes one call: the blocking
  one is blocked until then and never fails with a missing key, and the asyncio one keeps the
  first report whatever is called later, and drops every report once it was cancelled.
\<close>

theorem bridges_deliver:
  "run_sync [] = (None :: ('e sync_error + 'a) option)
   \<and> run_sync [cb] = Some (meaning (cb :: ('e, 'a) callback))
   \<and> run_sync cbs \<noteq> Some (Inl (KeyErrorResult :: 'e sync_error) :: 'e sync_error + 'a)
   \<and> run_async Pending (cb # cbs) = settled_as cb
   \<and> run_async Cancelled cbs = (Cancelled :: ('e, 'a) future)"
proof -
  have box: "b_done (foldl call_back b cbs) \<longrightarrow> b_error (foldl call_back b cbs) \<noteq> None \<or> b_result (foldl call_back b cbs) \<noteq> None"
    if "b_done b \<longrightarrow> b_error b \<noteq> None \<or> b_result b \<noteq> None" for b :: "('e, 'a) box"
    using that
  proof (induction cbs arbitrary: b)
    case Nil
    then show ?case by simp
  next
    case (Cons c cs)
    show ?case using Cons.IH [of "call_back b c"] by (cases c) simp_all
  qed
  have "run_sync cbs \<noteq> Some (Inl (KeyErrorResult :: 'e sync_error) :: 'e sync_error + 'a)"
    using box [of new_box] by (auto simp: run_sync_def Let_def new_box_def split: option.splits if_splits)
  moreover have "run_async Pending (cb # cbs) = settled_as cb"
    using run_async_done [OF settled_as_done, of cb cbs]
    by (cases cb) (simp_all add: run_async_def set_result_def set_exception_def future_done_def)
  moreover have "run_sync [cb] = Some (meaning cb)"
    by (cases cb) (simp_all add: run_sync_def new_box_def)
  ultimately show ?thesis
    by (simp add: run_sync_def new_box_def run_async_done future_done_def)
qed

end
