(* ===== verification/Pool.thy ===== *)
theory Pool
  imports Prelude "HOL-Library.Multiset"
begin

text \<open>
  The pools of idle connections: \<open>_take\<close>, \<open>_give\<close> and \<open>close\<close> of \<open>Client\<close> (each under its lock) and
  their counterparts in \<open>AsyncClient\<close>. The locale \<open>conn_pool\<close> states what a pool promises; from
  it follows, for any interleaving of any number of requests, that a connection is never in two
  hands. Connections are compared by identity, so here they are numbers.
\<close>

type_synonym conn = nat
type_synonym 'k pool = "('k, conn list) dict"

section \<open>Client\<close>

definition take_conn :: "'k \<Rightarrow> 'k pool \<Rightarrow> conn option \<times> 'k pool" where
  "take_conn key pool =
     (case dict_get pool key of
        None \<Rightarrow> (None, pool)
      | Some conns \<Rightarrow>
          if conns = [] then (None, pool) else (Some (last conns), dict_set key (butlast conns) pool))"

definition give_conn :: "'k \<Rightarrow> conn \<Rightarrow> 'k pool \<Rightarrow> 'k pool" where
  "give_conn key c pool =
     (case dict_get pool key of
        None \<Rightarrow> dict_set key [c] pool
      | Some conns \<Rightarrow> dict_set key (conns @ [c]) pool)"

text \<open>What \<open>close\<close> closes, in order; the pool is empty afterwards.\<close>

definition pooled_conns :: "'k pool \<Rightarrow> conn list" where
  "pooled_conns pool = concat (map snd pool)"

section \<open>AsyncClient\<close>

text \<open>\<open>setdefault(key, [])\<close>, then \<open>append\<close> to the list it returns.\<close>

definition async_take :: "'k \<Rightarrow> 'k pool \<Rightarrow> conn option \<times> 'k pool" where
  "async_take key pool =
     (let conns = (case dict_get pool key of None \<Rightarrow> [] | Some conns \<Rightarrow> conns) in
      if conns \<noteq> [] then (Some (last conns), dict_set key (butlast conns) pool) else (None, pool))"

definition async_give :: "'k \<Rightarrow> conn \<Rightarrow> 'k pool \<Rightarrow> 'k pool" where
  "async_give key c pool =
     (let pool = (if dict_get pool key = None then dict_set key [] pool else pool) in
      dict_set key ((case dict_get pool key of None \<Rightarrow> [] | Some conns \<Rightarrow> conns) @ [c]) pool)"

section \<open>The contract of a pool\<close>

definition pool_wf :: "'k pool \<Rightarrow> bool" where
  "pool_wf pool \<longleftrightarrow> distinct (dict_keys pool)"

text \<open>The connections as a multiset, for the whole pool and for one key.\<close>

definition pool_mset :: "'k pool \<Rightarrow> conn multiset" where
  "pool_mset pool = mset (pooled_conns pool)"

definition idle :: "'k pool \<Rightarrow> 'k \<Rightarrow> conn list" where
  "idle pool key = (case dict_get pool key of None \<Rightarrow> [] | Some conns \<Rightarrow> conns)"

lemma pool_mset_Nil [simp]: "pool_mset [] = {#}"
  by (simp add: pool_mset_def pooled_conns_def)

lemma pool_mset_Cons [simp]: "pool_mset ((k, cs) # pool) = mset cs + pool_mset pool"
  by (simp add: pool_mset_def pooled_conns_def)

lemma pool_mset_set:
  "pool_wf pool \<Longrightarrow> pool_mset (dict_set key cs pool) + mset (idle pool key) = pool_mset pool + mset cs"
proof (induction pool)
  case Nil
  then show ?case by (simp add: idle_def)
next
  case (Cons p pool)
  obtain k ds where "p = (k, ds)" by (cases p)
  moreover have "idle pool k = []" if "k \<notin> fst ` set pool"
    using that by (simp add: idle_def weak_map_of_SomeI split: option.split) (metis image_eqI map_of_SomeD fst_conv)
  ultimately show ?case
    using Cons by (auto simp: pool_wf_def idle_def)
qed

lemma pool_wf_set: "pool_wf pool \<Longrightarrow> pool_wf (dict_set key cs pool)"
  by (simp add: pool_wf_def distinct_update)

lemma idle_set: "idle (dict_set k cs pool) key = (if key = k then cs else idle pool key)"
  by (simp add: idle_def dict_get_set)

text \<open>
  Who holds what, whatever the interleaving: a request opens a connection (a new object), takes
  one out of the pool, gives the one it holds back or drops it, and the pool is closed; \<open>used\<close>
  are the objects made so far.
\<close>

inductive owned :: "('k \<Rightarrow> 'p \<Rightarrow> conn option \<times> 'p) \<Rightarrow> ('k \<Rightarrow> conn \<Rightarrow> 'p \<Rightarrow> 'p) \<Rightarrow> 'p
    \<Rightarrow> 'p \<Rightarrow> (nat \<times> conn) list \<Rightarrow> conn set \<Rightarrow> bool"
  for take_op give_op empty where
  owned_start: "owned take_op give_op empty empty [] {}"
| owned_open: "owned take_op give_op empty pool held used \<Longrightarrow> c \<notin> used \<Longrightarrow>
    owned take_op give_op empty pool ((r, c) # held) (insert c used)"
| owned_take: "owned take_op give_op empty pool held used \<Longrightarrow> take_op key pool = (Some c, pool') \<Longrightarrow>
    owned take_op give_op empty pool' ((r, c) # held) used"
| owned_give: "owned take_op give_op empty pool held used \<Longrightarrow> (r, c) \<in> set held \<Longrightarrow>
    owned take_op give_op empty (give_op key c pool) (remove1 (r, c) held) used"
| owned_drop: "owned take_op give_op empty pool held used \<Longrightarrow> (r, c) \<in> set held \<Longrightarrow>
    owned take_op give_op empty pool (remove1 (r, c) held) used"
| owned_close: "owned take_op give_op empty pool held used \<Longrightarrow> owned take_op give_op empty empty held used"

lemma mset_remove1_snd:
  "(r, c) \<in> set held \<Longrightarrow> add_mset c (mset (map snd (remove1 (r, c) held))) = mset (map snd held)"
  by (induction held) auto

text \<open>Every connection of a multiset occurs once, and was made.\<close>

definition once :: "conn set \<Rightarrow> conn multiset \<Rightarrow> bool" where
  "once used M \<longleftrightarrow> (\<forall>c. count M c \<le> 1) \<and> set_mset M \<subseteq> used"

lemma once_new: "once used M \<Longrightarrow> c \<notin> used \<Longrightarrow> once (insert c used) (add_mset c M)"
proof -
  assume "once used M" "c \<notin> used"
  then have "count M c = 0" by (auto simp: once_def count_eq_zero_iff)
  with \<open>once used M\<close> show ?thesis by (auto simp: once_def)
qed

lemma once_sub: "once used M \<Longrightarrow> N \<subseteq># M \<Longrightarrow> once used N"
  by (meson le_trans mset_subset_eqD mset_subset_eq_count once_def subset_iff)

locale conn_pool =
  fixes take_op :: "'k \<Rightarrow> 'p \<Rightarrow> conn option \<times> 'p"
    and give_op :: "'k \<Rightarrow> conn \<Rightarrow> 'p \<Rightarrow> 'p"
    and empty :: 'p
    and conns :: "'p \<Rightarrow> conn multiset"
    and idle_of :: "'p \<Rightarrow> 'k \<Rightarrow> conn list"
    and wf :: "'p \<Rightarrow> bool"
  assumes wf_empty: "wf empty" and conns_empty: "conns empty = {#}"
    and wf_take: "wf p \<Longrightarrow> wf (snd (take_op k p))"
    and wf_give: "wf p \<Longrightarrow> wf (give_op k c p)"
    and take_None: "wf p \<Longrightarrow> fst (take_op k p) = None \<longleftrightarrow> idle_of p k = []"
    and take_idle: "wf p \<Longrightarrow> take_op k p = (Some c, p') \<Longrightarrow>
      idle_of p k = idle_of p' k @ [c] \<and> (\<forall>k'. k' \<noteq> k \<longrightarrow> idle_of p' k' = idle_of p k')"
    and take_conns: "wf p \<Longrightarrow> take_op k p = (Some c, p') \<Longrightarrow> conns p = add_mset c (conns p')"
    and give_idle: "wf p \<Longrightarrow> idle_of (give_op k c p) k' = idle_of p k' @ (if k' = k then [c] else [])"
    and give_conns: "wf p \<Longrightarrow> conns (give_op k c p) = add_mset c (conns p)"
begin

text \<open>The connection given back last is the one taken next, and the rest is as before.\<close>

lemma take_give:
  assumes "wf p"
  shows "\<exists>p'. take_op k (give_op k c p) = (Some c, p') \<and> idle_of p' = idle_of p \<and> conns p' = conns p"
proof -
  obtain d p' where t: "take_op k (give_op k c p) = (d, p')" by fastforce
  have wf: "wf (give_op k c p)" using assms by (rule wf_give)
  have idle: "idle_of (give_op k c p) k = idle_of p k @ [c]" using give_idle [OF assms] by simp
  with take_None [OF wf, of k] t obtain e where d: "d = Some e" by (cases d) auto
  with take_idle [OF wf] t idle have "e = c" "idle_of p' k = idle_of p k" by auto
  moreover have "idle_of p' k' = idle_of p k'" if "k' \<noteq> k" for k'
    using that take_idle [OF wf] t d give_idle [OF assms, of k c k'] by auto
  ultimately have "idle_of p' = idle_of p" by (metis ext)
  moreover have "conns p' = conns p"
    using take_conns [OF wf, of k c p'] t d \<open>e = c\<close> give_conns [OF assms, of k c] by simp
  ultimately show ?thesis using t d \<open>e = c\<close> by blast
qed

lemma owned_inv:
  assumes "owned take_op give_op empty pool held used"
  shows "wf pool \<and> once used (conns pool + mset (map snd held))"
  using assms
proof induction
  case owned_start
  show ?case by (simp add: wf_empty conns_empty once_def)
next
  case (owned_open pool held used c r)
  then show ?case using once_new [of used "conns pool + mset (map snd held)" c] by simp
next
  case (owned_take pool held used key c pool' r)
  then have "conns pool = add_mset c (conns pool')" "wf pool'"
    using take_conns [of pool key c pool'] wf_take [of pool key] by auto
  with owned_take.IH show ?case by simp
next
  case (owned_give pool held used r c key)
  from mset_remove1_snd [OF owned_give.hyps(2)] have "mset (map snd held) =
      add_mset c (mset (map snd (remove1 (r, c) held)))" by simp
  with owned_give.IH give_conns wf_give show ?case by simp
next
  case (owned_drop pool held used r c)
  from mset_remove1_snd [OF owned_drop.hyps(2)] have "mset (map snd held) =
      add_mset c (mset (map snd (remove1 (r, c) held)))" by simp
  with owned_drop.IH show ?case
    by (auto intro: once_sub)
next
  case (owned_close pool held used)
  then show ?case by (auto simp: wf_empty conns_empty intro: once_sub)
qed

end

section \<open>Both pools keep the contract\<close>

interpretation sync_pool: conn_pool take_conn give_conn "[]" pool_mset idle pool_wf
proof (unfold_locales, goal_cases)
  case 1
  show ?case by (simp add: pool_wf_def)
next
  case 2
  show ?case by simp
next
  case (3 p k)
  then show ?case by (auto simp: take_conn_def pool_wf_set split: option.split)
next
  case (4 p k c)
  then show ?case by (auto simp: give_conn_def pool_wf_set split: option.split)
next
  case (5 p k)
  show ?case by (auto simp: take_conn_def idle_def split: option.split)
next
  case (6 p k c p')
  then show ?case
    by (auto simp: take_conn_def idle_def dict_get_set split: option.splits if_splits)
next
  case (7 p k c p')
  then obtain cs where "dict_get p k = Some cs" "cs \<noteq> []" "c = last cs" "p' = dict_set k (butlast cs) p"
    by (auto simp: take_conn_def split: option.splits if_splits)
  moreover from this have "mset cs = add_mset c (mset (butlast cs))"
    by (metis append_butlast_last_id mset_append mset_single_iff add_mset_add_single mset.simps(1) mset.simps(2))
  ultimately show ?case
    using pool_mset_set [OF 7(1), of k "butlast cs"] by (simp add: idle_def)
next
  case (8 p k c k')
  show ?case by (auto simp: give_conn_def idle_def dict_get_set split: option.split)
next
  case (9 p k c)
  then show ?case
    using pool_mset_set [OF 9, of k "idle p k @ [c]"]
    by (auto simp: give_conn_def idle_def split: option.splits)
qed

lemma async_take_eq: "async_take = take_conn"
  by (intro ext) (simp add: async_take_def take_conn_def split: option.split)

lemma async_give_eq: "async_give = give_conn"
  by (intro ext) (simp add: async_give_def give_conn_def dict_get_set split: option.split)

interpretation async_pool: conn_pool async_take async_give "[]" pool_mset idle pool_wf
  unfolding async_take_eq async_give_eq by (rule sync_pool.conn_pool_axioms)

section \<open>Properties\<close>

lemma once_distinct: "once used (mset xs) \<Longrightarrow> distinct xs"
  by (metis (full_types) One_nat_def Suc_leI count_greater_zero_iff count_mset_0_iff distinct_count_atmost_1
      le_antisym once_def set_mset_mset not_in_iff)

text \<open>
  For any interleaving of any number of requests that open, take, give back and drop
  connections and of \<open>close\<close>, no connection is in the pool twice, in two hands, or in the pool
  while a request holds it.
\<close>

theorem pool_exclusive:
  assumes "owned take_conn give_conn [] pool held used"
  shows "distinct (pooled_conns pool @ map snd held)"
proof -
  have "mset (pooled_conns pool @ map snd held) = pool_mset pool + mset (map snd held)"
    by (simp add: pool_mset_def)
  then show ?thesis
    using sync_pool.owned_inv [OF assms] once_distinct by metis
qed

lemma pool_exclusive_witness:
  "distinct (pooled_conns [(''h'', [7])] @ map snd [(2::nat, 8)])"
proof -
  have "owned take_conn give_conn ([] :: string pool) [] [(1, 7)] {7}"
    using owned_open [OF owned_start, of 7 take_conn give_conn "[]" 1] by simp
  from owned_give [OF this, of 1 7 "''h''"]
  have "owned take_conn give_conn [] [(''h'', [7])] [] {7}" by (simp add: give_conn_def)
  from owned_open [OF this, of 8 2]
  show ?thesis by (intro pool_exclusive) simp
qed

text \<open>
  The pool is last in, first out per host and port: the connection given back last under a
  key is the next one taken under it, nothing is taken under a key without idle connections,
  and the connections of other keys stay where they are.
\<close>

theorem pool_lifo:
  assumes "pool_wf pool"
  shows "(\<exists>pool'. take_conn key (give_conn key c pool) = (Some c, pool') \<and> idle pool' = idle pool)
    \<and> (fst (take_conn key pool) = None \<longleftrightarrow> idle pool key = [])
    \<and> (\<forall>d pool'. take_conn key pool = (Some d, pool') \<longrightarrow>
        idle pool key = idle pool' key @ [d] \<and> (\<forall>k. k \<noteq> key \<longrightarrow> idle pool' k = idle pool k))"
  using sync_pool.take_give [OF assms, of key c] sync_pool.take_None [OF assms, of key]
    sync_pool.take_idle [OF assms, of key]
  by blast

lemma pool_lifo_witness:
  "fst (take_conn ''h'' [(''g'', [1]), (''h'', [2, 3])]) \<noteq> None
   \<and> (\<exists>pool'. take_conn ''h'' (give_conn ''h'' 5 [(''g'', [1]), (''h'', [2, 3])]) = (Some 5, pool')
      \<and> idle pool' = idle [(''g'', [1]), (''h'', [2, 3])])"
proof -
  have "pool_wf [(''g'', [1]), (''h'', [2, 3])]" by code_simp
  from pool_lifo [OF this, of "''h''" 5] show ?thesis by (simp add: idle_def)
qed

end
