(* ===== verification/Client.thy ===== *)
theory Client
  imports Parser_Invariant Common Transport Pool
begin

text \<open>
  The blocking client, class \<open>Client\<close> of \<open>fizzpy/__init__.py\<close>: its settings are the record
  \<open>settings\<close>, its pool and the outside world the record \<open>session\<close>. The native core is the
  parameter \<open>net\<close>: what its operations report through their callbacks and what they do to the
  world. A read loop need not end, so exchanges are options and \<open>None\<close> is "does not return".
\<close>

section \<open>The native core as the client sees it\<close>

record settings =
  s_verify :: bool
  s_cafile :: latin
  s_timeout_ms :: int
  s_alpn :: "latin list"
  s_groups :: "nat list"
  s_extensions :: "(int \<times> bytes) list"
  s_follow_redirects :: bool
  s_max_redirects :: int

record ('x, 'w) net =
  n_connect :: "settings \<Rightarrow> target \<Rightarrow> 'w \<Rightarrow> ('x + conn) \<times> 'w"
  n_write :: "int \<Rightarrow> conn \<Rightarrow> bytes \<Rightarrow> 'w \<Rightarrow> ('x + unit) \<times> 'w"
  n_read :: "int \<Rightarrow> conn \<Rightarrow> 'w \<Rightarrow> ('x + bytes) \<times> 'w"
  n_close :: "conn \<Rightarrow> 'w \<Rightarrow> 'w"
  n_negotiated :: "conn \<Rightarrow> 'w \<Rightarrow> negotiated"

text \<open>What a request can raise; \<open>Stale\<close> is the internal \<open>_Stale\<close>.\<close>

datatype 'x failure =
    Stale
  | NetError 'x
  | ParserRaised raised
  | ConnectionClosed
  | BadTarget target_error
  | BadRequest request_error
  | BadRedirect url_error
  | TooManyRedirects latin

type_synonym key = "latin \<times> int"

record 'w session =
  pool :: "key pool"
  world :: 'w

type_synonym ('x, 'w) answer = "(('x failure + response) \<times> 'w session) option"

section \<open>Construction\<close>

datatype init_error = BadTimeout float_error | BadExtensions extension_error

text \<open>
  \<open>__init__\<close>; what certifi and the native core provide are the arguments \<open>default_ca\<close> and
  \<open>default_groups\<close>.
\<close>

definition client_init ::
    "(rat \<Rightarrow> pyfloat) \<Rightarrow> latin \<Rightarrow> nat list \<Rightarrow> bool \<Rightarrow> latin option \<Rightarrow> pyfloat option \<Rightarrow> latin list option
      \<Rightarrow> nat list option \<Rightarrow> (int \<times> bytes) list option \<Rightarrow> bool \<Rightarrow> int \<Rightarrow> init_error + settings" where
  "client_init mul default_ca default_groups verify cafile timeout alpn groups extensions follow max_redirects =
     (case timeout_to_ms mul timeout of
        Inl e \<Rightarrow> Inl (BadTimeout e)
      | Inr ms \<Rightarrow> (case normalize_extensions extensions of
          Inl e \<Rightarrow> Inl (BadExtensions e)
        | Inr exts \<Rightarrow> Inr \<lparr>s_verify = verify,
            s_cafile = (case cafile of Some f \<Rightarrow> if f \<noteq> [] then f else default_ca | None \<Rightarrow> default_ca),
            s_timeout_ms = ms,
            s_alpn = (case alpn of Some a \<Rightarrow> a | None \<Rightarrow> [''http/1.1'']),
            s_groups = (case groups of Some g \<Rightarrow> g | None \<Rightarrow> default_groups),
            s_extensions = exts, s_follow_redirects = follow, s_max_redirects = max_redirects\<rparr>))"

section \<open>One exchange on a connection\<close>

definition reusable :: "parser \<Rightarrow> response \<Rightarrow> bool" where
  "reusable p r =
     (if used_close_framing p \<or> http_version r \<noteq> ''HTTP/1.1'' then False
      else \<not> contains ''close'' (lower (case get_header (resp_headers r) ''Connection'' of
                                         None \<Rightarrow> [] | Some v \<Rightarrow> v)))"

text \<open>The \<open>while not parser.is_complete()\<close> loop; an empty read is \<open>READ_DONE\<close>.\<close>

partial_function (option) read_loop ::
    "('x, 'w) net \<Rightarrow> codec \<Rightarrow> int \<Rightarrow> bool \<Rightarrow> conn \<Rightarrow> parser \<Rightarrow> bool \<Rightarrow> 'w
      \<Rightarrow> (('x failure + parser) \<times> 'w) option" where
  "read_loop net cd ms reused c parser received w =
     (if is_complete parser then Some (Inr parser, w)
      else case n_read net ms c w of
          (Inl e, w) \<Rightarrow> Some (Inl (if reused \<and> \<not> received then Stale else NetError e), w)
        | (Inr chunk, w) \<Rightarrow>
            if chunk = [] then
              (if reused \<and> \<not> received then Some (Inl Stale, w)
               else case feed_eof cd parser of
                   Inl (e, q) \<Rightarrow> Some (Inl (ParserRaised e), w)
                 | Inr q \<Rightarrow> Some (Inr q, w))
            else case feed cd parser chunk of
                Inl (e, q) \<Rightarrow> Some (Inl (ParserRaised e), w)
              | Inr q \<Rightarrow> read_loop net cd ms reused c q True w)"

definition finish_exchange ::
    "('x, 'w) net \<Rightarrow> bool \<Rightarrow> conn \<Rightarrow> key \<Rightarrow> parser \<Rightarrow> 'w session \<Rightarrow> ('x failure + response) \<times> 'w session" where
  "finish_exchange net reused c key parser s =
     (case p_response parser of
        None \<Rightarrow> (Inl (if reused then Stale else ConnectionClosed), s)
      | Some r \<Rightarrow>
          (let r = r\<lparr>resp_tls := Some (n_negotiated net c (world s))\<rparr> in
           if reusable parser r then (Inr r, s\<lparr>pool := give_conn key c (pool s)\<rparr>)
           else (Inr r, s\<lparr>world := n_close net c (world s)\<rparr>)))"

definition exchange ::
    "('x, 'w) net \<Rightarrow> codec \<Rightarrow> settings \<Rightarrow> conn \<Rightarrow> key \<Rightarrow> bytes \<Rightarrow> bool \<Rightarrow> 'w session \<Rightarrow> ('x, 'w) answer" where
  "exchange net cd cfg c key raw reused s =
     (case n_write net (s_timeout_ms cfg) c raw (world s) of
        (Inl e, w) \<Rightarrow> Some (Inl (if reused then Stale else NetError e), s\<lparr>world := w\<rparr>)
      | (Inr _, w) \<Rightarrow>
          (case read_loop net cd (s_timeout_ms cfg) reused c new_parser False w of
             None \<Rightarrow> None
           | Some (Inl f, w) \<Rightarrow> Some (Inl f, s\<lparr>world := w\<rparr>)
           | Some (Inr parser, w) \<Rightarrow> Some (finish_exchange net reused c key parser (s\<lparr>world := w\<rparr>))))"

section \<open>Requests\<close>

text \<open>A Python request's arguments, apart from the URL: method, headers and body.\<close>

record req =
  r_method :: ustr
  r_headers :: "(ustr, ustr) dict option"
  r_body :: "bytes option"

text \<open>The Unicode database where it matters: lowercase of strings, uppercase of code points.\<close>

record unicode =
  u_lower :: "ustr \<Rightarrow> ustr"
  u_upper :: "nat \<Rightarrow> ustr"

definition connect_fresh ::
    "('x, 'w) net \<Rightarrow> codec \<Rightarrow> settings \<Rightarrow> target \<Rightarrow> key \<Rightarrow> bytes \<Rightarrow> 'w session \<Rightarrow> ('x, 'w) answer" where
  "connect_fresh net cd cfg t key raw s =
     (case n_connect net cfg t (world s) of
        (Inl e, w) \<Rightarrow> Some (Inl (NetError e), s\<lparr>world := w\<rparr>)
      | (Inr c, w) \<Rightarrow> exchange net cd cfg c key raw False (s\<lparr>world := w\<rparr>))"

definition perform ::
    "('x, 'w) net \<Rightarrow> codec \<Rightarrow> unicode \<Rightarrow> settings \<Rightarrow> req \<Rightarrow> latin \<Rightarrow> 'w session \<Rightarrow> ('x, 'w) answer" where
  "perform net cd uni cfg rq u s =
     (case parse_url u of
        Inl e \<Rightarrow> Some (Inl (BadTarget e), s)
      | Inr t \<Rightarrow>
          (let key = (t_host t, t_port t) in
           case build_request (u_lower uni) (r_method rq) (lit (t_path t)) (lit (t_host t))
                  (r_headers rq) (r_body rq) of
             Inl e \<Rightarrow> Some (Inl (BadRequest e), s)
           | Inr raw \<Rightarrow>
               (case take_conn key (pool s) of
                  (None, p) \<Rightarrow> connect_fresh net cd cfg t key raw (s\<lparr>pool := p\<rparr>)
                | (Some c, p) \<Rightarrow>
                    (case exchange net cd cfg c key raw True (s\<lparr>pool := p\<rparr>) of
                       None \<Rightarrow> None
                     | Some (r, s) \<Rightarrow>
                         (case r of
                            Inl Stale \<Rightarrow> connect_fresh net cd cfg t key raw (s\<lparr>world := n_close net c (world s)\<rparr>)
                          | _ \<Rightarrow> Some (r, s))))))"

text \<open>The request with a redirect's method: a changed method drops the body and its headers.\<close>

definition redirected :: "unicode \<Rightarrow> req \<Rightarrow> ustr \<Rightarrow> req" where
  "redirected uni rq new_method =
     (if new_method \<noteq> r_method rq
      then \<lparr>r_method = new_method, r_headers = strip_body_headers (u_lower uni) (r_headers rq), r_body = None\<rparr>
      else rq)"

text \<open>
  The loop of \<open>request\<close>, over the function that performs one request (\<open>_perform\<close>); \<open>seen\<close> counts
  the redirects followed.
\<close>

function request_loop ::
    "(req \<Rightarrow> latin \<Rightarrow> 'w session \<Rightarrow> ('x, 'w) answer) \<Rightarrow> unicode \<Rightarrow> settings \<Rightarrow> int \<Rightarrow> req \<Rightarrow> latin
      \<Rightarrow> 'w session \<Rightarrow> ('x, 'w) answer" where
  "request_loop perf uni cfg seen rq u s =
     (case perf rq u s of
        None \<Rightarrow> None
      | Some (Inl f, s) \<Rightarrow> Some (Inl f, s)
      | Some (Inr r, s) \<Rightarrow>
          (let r = r\<lparr>resp_url := u\<rparr>;
               nxt = (if s_follow_redirects cfg
                      then next_redirect (u_upper uni) (r_method rq) u (status_code r)
                             (get_header (resp_headers r) ''Location'')
                      else Inr None) in
           case nxt of
             Inl e \<Rightarrow> Some (Inl (BadRedirect e), s)
           | Inr None \<Rightarrow> Some (Inr r, s)
           | Inr (Some (new_method, new_url)) \<Rightarrow>
               if s_max_redirects cfg \<le> seen then Some (Inl (TooManyRedirects u), s)
               else request_loop perf uni cfg (seen + 1) (redirected uni rq new_method) new_url s))"
  by pat_completeness auto
termination
  by (relation "measure (\<lambda>(perf, uni, cfg, seen, rq, u, s). nat (s_max_redirects cfg - seen))") auto

declare request_loop.simps [simp del]

definition client_request ::
    "('x, 'w) net \<Rightarrow> codec \<Rightarrow> unicode \<Rightarrow> settings \<Rightarrow> req \<Rightarrow> latin \<Rightarrow> 'w session \<Rightarrow> ('x, 'w) answer" where
  "client_request net cd uni cfg rq u s =
     request_loop (perform net cd uni cfg) uni cfg 0
       (rq\<lparr>r_method := ustr_upper (u_upper uni) (r_method rq)\<rparr>) u s"

definition client_close :: "('x, 'w) net \<Rightarrow> 'w session \<Rightarrow> 'w session" where
  "client_close net s = \<lparr>pool = [], world = foldl (\<lambda>w c. n_close net c w) (world s) (pooled_conns (pool s))\<rparr>"

text \<open>\<open>with\<close> on a client: its pool is closed however the body ends, and an exception goes on.\<close>

definition with_client :: "('x, 'w) net \<Rightarrow> ('w session \<Rightarrow> 'r \<times> 'w session) \<Rightarrow> 'w session \<Rightarrow> 'r \<times> 'w session" where
  "with_client net body s = (case body s of (r, s) \<Rightarrow> (r, client_close net s))"

lemma with_client_closed: "with_client net body s = (r, s') \<Longrightarrow> pool s' = []"
  by (auto simp: with_client_def client_close_def split: prod.splits)

text \<open>\<open>get\<close>, \<open>post\<close>, \<open>head\<close>, \<open>put\<close> and \<open>delete\<close>, by the method they name.\<close>

definition client_verb ::
    "('x, 'w) net \<Rightarrow> codec \<Rightarrow> unicode \<Rightarrow> settings \<Rightarrow> latin \<Rightarrow> (ustr, ustr) dict option \<Rightarrow> bytes option
      \<Rightarrow> latin \<Rightarrow> 'w session \<Rightarrow> ('x, 'w) answer" where
  "client_verb net cd uni cfg verb headers body =
     client_request net cd uni cfg \<lparr>r_method = lit verb, r_headers = headers, r_body = body\<rparr>"

text \<open>The module's \<open>request\<close>: a throwaway client, never closed.\<close>

definition one_shot ::
    "('x, 'w) net \<Rightarrow> codec \<Rightarrow> unicode \<Rightarrow> init_error + settings \<Rightarrow> req \<Rightarrow> latin \<Rightarrow> 'w
      \<Rightarrow> init_error + ('x, 'w) answer" where
  "one_shot net cd uni cfg rq u w =
     and_then cfg (\<lambda>cfg. Inr (client_request net cd uni cfg rq u \<lparr>pool = [], world = w\<rparr>))"

text \<open>The functions of the module named after methods, \<open>get\<close> to \<open>delete\<close>.\<close>

definition module_verb ::
    "('x, 'w) net \<Rightarrow> codec \<Rightarrow> unicode \<Rightarrow> init_error + settings \<Rightarrow> latin \<Rightarrow> (ustr, ustr) dict option \<Rightarrow> bytes option
      \<Rightarrow> latin \<Rightarrow> 'w \<Rightarrow> init_error + ('x, 'w) answer" where
  "module_verb net cd uni cfg verb headers body =
     one_shot net cd uni cfg \<lparr>r_method = lit verb, r_headers = headers, r_body = body\<rparr>"

text \<open>
  Its keyword arguments: those of the constructor go to the client, the others to the request,
  which knows two and raises \<open>TypeError\<close> for any further one.
\<close>

definition CLIENT_KWARGS :: "latin list" where
  "CLIENT_KWARGS = [''verify'', ''cafile'', ''timeout'', ''alpn'', ''groups'', ''extensions'', ''follow_redirects'', ''max_redirects'']"

definition split_kwargs :: "(latin, 'v) dict \<Rightarrow> (latin, 'v) dict \<times> (latin, 'v) dict" where
  "split_kwargs kwargs =
     (filter (\<lambda>(k, v). k \<in> set CLIENT_KWARGS) kwargs, filter (\<lambda>(k, v). k \<notin> set CLIENT_KWARGS) kwargs)"

definition unexpected_kwarg :: "(latin, 'v) dict \<Rightarrow> latin option" where
  "unexpected_kwarg kwargs =
     List.find (\<lambda>k. k \<notin> {''headers'', ''body''}) (dict_keys (snd (split_kwargs kwargs)))"

lemma split_kwargs_lookup:
  "dict_get (fst (split_kwargs kwargs)) k = (if k \<in> set CLIENT_KWARGS then dict_get kwargs k else None)"
  "dict_get (snd (split_kwargs kwargs)) k = (if k \<in> set CLIENT_KWARGS then None else dict_get kwargs k)"
  by (induction kwargs) (auto simp: split_kwargs_def)

end
