(* ===== verification/Aio.thy ===== *)
theory Aio
  imports Client
begin

text \<open>
  \<open>AsyncClient\<close> of \<open>fizzpy/aio.py\<close>, with the native core again the parameter \<open>net\<close>: what an awaited
  operation gives is what its callbacks report, and between two awaits a task runs undisturbed,
  so the pool operations are atomic. Everything is written out as it stands, the loop over \<open>read\<close>,
  too, and shown to be the same function as that of the blocking client. A cancelled task drops the
  connection it holds, as a failed one does.
\<close>

definition async_init ::
    "(rat \<Rightarrow> pyfloat) \<Rightarrow> latin \<Rightarrow> nat list \<Rightarrow> bool \<Rightarrow> latin option \<Rightarrow> pyfloat option \<Rightarrow> latin list option
      \<Rightarrow> nat list option \<Rightarrow> (int \<times> bytes) list option \<Rightarrow> bool \<Rightarrow> int \<Rightarrow> init_error + settings" where
  "async_init mul default_ca default_groups verify cafile timeout alpn groups extensions follow max_redirects =
     (case timeout_to_ms mul timeout of
        Inl e \<Rightarrow> Inl (BadTimeout e)
      | Inr ms \<Rightarrow> (case normalize_extensions extensions of
          Inl e \<Rightarrow> Inl (BadExtensions e)
        | Inr exts \<Rightarrow> Inr \<lparr>s_verify = verify,
            s_cafile = (if cafile = None \<or> cafile = Some [] then default_ca else the cafile),
            s_timeout_ms = ms,
            s_alpn = (if alpn \<noteq> None then the alpn else [''http/1.1'']),
            s_groups = (if groups \<noteq> None then the groups else default_groups),
            s_extensions = exts, s_follow_redirects = follow, s_max_redirects = max_redirects\<rparr>))"

definition async_reusable :: "parser \<Rightarrow> response \<Rightarrow> bool" where
  "async_reusable p r \<longleftrightarrow> \<not> used_close_framing p \<and> http_version r = ''HTTP/1.1''
     \<and> \<not> contains ''close'' (lower (case get_header (resp_headers r) ''Connection'' of None \<Rightarrow> [] | Some v \<Rightarrow> v))"

text \<open>The loop of \<open>_exchange\<close>; an empty read is \<open>READ_DONE\<close>.\<close>

partial_function (option) async_read_loop ::
    "('x, 'w) net \<Rightarrow> codec \<Rightarrow> settings \<Rightarrow> bool \<Rightarrow> conn \<Rightarrow> parser \<Rightarrow> bool \<Rightarrow> 'w
      \<Rightarrow> (('x failure + parser) \<times> 'w) option" where
  "async_read_loop net cd cfg reused c parser received w =
     (if \<not> is_complete parser
      then (case n_read net (s_timeout_ms cfg) c w of
              (Inl e, w) \<Rightarrow> if reused \<and> \<not> received then Some (Inl Stale, w) else Some (Inl (NetError e), w)
            | (Inr chunk, w) \<Rightarrow>
                if chunk = []
                then if reused \<and> \<not> received then Some (Inl Stale, w)
                     else (case feed_eof cd parser of
                             Inl (e, q) \<Rightarrow> Some (Inl (ParserRaised e), w)
                           | Inr q \<Rightarrow> Some (Inr q, w))
                else (let received = True in
                      case feed cd parser chunk of
                        Inl (e, q) \<Rightarrow> Some (Inl (ParserRaised e), w)
                      | Inr q \<Rightarrow> async_read_loop net cd cfg reused c q received w))
      else Some (Inr parser, w))"

definition async_exchange ::
    "('x, 'w) net \<Rightarrow> codec \<Rightarrow> settings \<Rightarrow> conn \<Rightarrow> key \<Rightarrow> bytes \<Rightarrow> bool \<Rightarrow> 'w session \<Rightarrow> ('x, 'w) answer" where
  "async_exchange net cd cfg c key raw reused s =
     (case n_write net (s_timeout_ms cfg) c raw (world s) of
        (Inl e, w) \<Rightarrow> Some (Inl (if reused then Stale else NetError e), s\<lparr>world := w\<rparr>)
      | (Inr _, w) \<Rightarrow>
          (case async_read_loop net cd cfg reused c new_parser False w of
             None \<Rightarrow> None
           | Some (Inl f, w) \<Rightarrow> Some (Inl f, s\<lparr>world := w\<rparr>)
           | Some (Inr parser, w) \<Rightarrow>
               (case p_response parser of
                  None \<Rightarrow> Some (Inl (if reused then Stale else ConnectionClosed), s\<lparr>world := w\<rparr>)
                | Some r \<Rightarrow>
                    (let r = r\<lparr>resp_tls := Some (n_negotiated net c w)\<rparr> in
                     Some (Inr r,
                       if async_reusable parser r then s\<lparr>world := w, pool := async_give key c (pool s)\<rparr>
                       else s\<lparr>world := n_close net c w\<rparr>)))))"

definition async_connect ::
    "('x, 'w) net \<Rightarrow> codec \<Rightarrow> settings \<Rightarrow> target \<Rightarrow> key \<Rightarrow> bytes \<Rightarrow> 'w session \<Rightarrow> ('x, 'w) answer" where
  "async_connect net cd cfg t key raw s =
     (case n_connect net cfg t (world s) of
        (Inl e, w) \<Rightarrow> Some (Inl (NetError e), s\<lparr>world := w\<rparr>)
      | (Inr c, w) \<Rightarrow> async_exchange net cd cfg c key raw False (s\<lparr>world := w\<rparr>))"

definition async_perform ::
    "('x, 'w) net \<Rightarrow> codec \<Rightarrow> unicode \<Rightarrow> settings \<Rightarrow> req \<Rightarrow> latin \<Rightarrow> 'w session \<Rightarrow> ('x, 'w) answer" where
  "async_perform net cd uni cfg rq u s =
     (case parse_url u of
        Inl e \<Rightarrow> Some (Inl (BadTarget e), s)
      | Inr t \<Rightarrow>
          (case build_request (u_lower uni) (r_method rq) (lit (t_path t)) (lit (t_host t))
                  (r_headers rq) (r_body rq) of
             Inl e \<Rightarrow> Some (Inl (BadRequest e), s)
           | Inr raw \<Rightarrow>
               (let key = (t_host t, t_port t); (pooled, p) = async_take key (pool s); s = s\<lparr>pool := p\<rparr> in
                case pooled of
                  None \<Rightarrow> async_connect net cd cfg t key raw s
                | Some c \<Rightarrow>
                    (case async_exchange net cd cfg c key raw True s of
                       Some (Inl Stale, s) \<Rightarrow> async_connect net cd cfg t key raw (s\<lparr>world := n_close net c (world s)\<rparr>)
                     | result \<Rightarrow> result))))"

function async_request_loop ::
    "(req \<Rightarrow> latin \<Rightarrow> 'w session \<Rightarrow> ('x, 'w) answer) \<Rightarrow> unicode \<Rightarrow> settings \<Rightarrow> int \<Rightarrow> req \<Rightarrow> latin
      \<Rightarrow> 'w session \<Rightarrow> ('x, 'w) answer" where
  "async_request_loop perf uni cfg seen rq u s =
     (case perf rq u s of
        None \<Rightarrow> None
      | Some (Inl f, s) \<Rightarrow> Some (Inl f, s)
      | Some (Inr r, s) \<Rightarrow>
          (let r = r\<lparr>resp_url := u\<rparr> in
           if \<not> s_follow_redirects cfg then Some (Inr r, s)
           else case next_redirect (u_upper uni) (r_method rq) u (status_code r)
                       (get_header (resp_headers r) ''Location'') of
                  Inl e \<Rightarrow> Some (Inl (BadRedirect e), s)
                | Inr None \<Rightarrow> Some (Inr r, s)
                | Inr (Some (new_method, new_url)) \<Rightarrow>
                    if s_max_redirects cfg \<le> seen then Some (Inl (TooManyRedirects u), s)
                    else async_request_loop perf uni cfg (seen + 1) (redirected uni rq new_method) new_url s))"
  by pat_completeness auto
termination
  by (relation "measure (\<lambda>(perf, uni, cfg, seen, rq, u, s). nat (s_max_redirects cfg - seen))") auto

declare async_request_loop.simps [simp del]

definition async_request ::
    "('x, 'w) net \<Rightarrow> codec \<Rightarrow> unicode \<Rightarrow> settings \<Rightarrow> req \<Rightarrow> latin \<Rightarrow> 'w session \<Rightarrow> ('x, 'w) answer" where
  "async_request net cd uni cfg rq u s =
     async_request_loop (async_perform net cd uni cfg) uni cfg 0
       (rq\<lparr>r_method := ustr_upper (u_upper uni) (r_method rq)\<rparr>) u s"

definition async_aclose :: "('x, 'w) net \<Rightarrow> 'w session \<Rightarrow> 'w session" where
  "async_aclose net s =
     (let pooled = pooled_conns (pool s); s = s\<lparr>pool := []\<rparr> in
      s\<lparr>world := foldl (\<lambda>w c. n_close net c w) (world s) pooled\<rparr>)"

definition async_verb ::
    "('x, 'w) net \<Rightarrow> codec \<Rightarrow> unicode \<Rightarrow> settings \<Rightarrow> latin \<Rightarrow> (ustr, ustr) dict option \<Rightarrow> bytes option
      \<Rightarrow> latin \<Rightarrow> 'w session \<Rightarrow> ('x, 'w) answer" where
  "async_verb net cd uni cfg verb headers body =
     async_request net cd uni cfg \<lparr>r_method = lit verb, r_headers = headers, r_body = body\<rparr>"

text \<open>\<open>async with\<close> on the client.\<close>

definition async_with :: "('x, 'w) net \<Rightarrow> ('w session \<Rightarrow> 'r \<times> 'w session) \<Rightarrow> 'w session \<Rightarrow> 'r \<times> 'w session" where
  "async_with net body s = (let (r, s) = body s in (r, async_aclose net s))"

section \<open>The same client\<close>

lemma async_reusable_eq: "async_reusable p r = reusable p r"
  by (auto simp: async_reusable_def reusable_def)

text \<open>The two loops return the same, and when one does not, neither does the other.\<close>

lemma async_reads_as: "async_read_loop net cd cfg reused c p received w = Some rw \<Longrightarrow> read_loop net cd (s_timeout_ms cfg) reused c p received w = Some rw"
proof (rule async_read_loop.raw_induct
    [where P = "\<lambda>net cd cfg reused c p received w rw. read_loop net cd (s_timeout_ms cfg) reused c p received w = Some rw"])
  fix f net cd cfg reused c p received w rw
  assume IH: "\<And>net cd cfg reused c p received w rw. f net cd cfg reused c p received w = Some rw \<Longrightarrow>
      read_loop net cd (s_timeout_ms cfg) reused c p received w = Some rw"
    and "(if \<not> is_complete p
      then (case n_read net (s_timeout_ms cfg) c w of
              (Inl e, w) \<Rightarrow> if reused \<and> \<not> received then Some (Inl Stale, w) else Some (Inl (NetError e), w)
            | (Inr chunk, w) \<Rightarrow>
                if chunk = []
                then if reused \<and> \<not> received then Some (Inl Stale, w)
                     else (case feed_eof cd p of
                             Inl (e, q) \<Rightarrow> Some (Inl (ParserRaised e), w)
                           | Inr q \<Rightarrow> Some (Inr q, w))
                else (let received = True in
                      case feed cd p chunk of
                        Inl (e, q) \<Rightarrow> Some (Inl (ParserRaised e), w)
                      | Inr q \<Rightarrow> f net cd cfg reused c q received w))
      else Some (Inr p, w)) = Some rw"
  then show "read_loop net cd (s_timeout_ms cfg) reused c p received w = Some rw"
    by (cases rw, subst read_loop.simps) (auto simp: Let_def split: if_splits prod.splits sum.splits)
qed

lemma reads_as_async: "read_loop net cd ms reused c p received w = Some rw \<Longrightarrow> s_timeout_ms cfg = ms \<Longrightarrow> async_read_loop net cd cfg reused c p received w = Some rw"
proof (rule read_loop.raw_induct
    [where P = "\<lambda>net cd ms reused c p received w rw. s_timeout_ms cfg = ms \<longrightarrow> async_read_loop net cd cfg reused c p received w = Some rw", THEN mp],
    goal_cases)
  case (1 f net cd ms reused c p received w rw)
  then show ?case
    by (cases rw, intro impI, subst async_read_loop.simps) (auto simp: Let_def split: if_splits prod.splits sum.splits)
qed

lemma async_read_loop_eq: "async_read_loop net cd cfg reused c p received w = read_loop net cd (s_timeout_ms cfg) reused c p received w"
  using async_reads_as [of net cd cfg reused c p received w] reads_as_async [of net cd "s_timeout_ms cfg" reused c p received w]
  by (cases "async_read_loop net cd cfg reused c p received w"; cases "read_loop net cd (s_timeout_ms cfg) reused c p received w") auto

lemma async_exchange_eq: "async_exchange net cd cfg c key raw reused s = exchange net cd cfg c key raw reused s"
  by (auto simp: async_exchange_def exchange_def finish_exchange_def async_read_loop_eq async_give_eq async_reusable_eq Let_def
      split: prod.split sum.split option.split)

lemma async_connect_eq: "async_connect net cd cfg t key raw s = connect_fresh net cd cfg t key raw s"
  by (auto simp: async_connect_def connect_fresh_def async_exchange_eq split: prod.split sum.split)

lemma async_perform_eq: "async_perform net cd uni cfg rq u s = perform net cd uni cfg rq u s"
  by (auto simp: async_perform_def perform_def async_exchange_eq async_connect_eq async_take_eq Let_def
      split: prod.split sum.split option.split failure.split)

lemma async_request_loop_eq:
  "async_request_loop perf uni cfg seen rq u s = request_loop perf uni cfg seen rq u s"
proof (induction perf uni cfg seen rq u s rule: request_loop.induct)
  case (1 perf uni cfg seen rq u s)
  show ?case
  proof (cases "perf rq u s")
    case None
    then show ?thesis by (simp add: request_loop.simps [of perf] async_request_loop.simps [of perf])
  next
    case (Some rs)
    obtain r s1 where rs: "rs = (r, s1)" by (cases rs)
    show ?thesis
    proof (cases r)
      case (Inl f)
      with Some rs show ?thesis
        by (simp add: request_loop.simps [of perf] async_request_loop.simps [of perf])
    next
      case (Inr resp)
      have "async_request_loop perf uni cfg (seen + 1) (redirected uni rq m) v s1 =
          request_loop perf uni cfg (seen + 1) (redirected uni rq m) v s1"
        if "s_follow_redirects cfg" "next_redirect (u_upper uni) (r_method rq) u (status_code resp)
            (get_header (resp_headers resp) ''Location'') = Inr (Some (m, v))" "\<not> s_max_redirects cfg \<le> seen" for m v
        using "1.IH" [OF Some [unfolded rs Inr] refl refl refl _ refl refl refl] that by fastforce
      with Some rs Inr show ?thesis
        by (auto simp: request_loop.simps [of perf uni cfg seen] async_request_loop.simps [of perf uni cfg seen] Let_def
            split: sum.split option.split prod.split)
    qed
  qed
qed

section \<open>Properties\<close>

text \<open>
  C23: the asyncio client and the blocking client are the same function: with the same settings,
  core, pool and world, construction, every request, closing and \<open>with\<close> blocks give the same result and leave
  the same pool and the same effects on the world.
\<close>

theorem async_client_same:
  "async_init = client_init
   \<and> async_request net cd uni cfg rq u s = client_request net cd uni cfg rq u s
   \<and> async_verb net cd uni cfg verb headers body u s = client_verb net cd uni cfg verb headers body u s
   \<and> async_aclose net s = client_close net s
   \<and> async_with net block s = with_client net block s"
proof -
  have "async_init = client_init"
    by (intro ext) (auto simp: async_init_def client_init_def split: option.split sum.split)
  moreover have req: "async_request net cd uni cfg rq u s = client_request net cd uni cfg rq u s" for rq u s
    by (simp add: async_request_def client_request_def async_request_loop_eq async_perform_eq [abs_def])
  ultimately show ?thesis
    by (simp add: async_verb_def client_verb_def async_aclose_def client_close_def async_with_def with_client_def split_beta)
qed

end
