(* ===== verification/Tls_Socket.thy ===== *)
theory Tls_Socket
  imports Client
begin

text \<open>
  \<open>fizzpy/_tls.py\<close>: \<open>TlsSocket\<close>, the socket-shaped view of a native connection that HTTP
  libraries read and write, the raw file object under \<open>makefile\<close>, and \<open>wrap_socket\<close>, which
  duplicates an OS handle and hands it to the core. The native connection is again a \<open>net\<close>; the
  OS is a set of open handles. A socket refines an abstract byte stream.
\<close>

section \<open>Configuration\<close>

record tls_config =
  c_verify :: bool
  c_cafile :: "latin option"
  c_alpn :: "latin list"
  c_groups :: "nat list"
  c_extensions :: "(int \<times> bytes) list"
  c_timeout :: "pyfloat option"

text \<open>The groups the build supports are the argument; certifi's bundle is \<open>default_ca\<close> below.\<close>

definition default_config :: "nat list \<Rightarrow> tls_config" where
  "default_config default_groups = \<lparr>c_verify = True, c_cafile = None, c_alpn = [''http/1.1''],
     c_groups = default_groups, c_extensions = [], c_timeout = Some (Fin 30)\<rparr>"

definition resolved_cafile :: "latin \<Rightarrow> tls_config \<Rightarrow> latin" where
  "resolved_cafile default_ca cfg =
     (case c_cafile cfg of Some f \<Rightarrow> if f \<noteq> [] then f else default_ca | None \<Rightarrow> default_ca)"

definition timeout_ms :: "(rat \<Rightarrow> pyfloat) \<Rightarrow> tls_config \<Rightarrow> float_error + int" where
  "timeout_ms mul cfg = timeout_to_ms mul (c_timeout cfg)"

definition normalized_extensions :: "tls_config \<Rightarrow> extension_error + (int \<times> bytes) list" where
  "normalized_extensions cfg = normalize_extensions (Some (c_extensions cfg))"

section \<open>The socket\<close>

record tls_socket =
  k_conn :: conn
  k_hostname :: latin
  k_timeout :: "pyfloat option"
  k_fd :: int
  k_rbuf :: bytes
  k_eof :: bool
  k_closed :: bool

definition new_socket :: "conn \<Rightarrow> latin \<Rightarrow> pyfloat option \<Rightarrow> int \<Rightarrow> tls_socket" where
  "new_socket c name timeout fd = \<lparr>k_conn = c, k_hostname = name, k_timeout = timeout, k_fd = fd,
     k_rbuf = [], k_eof = False, k_closed = False\<rparr>"

datatype 'x sock_error =
    CoreRaised 'x
  | TimeoutRaised float_error
  | ClosedSocket
  | BufferTooSmall

text \<open>\<open>xs[:n]\<close> and \<open>xs[n:]\<close>: a negative index counts from the end.\<close>

definition slice_point :: "int \<Rightarrow> 'a list \<Rightarrow> nat" where
  "slice_point n xs = (if n < 0 then nat (int (length xs) + n) else nat n)"

definition slice_to :: "int \<Rightarrow> 'a list \<Rightarrow> 'a list" where
  "slice_to n xs = take (slice_point n xs) xs"

definition slice_from :: "int \<Rightarrow> 'a list \<Rightarrow> 'a list" where
  "slice_from n xs = drop (slice_point n xs) xs"

type_synonym ('x, 'w, 'a) sock_result = "('x sock_error + 'a) \<times> tls_socket \<times> 'w"

definition recv ::
    "(rat \<Rightarrow> pyfloat) \<Rightarrow> ('x, 'w) net \<Rightarrow> int \<Rightarrow> tls_socket \<Rightarrow> 'w \<Rightarrow> ('x, 'w, bytes) sock_result" where
  "recv mul net bufsize k w =
     (if k_rbuf k \<noteq> [] then
        (Inr (slice_to bufsize (k_rbuf k)), k\<lparr>k_rbuf := slice_from bufsize (k_rbuf k)\<rparr>, w)
      else if k_eof k then (Inr [], k, w)
      else case timeout_to_ms mul (k_timeout k) of
          Inl e \<Rightarrow> (Inl (TimeoutRaised e), k, w)
        | Inr ms \<Rightarrow> (case n_read net ms (k_conn k) w of
            (Inl e, w) \<Rightarrow> (Inl (CoreRaised e), k, w)
          | (Inr chunk, w) \<Rightarrow>
              if chunk = [] then (Inr [], k\<lparr>k_eof := True\<rparr>, w)
              else (Inr (slice_to bufsize chunk), k\<lparr>k_rbuf := slice_from bufsize chunk\<rparr>, w)))"

text \<open>
  The caller's buffer: a bytearray takes a longer slice and grows, a memoryview refuses it with
  \<open>ValueError\<close>. The result is the number of bytes and the buffer afterwards.
\<close>

datatype buffer = ByteArray bytes | MemoryView bytes

fun store :: "buffer \<Rightarrow> bytes \<Rightarrow> buffer option" where
  "store (ByteArray b) data = Some (ByteArray (data @ drop (length data) b))"
| "store (MemoryView b) data =
     (if length data \<le> length b then Some (MemoryView (data @ drop (length data) b)) else None)"

fun buffer_bytes :: "buffer \<Rightarrow> bytes" where
  "buffer_bytes (ByteArray b) = b"
| "buffer_bytes (MemoryView b) = b"

definition recv_into ::
    "(rat \<Rightarrow> pyfloat) \<Rightarrow> ('x, 'w) net \<Rightarrow> buffer \<Rightarrow> int \<Rightarrow> tls_socket \<Rightarrow> 'w \<Rightarrow> ('x, 'w, nat \<times> buffer) sock_result" where
  "recv_into mul net buf nbytes k w =
     (let size = (if nbytes \<noteq> 0 then nbytes else int (length (buffer_bytes buf))) in
      case recv mul net size k w of
        (Inl e, k, w) \<Rightarrow> (Inl e, k, w)
      | (Inr data, k, w) \<Rightarrow>
          (case store buf data of
             None \<Rightarrow> (Inl BufferTooSmall, k, w)
           | Some buf \<Rightarrow> (Inr (length data, buf), k, w)))"

definition sendall ::
    "(rat \<Rightarrow> pyfloat) \<Rightarrow> ('x, 'w) net \<Rightarrow> bytes \<Rightarrow> tls_socket \<Rightarrow> 'w \<Rightarrow> ('x, 'w, unit) sock_result" where
  "sendall mul net data k w =
     (case timeout_to_ms mul (k_timeout k) of
        Inl e \<Rightarrow> (Inl (TimeoutRaised e), k, w)
      | Inr ms \<Rightarrow> (case n_write net ms (k_conn k) data w of
          (Inl e, w) \<Rightarrow> (Inl (CoreRaised e), k, w)
        | (Inr _, w) \<Rightarrow> (Inr (), k, w)))"

definition send_bytes ::
    "(rat \<Rightarrow> pyfloat) \<Rightarrow> ('x, 'w) net \<Rightarrow> bytes \<Rightarrow> tls_socket \<Rightarrow> 'w \<Rightarrow> ('x, 'w, nat) sock_result" where
  "send_bytes mul net data k w =
     (case sendall mul net data k w of
        (Inl e, k, w) \<Rightarrow> (Inl e, k, w)
      | (Inr _, k, w) \<Rightarrow> (Inr (length data), k, w))"

definition settimeout :: "pyfloat option \<Rightarrow> tls_socket \<Rightarrow> tls_socket" where
  "settimeout timeout k = k\<lparr>k_timeout := timeout\<rparr>"

definition fileno :: "tls_socket \<Rightarrow> 'x sock_error + int" where
  "fileno k = (if k_closed k \<or> k_fd k < 0 then Inl ClosedSocket else Inr (k_fd k))"

definition socket_close :: "('x, 'w) net \<Rightarrow> tls_socket \<Rightarrow> 'w \<Rightarrow> tls_socket \<times> 'w" where
  "socket_close net k w =
     (if \<not> k_closed k then (k\<lparr>k_closed := True, k_fd := -1\<rparr>, n_close net (k_conn k) w) else (k, w))"

text \<open>
  \<open>with\<close> on a socket: the body runs on the socket itself, which is closed however the body ends;
  \<open>__exit__\<close> returns \<open>None\<close>, so an exception goes on.
\<close>

definition with_socket ::
    "('x, 'w) net \<Rightarrow> (tls_socket \<Rightarrow> 'w \<Rightarrow> 'r \<times> tls_socket \<times> 'w) \<Rightarrow> tls_socket \<Rightarrow> 'w \<Rightarrow> 'r \<times> tls_socket \<times> 'w" where
  "with_socket net body k w = (case body k w of (r, k, w) \<Rightarrow> (r, socket_close net k w))"

lemma with_socket_closed: "with_socket net body k w = (r, k', w') \<Longrightarrow> k_closed k' \<and> fileno k' = Inl ClosedSocket"
  by (auto simp: with_socket_def socket_close_def fileno_def split: prod.splits if_splits)

text \<open>The deadline of an operation, and the rest of the socket's interface.\<close>

definition gettimeout :: "tls_socket \<Rightarrow> pyfloat option" where
  "gettimeout k = k_timeout k"

definition socket_timeout_ms :: "(rat \<Rightarrow> pyfloat) \<Rightarrow> tls_socket \<Rightarrow> float_error + int" where
  "socket_timeout_ms mul k = timeout_to_ms mul (k_timeout k)"

definition setsockopt :: "'arg list \<Rightarrow> tls_socket \<Rightarrow> tls_socket" where
  "setsockopt args k = k"

definition socket_tls :: "('x, 'w) net \<Rightarrow> tls_socket \<Rightarrow> 'w \<Rightarrow> negotiated" where
  "socket_tls net k w = n_negotiated net (k_conn k) w"

definition server_hostname :: "tls_socket \<Rightarrow> latin" where
  "server_hostname k = k_hostname k"

subsection \<open>File objects\<close>

text \<open>\<open>_TlsRawIO.readinto\<close> fills a memoryview, \<open>write\<close> sends.\<close>

definition readinto ::
    "(rat \<Rightarrow> pyfloat) \<Rightarrow> ('x, 'w) net \<Rightarrow> bytes \<Rightarrow> tls_socket \<Rightarrow> 'w \<Rightarrow> ('x, 'w, nat \<times> bytes) sock_result" where
  "readinto mul net b k w =
     (case recv mul net (int (length b)) k w of
        (Inl e, k, w) \<Rightarrow> (Inl e, k, w)
      | (Inr data, k, w) \<Rightarrow> (Inr (length data, data @ drop (length data) b), k, w))"

text \<open>What \<open>makefile\<close> builds over the raw file: its own modes, then the buffering and text layers.\<close>

datatype raw_file = RawFile (raw_readable: bool) (raw_writable: bool)

datatype file_object =
    Unbuffered raw_file
  | BufferedReader raw_file int
  | BufferedWriter raw_file int
  | BufferedRWPair raw_file int
  | TextWrapper file_object

text \<open>The buffered classes of \<open>io\<close> refuse a buffer size that is not positive.\<close>

datatype makefile_error = UnbufferedText | BufferSizeNotPositive

definition DEFAULT_BUFFER_SIZE :: int where
  "DEFAULT_BUFFER_SIZE = 8192"

definition makefile :: "latin \<Rightarrow> int option \<Rightarrow> makefile_error + file_object" where
  "makefile mode buffering =
     (let writing = CHR ''w'' \<in> set mode;
          reading = (CHR ''r'' \<in> set mode \<or> \<not> writing);
          binary = CHR ''b'' \<in> set mode;
          raw = RawFile reading writing;
          buffering = (case buffering of None \<Rightarrow> DEFAULT_BUFFER_SIZE | Some n \<Rightarrow> n) in
      if buffering = 0 then (if \<not> binary then Inl UnbufferedText else Inr (Unbuffered raw))
      else if buffering < 0 then Inl BufferSizeNotPositive
      else let buffer = (if reading \<and> writing then BufferedRWPair raw buffering
                         else if reading then BufferedReader raw buffering
                         else BufferedWriter raw buffering) in
           if binary then Inr buffer else Inr (TextWrapper buffer))"

section \<open>Wrapping a socket\<close>

text \<open>
  OS handles: those open, and those of them that the core has adopted (it closes them on every
  outcome, so an adopted handle cannot leak). Duplicating gives the handle the parameter \<open>dup\<close>
  names, or fails.
\<close>

record handles =
  open_handles :: "int set"
  adopted :: "int set"

record ('x, 'o) os_core =
  dup_handle :: "'o \<Rightarrow> handles \<Rightarrow> 'x + int"
  handshake :: "int \<Rightarrow> latin \<Rightarrow> tls_config \<Rightarrow> latin \<Rightarrow> int \<Rightarrow> (int \<times> bytes) list \<Rightarrow> 'x + conn"

text \<open>
  \<open>_dup_handle\<close>: a socket of the standard library duplicates itself, of anything else the
  descriptor that \<open>fileno\<close> gives or refuses is duplicated.
\<close>

datatype ('s, 'f) sock_object = StdSocket 's | WithFileno 'f

definition dup_any ::
    "('s \<Rightarrow> handles \<Rightarrow> 'x + int) \<Rightarrow> ('f \<Rightarrow> 'x + int) \<Rightarrow> (int \<Rightarrow> handles \<Rightarrow> 'x + int)
      \<Rightarrow> ('s, 'f) sock_object \<Rightarrow> handles \<Rightarrow> 'x + int" where
  "dup_any sock_dup fileno_of os_dup sock hs =
     (case sock of
        StdSocket s \<Rightarrow> sock_dup s hs
      | WithFileno f \<Rightarrow> and_then (fileno_of f) (\<lambda>fd. os_dup fd hs))"

datatype 'x wrap_error = WrapExtensions extension_error | WrapTimeout float_error | WrapRaised 'x

text \<open>
  \<open>_prepare_wrap\<close>: the handle and the extensions; the call it returns for later evaluates the
  timeout, which \<open>submit_wrap\<close> does, before it enters the core.
\<close>

definition prepare_wrap ::
    "('x, 'o) os_core \<Rightarrow> 'o \<Rightarrow> tls_config \<Rightarrow> handles \<Rightarrow> ('x wrap_error + (int \<times> (int \<times> bytes) list)) \<times> handles" where
  "prepare_wrap os sock cfg hs =
     (case normalized_extensions cfg of
        Inl e \<Rightarrow> (Inl (WrapExtensions e), hs)
      | Inr exts \<Rightarrow> (case dup_handle os sock hs of
          Inl e \<Rightarrow> (Inl (WrapRaised e), hs)
        | Inr h \<Rightarrow> (Inr (h, exts), hs\<lparr>open_handles := insert h (open_handles hs)\<rparr>)))"

definition submit_wrap ::
    "(rat \<Rightarrow> pyfloat) \<Rightarrow> latin \<Rightarrow> ('x, 'o) os_core \<Rightarrow> latin \<Rightarrow> tls_config \<Rightarrow> int \<Rightarrow> (int \<times> bytes) list \<Rightarrow> handles
      \<Rightarrow> ('x wrap_error + conn) \<times> handles" where
  "submit_wrap mul default_ca os name cfg h exts hs =
     (case timeout_ms mul cfg of
        Inl e \<Rightarrow> (Inl (WrapTimeout e), hs)
      | Inr ms \<Rightarrow>
          (case handshake os h name cfg (resolved_cafile default_ca cfg) ms exts of
             Inl e \<Rightarrow> (Inl (WrapRaised e), hs\<lparr>open_handles := open_handles hs - {h}\<rparr>)
           | Inr c \<Rightarrow> (Inr c, hs\<lparr>adopted := insert h (adopted hs)\<rparr>)))"

definition handshake_async ::
    "(rat \<Rightarrow> pyfloat) \<Rightarrow> latin \<Rightarrow> nat list \<Rightarrow> ('x, 'o) os_core \<Rightarrow> 'o \<Rightarrow> latin \<Rightarrow> tls_config option \<Rightarrow> handles
      \<Rightarrow> ('x wrap_error + conn) \<times> handles" where
  "handshake_async mul default_ca default_groups os sock name config hs =
     (let cfg = (case config of Some c \<Rightarrow> c | None \<Rightarrow> default_config default_groups) in
      case prepare_wrap os sock cfg hs of
        (Inl e, hs) \<Rightarrow> (Inl e, hs)
      | (Inr (h, exts), hs) \<Rightarrow> submit_wrap mul default_ca os name cfg h exts hs)"

definition wrap_socket ::
    "(rat \<Rightarrow> pyfloat) \<Rightarrow> latin \<Rightarrow> nat list \<Rightarrow> ('x, 'o) os_core \<Rightarrow> 'o \<Rightarrow> latin \<Rightarrow> tls_config option \<Rightarrow> handles
      \<Rightarrow> ('x wrap_error + tls_socket) \<times> handles" where
  "wrap_socket mul default_ca default_groups os sock name config hs =
     (let cfg = (case config of Some c \<Rightarrow> c | None \<Rightarrow> default_config default_groups) in
      case prepare_wrap os sock cfg hs of
        (Inl e, hs) \<Rightarrow> (Inl e, hs)
      | (Inr (h, exts), hs) \<Rightarrow>
          (case submit_wrap mul default_ca os name cfg h exts hs of
             (Inl e, hs) \<Rightarrow> (Inl e, hs)
           | (Inr c, hs) \<Rightarrow> (Inr (new_socket c name (c_timeout cfg) h), hs)))"

text \<open>TLS inside TLS: a closed \<open>TlsSocket\<close> is refused, and nothing is opened for it.\<close>

lemma wrap_closed_socket:
  assumes "dup_handle os = dup_any sock_dup fileno os_dup" "k_closed k" "normalized_extensions cfg = Inr exts"
  shows "wrap_socket mul ca gs os (WithFileno k) name (Some cfg) hs = (Inl (WrapRaised ClosedSocket), hs)"
  using assms by (simp add: wrap_socket_def prepare_wrap_def dup_any_def fileno_def)

section \<open>The abstract byte stream\<close>

text \<open>What the core still has to give from the world \<open>w\<close>: these chunks, then the end.\<close>

inductive core_stream :: "('x, 'w) net \<Rightarrow> conn \<Rightarrow> 'w \<Rightarrow> bytes \<Rightarrow> bool" for net c where
  stream_end: "(\<And>ms. n_read net ms c w = (Inr [], w')) \<Longrightarrow> core_stream net c w []"
| stream_more: "(\<And>ms. n_read net ms c w = (Inr chunk, w')) \<Longrightarrow> chunk \<noteq> [] \<Longrightarrow> core_stream net c w' rest \<Longrightarrow>
    core_stream net c w (chunk @ rest)"

text \<open>The abstraction: the bytes a socket still delivers.\<close>

definition delivers_stream :: "('x, 'w) net \<Rightarrow> tls_socket \<Rightarrow> 'w \<Rightarrow> bytes \<Rightarrow> bool" where
  "delivers_stream net k w bs \<longleftrightarrow>
     (if k_eof k then bs = k_rbuf k
      else \<exists>rest. core_stream net (k_conn k) w rest \<and> bs = k_rbuf k @ rest)"

text \<open>Reading from an abstract stream: some bytes from its front, none only at its end.\<close>

definition stream_read :: "int \<Rightarrow> bytes \<Rightarrow> bytes \<Rightarrow> bytes \<Rightarrow> bool" where
  "stream_read n bs out bs' \<longleftrightarrow> bs = out @ bs' \<and> int (length out) \<le> n \<and> (out = [] \<longleftrightarrow> bs = [])"

lemma slice_append: "slice_to n xs @ slice_from n xs = xs"
  by (simp add: slice_to_def slice_from_def)

lemma slice_to_pos: "0 < n \<Longrightarrow> int (length (slice_to n xs)) \<le> n \<and> (slice_to n xs = [] \<longleftrightarrow> xs = [])"
  by (auto simp: slice_to_def slice_point_def)

lemma recv_stream:
  assumes "delivers_stream net k w bs" "timeout_to_ms mul (k_timeout k) = Inr ms" "0 < n"
  shows "\<exists>out k' w' bs'. recv mul net n k w = (Inr out, k', w') \<and> stream_read n bs out bs'
    \<and> delivers_stream net k' w' bs' \<and> k_timeout k' = k_timeout k"
proof (cases "k_rbuf k = []")
  case False
  let ?k = "k\<lparr>k_rbuf := slice_from n (k_rbuf k)\<rparr>"
  obtain rest where rest: "bs = k_rbuf k @ rest"
    "if k_eof k then rest = [] else core_stream net (k_conn k) w rest"
    using assms(1) by (auto simp: delivers_stream_def split: if_splits)
  have "delivers_stream net ?k w (slice_from n (k_rbuf k) @ rest)"
    using rest by (auto simp: delivers_stream_def split: if_splits)
  moreover have "stream_read n bs (slice_to n (k_rbuf k)) (slice_from n (k_rbuf k) @ rest)"
    using slice_to_pos [OF assms(3), of "k_rbuf k"] False rest(1) slice_append [of n "k_rbuf k"]
    by (simp add: stream_read_def)
  ultimately show ?thesis using False by (auto simp: recv_def)
next
  case True
  show ?thesis
  proof (cases "k_eof k")
    case eof: True
    with True assms(1,3) show ?thesis by (auto simp: delivers_stream_def recv_def stream_read_def)
  next
    case False
    with True assms(1) have "core_stream net (k_conn k) w bs" by (auto simp: delivers_stream_def)
    then show ?thesis
    proof cases
      case (stream_end w')
      with True False assms(2,3) show ?thesis
        by (auto simp: recv_def stream_read_def delivers_stream_def)
    next
      case (stream_more chunk w' rest)
      let ?k = "k\<lparr>k_rbuf := slice_from n chunk\<rparr>"
      have "recv mul net n k w = (Inr (slice_to n chunk), ?k, w')"
        using True False assms(2) stream_more(2,3) by (simp add: recv_def)
      moreover have "delivers_stream net ?k w' (slice_from n chunk @ rest)"
        using False stream_more(4) by (auto simp: delivers_stream_def)
      moreover have "stream_read n bs (slice_to n chunk) (slice_from n chunk @ rest)"
        using slice_to_pos [OF assms(3), of chunk] stream_more(1,3) slice_append [of n chunk]
        by (simp add: stream_read_def)
      ultimately show ?thesis by auto
    qed
  qed
qed

text \<open>Reading with a sequence of sizes.\<close>

fun recv_all ::
    "(rat \<Rightarrow> pyfloat) \<Rightarrow> ('x, 'w) net \<Rightarrow> int list \<Rightarrow> tls_socket \<Rightarrow> 'w \<Rightarrow> ('x, 'w, bytes) sock_result" where
  "recv_all mul net [] k w = (Inr [], k, w)"
| "recv_all mul net (n # ns) k w =
     (case recv mul net n k w of
        (Inl e, k, w) \<Rightarrow> (Inl e, k, w)
      | (Inr out, k, w) \<Rightarrow> (case recv_all mul net ns k w of
          (Inl e, k, w) \<Rightarrow> (Inl e, k, w)
        | (Inr outs, k, w) \<Rightarrow> (Inr (out @ outs), k, w)))"

lemma recv_all_stream:
  assumes "delivers_stream net k w bs" "timeout_to_ms mul (k_timeout k) = Inr ms" "\<forall>n \<in> set ns. 0 < n"
  shows "\<exists>out k' w' bs'. recv_all mul net ns k w = (Inr out, k', w') \<and> bs = out @ bs'
    \<and> delivers_stream net k' w' bs' \<and> (length bs \<le> length ns \<longrightarrow> bs' = [])"
  using assms
proof (induction ns arbitrary: k w bs)
  case Nil
  then show ?case by auto
next
  case (Cons n ns)
  obtain out k1 w1 bs1 where one: "recv mul net n k w = (Inr out, k1, w1)" "stream_read n bs out bs1"
    "delivers_stream net k1 w1 bs1" "k_timeout k1 = k_timeout k"
    using recv_stream [OF Cons.prems(1,2), of n] Cons.prems(3) by auto
  obtain outs k2 w2 bs2 where more: "recv_all mul net ns k1 w1 = (Inr outs, k2, w2)" "bs1 = outs @ bs2"
    "delivers_stream net k2 w2 bs2" "length bs1 \<le> length ns \<longrightarrow> bs2 = []"
    using Cons.IH [OF one(3)] one(4) Cons.prems(2,3) by auto
  have "length bs1 \<le> length ns" if "length bs \<le> length (n # ns)"
    using one(2) that by (cases out) (auto simp: stream_read_def)
  with one(1,2) more show ?case by (auto simp: stream_read_def)
qed

text \<open>The handles that nobody will close.\<close>

definition unowned :: "handles \<Rightarrow> int set" where
  "unowned hs = open_handles hs - adopted hs"

section \<open>Properties\<close>

text \<open>
  C17: \<open>recv\<close> refines reading from a byte stream: over a core that delivers \<open>bs\<close> in any chunks, a
  socket hands out at most \<open>bufsize\<close> bytes from its front, none only at the end, and then
  stands for what is left; the chunks of the core show through nowhere.
\<close>

theorem recv_refines_stream:
  assumes "delivers_stream net k w bs" "timeout_to_ms mul (k_timeout k) = Inr ms" "0 < bufsize"
  shows "\<exists>out k' w' bs'. recv mul net bufsize k w = (Inr out, k', w') \<and> stream_read bufsize bs out bs'
    \<and> delivers_stream net k' w' bs'"
  using recv_stream [OF assms] by blast

text \<open>
  Reading with any sequence of positive sizes gives the bytes of the stream in order, without
  loss or repetition, and as many reads as there are bytes give all of them.
\<close>

theorem recv_all_in_order:
  assumes "delivers_stream net k w bs" "timeout_to_ms mul (k_timeout k) = Inr ms" "\<forall>n \<in> set ns. 0 < n"
  shows "\<exists>out k' w' bs'. recv_all mul net ns k w = (Inr out, k', w') \<and> bs = out @ bs'
    \<and> delivers_stream net k' w' bs' \<and> (length bs \<le> length ns \<longrightarrow> out = bs)"
  using recv_all_stream [OF assms] by auto

text \<open>
  Closing is idempotent: the core's connection is closed once, however often \<open>close\<close> runs, and
  the descriptor is not given out any more.
\<close>

theorem close_idempotent:
  "(let (k', w') = socket_close net k w in
     socket_close net k' w' = (k', w') \<and> k_closed k'
     \<and> w' = (if k_closed k then w else n_close net (k_conn k) w)
     \<and> fileno k' = (Inl ClosedSocket :: 'x sock_error + int))"
  by (simp add: socket_close_def fileno_def)

text \<open>
  C34: which handles a failed or successful wrap leaves open without an owner: none, except when
  the extensions are valid, the handle was duplicated, and the timeout does not convert: then
  the duplicate is left open, adopted by nobody.
\<close>

theorem wrap_socket_leak:
  assumes "dup_handle os sock hs = Inr h" "h \<notin> open_handles hs" "adopted hs \<subseteq> open_handles hs"
    and "wrap_socket mul default_ca default_groups os sock name (Some cfg) hs = (result, hs')"
  shows "unowned hs' = (if (\<exists>exts. normalized_extensions cfg = Inr exts) \<and> (\<exists>e. timeout_ms mul cfg = Inl e)
      then insert h (unowned hs) else unowned hs)"
proof (cases "normalized_extensions cfg")
  case (Inl e)
  with assms(4) show ?thesis by (auto simp: wrap_socket_def prepare_wrap_def)
next
  case (Inr exts)
  let ?hs = "hs\<lparr>open_handles := insert h (open_handles hs)\<rparr>"
  have "hs' = snd (submit_wrap mul default_ca os name cfg h exts ?hs)"
    using Inr assms(1,4) by (auto simp: wrap_socket_def prepare_wrap_def split: prod.splits sum.splits)
  with Inr assms(2,3) show ?thesis
    by (cases "timeout_ms mul cfg"; cases "handshake os h name cfg (resolved_cafile default_ca cfg) (projr (timeout_ms mul cfg)) exts")
      (auto simp: submit_wrap_def unowned_def)
qed

section \<open>The properties at concrete sockets\<close>

definition demo_mul :: "rat \<Rightarrow> pyfloat" where
  "demo_mul r = Fin (r * 1000)"

definition demo_socket :: tls_socket where
  "demo_socket = new_socket 5 ''h'' None 9"

text \<open>A core that, unlike the scripted one, keeps reporting the end.\<close>

definition ending_net :: "(latin, bytes list) net" where
  "ending_net = \<lparr>n_connect = \<lambda>cfg t w. (Inr 5, w), n_write = \<lambda>ms c raw w. (Inr (), w),
     n_read = \<lambda>ms c script. (case script of [] \<Rightarrow> (Inr [], []) | b # bs \<Rightarrow> (Inr b, bs)),
     n_close = \<lambda>c w. w, n_negotiated = \<lambda>c w. \<lparr>neg_version = [], neg_cipher = [], neg_group = [],
       neg_group_code = 0, neg_alpn = [], neg_sni = [], neg_peer_cert = []\<rparr>\<rparr>"

lemma ending_net_stream: "\<forall>b \<in> set script. b \<noteq> [] \<Longrightarrow> core_stream ending_net 5 script (concat script)"
proof (induction script)
  case Nil
  show ?case by (simp, rule stream_end [of _ _ _ "[]"]) (simp add: ending_net_def)
next
  case (Cons b bs)
  then show ?case by (simp, intro stream_more [of _ _ _ _ bs]) (simp_all add: ending_net_def)
qed

lemma demo_delivers: "delivers_stream ending_net demo_socket [''hel'', ''lo''] ''hello''"
  using ending_net_stream [of "[''hel'', ''lo'']"] by (simp add: delivers_stream_def demo_socket_def new_socket_def)

lemma demo_timeout: "timeout_to_ms demo_mul (k_timeout demo_socket) = Inr 0"
  by (simp add: timeout_to_ms_def demo_socket_def new_socket_def)

lemma recv_refines_stream_witness:
  "\<exists>out k' w' bs'. recv demo_mul ending_net 2 demo_socket [''hel'', ''lo''] = (Inr out, k', w')
    \<and> stream_read 2 ''hello'' out bs' \<and> delivers_stream ending_net k' w' bs'"
  by (rule recv_refines_stream [OF demo_delivers demo_timeout]) simp

lemma recv_all_in_order_witness:
  "\<exists>k' w'. recv_all demo_mul ending_net [2, 2, 2, 2, 2] demo_socket [''hel'', ''lo''] = (Inr ''hello'', k', w')"
  using recv_all_in_order [OF demo_delivers demo_timeout, of "[2, 2, 2, 2, 2]"] by auto

definition demo_os :: "(latin, unit) os_core" where
  "demo_os = \<lparr>dup_handle = \<lambda>sock hs. Inr 9, handshake = \<lambda>h name cfg ca ms exts. Inr 5\<rparr>"

lemma wrap_socket_leak_witness:
  "unowned (snd (wrap_socket demo_mul [] [29] demo_os () ''h'' (Some ((default_config [29])\<lparr>c_timeout := Some Inf\<rparr>))
      \<lparr>open_handles = {3}, adopted = {}\<rparr>)) = {9, 3}"
proof -
  let ?cfg = "(default_config [29])\<lparr>c_timeout := Some Inf\<rparr>" and ?hs = "\<lparr>open_handles = {3}, adopted = {}\<rparr>"
  obtain result hs' where w: "wrap_socket demo_mul [] [29] demo_os () ''h'' (Some ?cfg) ?hs = (result, hs')"
    by fastforce
  have "\<exists>exts. normalized_extensions ?cfg = Inr exts"
    by (simp add: normalized_extensions_def normalize_extensions_def default_config_def)
  moreover have "\<exists>e. timeout_ms demo_mul ?cfg = Inl e"
    by (simp add: timeout_ms_def timeout_to_ms_def)
  moreover have "dup_handle demo_os () ?hs = Inr 9" by (simp add: demo_os_def)
  from wrap_socket_leak [OF this _ _ w] have "unowned hs' =
      (if (\<exists>exts. normalized_extensions ?cfg = Inr exts) \<and> (\<exists>e. timeout_ms demo_mul ?cfg = Inl e)
      then insert 9 (unowned ?hs) else unowned ?hs)" by simp
  ultimately show ?thesis using w by (simp add: unowned_def)
qed

end
