(* ===== verification/Ssl_Context.thy ===== *)
theory Ssl_Context
  imports Tls_Socket
begin

text \<open>
  The adapters of \<open>fizzpy/contrib\<close>: \<open>FizzSSLContext\<close> with its fallback to the standard library's
  TLS, and the \<open>httpx\<close> transport and \<open>requests\<close> adapter that install it. The standard library's
  sockets and TLS are the parameter \<open>stdlib\<close>; \<open>httpx\<close> and \<open>requests\<close> are other people's code, so
  what is modelled is what they are given.
\<close>

section \<open>The context\<close>

datatype verify_mode = CERT_NONE | CERT_OPTIONAL | CERT_REQUIRED

record ssl_context =
  x_config :: tls_config
  x_cafile :: "latin option"
  x_alpn :: "latin list"
  x_fallback :: bool
  x_check_hostname :: bool
  x_verify_mode :: verify_mode

definition context_init :: "nat list \<Rightarrow> tls_config option \<Rightarrow> bool \<Rightarrow> ssl_context" where
  "context_init default_groups config fallback =
     (let cfg = (case config of Some c \<Rightarrow> c | None \<Rightarrow> default_config default_groups) in
      \<lparr>x_config = cfg, x_cafile = c_cafile cfg, x_alpn = c_alpn cfg, x_fallback = fallback,
       x_check_hostname = True, x_verify_mode = (if c_verify cfg then CERT_REQUIRED else CERT_NONE)\<rparr>)"

datatype context_error = CaPathUnsupported | ClientCertUnsupported

definition given :: "latin option \<Rightarrow> bool" where
  "given x \<longleftrightarrow> x \<noteq> None \<and> x \<noteq> Some []"

definition load_verify_locations ::
    "latin option \<Rightarrow> latin option \<Rightarrow> latin option \<Rightarrow> ssl_context \<Rightarrow> context_error + ssl_context" where
  "load_verify_locations cafile capath cadata ctx =
     (if given capath \<or> given cadata then Inl CaPathUnsupported
      else if given cafile then Inr (ctx\<lparr>x_cafile := cafile\<rparr>) else Inr ctx)"

definition set_alpn_protocols :: "latin list \<Rightarrow> ssl_context \<Rightarrow> ssl_context" where
  "set_alpn_protocols protocols ctx = ctx\<lparr>x_alpn := protocols\<rparr>"

definition load_cert_chain :: "ssl_context \<Rightarrow> context_error + ssl_context" where
  "load_cert_chain ctx = Inl ClientCertUnsupported"

text \<open>The configuration of a handshake: \<open>replace(self._config, ...)\<close>.\<close>

definition effective_config :: "ssl_context \<Rightarrow> tls_config" where
  "effective_config ctx = (x_config ctx)
     \<lparr>c_verify := (x_verify_mode ctx \<noteq> CERT_NONE), c_cafile := x_cafile ctx, c_alpn := x_alpn ctx\<rparr>"

section \<open>Which failures fall back\<close>

text \<open>An exception: its place among the classes of \<open>ssl\<close>, the alert it is tagged with, its text.\<close>

record ssl_fault =
  e_is_ssl :: bool
  e_is_cert :: bool
  e_alert :: "latin option"
  e_text :: latin

definition is_protocol_version_failure :: "ssl_fault \<Rightarrow> bool" where
  "is_protocol_version_failure e =
     (if e_is_cert e then False
      else case e_alert e of
          Some a \<Rightarrow> a = ''protocol_version''
        | None \<Rightarrow> contains ''protocol_version'' (e_text e))"

section \<open>The handshake of the standard library\<close>

text \<open>
  What the retry asks of the standard library: a connection to \<open>q_peer\<close> and a context with these
  settings. \<open>create_default_context\<close> checks host names and requires certificates.
\<close>

record 'p std_request =
  q_peer :: 'p
  q_timeout :: "pyfloat option"
  q_cafile :: latin
  q_alpn :: "latin list"
  q_check_hostname :: bool
  q_verify_mode :: verify_mode
  q_hostname :: "latin option"

text \<open>The failure of each step, if it fails.\<close>

record ('o, 'p) stdlib =
  std_peername :: "'o \<Rightarrow> ssl_fault + 'p"
  std_socket :: "ssl_fault option"
  std_settimeout :: "pyfloat option \<Rightarrow> ssl_fault option"
  std_connect :: "'p \<Rightarrow> ssl_fault option"
  std_context :: "latin \<Rightarrow> ssl_fault option"
  std_alpn :: "latin list \<Rightarrow> ssl_fault option"
  std_wrap :: "'p std_request \<Rightarrow> ssl_fault option"

text \<open>What happens to the caller's socket and to the new one.\<close>

datatype std_event = CloseDead | OpenNew | CloseNew

fun first_fault :: "ssl_fault option list \<Rightarrow> ssl_fault option" where
  "first_fault [] = None"
| "first_fault (Some e # rest) = Some e"
| "first_fault (None # rest) = first_fault rest"

definition stdlib_handshake ::
    "latin \<Rightarrow> ('o, 'p) stdlib \<Rightarrow> 'p \<Rightarrow> latin option \<Rightarrow> tls_config \<Rightarrow> (ssl_fault + 'p std_request) \<times> std_event list" where
  "stdlib_handshake default_ca std peer srv cfg =
     (case std_socket std of
        Some e \<Rightarrow> (Inl e, [CloseDead])
      | None \<Rightarrow>
          (let cafile = resolved_cafile default_ca cfg;
               req = \<lparr>q_peer = peer, q_timeout = c_timeout cfg, q_cafile = cafile, q_alpn = c_alpn cfg,
                 q_check_hostname = c_verify cfg, q_verify_mode = (if c_verify cfg then CERT_REQUIRED else CERT_NONE),
                 q_hostname = (if given srv then srv else None)\<rparr> in
           case first_fault [std_settimeout std (c_timeout cfg), std_connect std peer, std_context std cafile,
                  std_alpn std (c_alpn cfg), std_wrap std req] of
             Some e \<Rightarrow> (Inl e, [CloseDead, OpenNew, CloseNew])
           | None \<Rightarrow> (Inr req, [CloseDead, OpenNew])))"

section \<open>wrap_socket\<close>

datatype 'p wrapped = FizzSocket tls_socket | StdSocket "'p std_request"

definition context_wrap_socket ::
    "(rat \<Rightarrow> pyfloat) \<Rightarrow> latin \<Rightarrow> nat list \<Rightarrow> (ssl_fault, 'o) os_core \<Rightarrow> ('o, 'p) stdlib \<Rightarrow> 'o \<Rightarrow> latin option
      \<Rightarrow> ssl_context \<Rightarrow> handles \<Rightarrow> (ssl_fault wrap_error + 'p wrapped) \<times> handles \<times> std_event list" where
  "context_wrap_socket mul default_ca default_groups os std sock srv ctx hs =
     (let cfg = effective_config ctx;
          name = (case srv of None \<Rightarrow> [] | Some n \<Rightarrow> n);
          fizz = wrap_socket mul default_ca default_groups os sock name (Some cfg) in
      if \<not> x_fallback ctx then (case fizz hs of (Inl e, hs) \<Rightarrow> (Inl e, hs, []) | (Inr k, hs) \<Rightarrow> (Inr (FizzSocket k), hs, []))
      else case std_peername std sock of
        Inl e \<Rightarrow> (Inl (WrapRaised e), hs, [])
      | Inr peer \<Rightarrow>
          (case fizz hs of
             (Inr k, hs) \<Rightarrow> (Inr (FizzSocket k), hs, [])
           | (Inl (WrapRaised e), hs) \<Rightarrow>
               if \<not> e_is_ssl e \<or> \<not> is_protocol_version_failure e then (Inl (WrapRaised e), hs, [])
               else (case stdlib_handshake default_ca std peer srv cfg of
                   (Inl e, tr) \<Rightarrow> (Inl (WrapRaised e), hs, tr)
                 | (Inr req, tr) \<Rightarrow> (Inr (StdSocket req), hs, tr))
           | (Inl e, hs) \<Rightarrow> (Inl e, hs, [])))"

section \<open>The adapters\<close>

datatype transport_error = UnsupportedKeyword latin | Http2Unsupported

text \<open>The keyword arguments, as a dict of values; \<open>truth\<close> is their truth value.\<close>

definition httpx_transport ::
    "nat list \<Rightarrow> ('v \<Rightarrow> bool) \<Rightarrow> tls_config option \<Rightarrow> bool \<Rightarrow> (latin, 'v) dict
      \<Rightarrow> transport_error + ssl_context \<times> (latin, 'v) dict" where
  "httpx_transport default_groups truth config fallback kwargs =
     (case find (\<lambda>k. dict_get kwargs k \<noteq> None) [''verify'', ''cert''] of
        Some k \<Rightarrow> Inl (UnsupportedKeyword k)
      | None \<Rightarrow>
          if (case dict_get kwargs ''http2'' of None \<Rightarrow> False | Some v \<Rightarrow> truth v) then Inl Http2Unsupported
          else Inr (context_init default_groups config fallback, filter (\<lambda>(k, v). k \<noteq> ''http2'') kwargs))"

record fizz_adapter =
  ad_config :: "tls_config option"
  ad_fallback :: bool

datatype 'v kwarg = ContextArg ssl_context | OtherArg 'v

definition adapter_init :: "tls_config option \<Rightarrow> bool \<Rightarrow> fizz_adapter" where
  "adapter_init config fallback = \<lparr>ad_config = config, ad_fallback = fallback\<rparr>"

definition init_poolmanager :: "nat list \<Rightarrow> fizz_adapter \<Rightarrow> (latin, 'v kwarg) dict \<Rightarrow> (latin, 'v kwarg) dict" where
  "init_poolmanager default_groups ad kwargs =
     dict_set ''ssl_context'' (ContextArg (context_init default_groups (ad_config ad) (ad_fallback ad))) kwargs"

definition proxy_manager_for :: "nat list \<Rightarrow> fizz_adapter \<Rightarrow> (latin, 'v kwarg) dict \<Rightarrow> (latin, 'v kwarg) dict" where
  "proxy_manager_for default_groups ad kwargs =
     dict_set ''ssl_context'' (ContextArg (context_init default_groups (ad_config ad) (ad_fallback ad))) kwargs"

section \<open>Calls between construction and handshake\<close>

text \<open>What an HTTP client does to the context before it wraps a socket.\<close>

datatype context_call =
    LoadCafile "latin option"
  | SetAlpn "latin list"
  | SetVerifyMode verify_mode
  | SetCheckHostname bool

fun apply_call :: "ssl_context \<Rightarrow> context_call \<Rightarrow> ssl_context" where
  "apply_call ctx (LoadCafile cafile) =
     (case load_verify_locations cafile None None ctx of Inl e \<Rightarrow> ctx | Inr ctx \<Rightarrow> ctx)"
| "apply_call ctx (SetAlpn protocols) = set_alpn_protocols protocols ctx"
| "apply_call ctx (SetVerifyMode mode) = ctx\<lparr>x_verify_mode := mode\<rparr>"
| "apply_call ctx (SetCheckHostname b) = ctx\<lparr>x_check_hostname := b\<rparr>"

text \<open>The last value that the calls set, if any.\<close>

fun last_given :: "('a \<Rightarrow> 'b option) \<Rightarrow> 'b \<Rightarrow> 'a list \<Rightarrow> 'b" where
  "last_given f d [] = d"
| "last_given f d (x # xs) = last_given f (case f x of None \<Rightarrow> d | Some v \<Rightarrow> v) xs"

section \<open>Properties\<close>

text \<open>
  The handshake is configured by what the HTTP client said last: its verify mode, its last CA
  file that is not empty, and its last protocols; what it did not say, and the groups, the
  extensions and the timeout always, come from the configuration the adapter was given.
\<close>

theorem context_config_effective:
  "effective_config (foldl apply_call (context_init default_groups (Some cfg) fallback) calls) = cfg
     \<lparr>c_verify := last_given (\<lambda>c. case c of SetVerifyMode m \<Rightarrow> Some (m \<noteq> CERT_NONE) | _ \<Rightarrow> None) (c_verify cfg) calls,
      c_cafile := last_given (\<lambda>c. case c of LoadCafile f \<Rightarrow> if given f then Some f else None | _ \<Rightarrow> None) (c_cafile cfg) calls,
      c_alpn := last_given (\<lambda>c. case c of SetAlpn ps \<Rightarrow> Some ps | _ \<Rightarrow> None) (c_alpn cfg) calls\<rparr>"
proof -
  have "effective_config (foldl apply_call ctx calls) = (x_config ctx)
     \<lparr>c_verify := last_given (\<lambda>c. case c of SetVerifyMode m \<Rightarrow> Some (m \<noteq> CERT_NONE) | _ \<Rightarrow> None) (x_verify_mode ctx \<noteq> CERT_NONE) calls,
      c_cafile := last_given (\<lambda>c. case c of LoadCafile f \<Rightarrow> if given f then Some f else None | _ \<Rightarrow> None) (x_cafile ctx) calls,
      c_alpn := last_given (\<lambda>c. case c of SetAlpn ps \<Rightarrow> Some ps | _ \<Rightarrow> None) (x_alpn ctx) calls\<rparr>" for ctx
  proof (induction calls arbitrary: ctx)
    case Nil
    show ?case by (simp add: effective_config_def)
  next
    case (Cons c calls)
    show ?case
      by (cases c) (simp_all add: Cons.IH load_verify_locations_def set_alpn_protocols_def given_def)
  qed
  from this [of "context_init default_groups (Some cfg) fallback"] show ?thesis
    by (simp add: context_init_def)
qed

text \<open>
  C9: a handshake is never downgraded silently: a socket of the standard library is only returned
  when the fallback was asked for and Fizz failed with the \<open>protocol_version\<close> alert, never after
  a certificate failure; it verifies certificates and names exactly when the context does,
  against the same CA bundle, host name and peer; and any other failure of Fizz is raised as it
  is, without a new connection.
\<close>

theorem no_silent_downgrade:
  assumes "context_wrap_socket mul default_ca default_groups os std sock srv ctx hs = (result, hs', tr)"
  shows "(\<forall>req. result = Inr (StdSocket req) \<longrightarrow>
      x_fallback ctx \<and> std_peername std sock = Inr (q_peer req)
      \<and> (\<exists>e. fst (wrap_socket mul default_ca default_groups os sock (case srv of None \<Rightarrow> [] | Some n \<Rightarrow> n)
               (Some (effective_config ctx)) hs) = Inl (WrapRaised e)
            \<and> e_is_ssl e \<and> \<not> e_is_cert e
            \<and> (e_alert e = Some ''protocol_version'' \<or> e_alert e = None \<and> contains ''protocol_version'' (e_text e)))
      \<and> (q_verify_mode req = CERT_NONE \<longleftrightarrow> x_verify_mode ctx = CERT_NONE)
      \<and> (q_check_hostname req \<longleftrightarrow> x_verify_mode ctx \<noteq> CERT_NONE)
      \<and> q_cafile req = resolved_cafile default_ca (effective_config ctx)
      \<and> q_hostname req = (if given srv then srv else None))
    \<and> (tr \<noteq> [] \<longrightarrow> x_fallback ctx)
    \<and> (\<forall>e. fst (wrap_socket mul default_ca default_groups os sock (case srv of None \<Rightarrow> [] | Some n \<Rightarrow> n)
               (Some (effective_config ctx)) hs) = Inl (WrapRaised e) \<and> e_is_cert e \<and> (\<exists>peer. std_peername std sock = Inr peer)
         \<longrightarrow> result = Inl (WrapRaised e) \<and> tr = [])"
proof -
  let ?cfg = "effective_config ctx" and ?name = "case srv of None \<Rightarrow> [] | Some n \<Rightarrow> n"
  obtain rf hf where fizz: "wrap_socket mul default_ca default_groups os sock ?name (Some ?cfg) hs = (rf, hf)"
    by fastforce
  have verify: "c_verify ?cfg \<longleftrightarrow> x_verify_mode ctx \<noteq> CERT_NONE" by (simp add: effective_config_def)
  show ?thesis
  proof (cases "x_fallback ctx")
    case False
    with assms fizz show ?thesis by (cases rf) (auto simp: context_wrap_socket_def)
  next
    case fallback: True
    show ?thesis
    proof (cases "\<exists>peer e. std_peername std sock = Inr peer \<and> rf = Inl (WrapRaised e) \<and> e_is_ssl e \<and> is_protocol_version_failure e")
      case False
      then have "(\<forall>req. result \<noteq> Inr (StdSocket req)) \<and> tr = []
          \<and> (\<forall>peer e. std_peername std sock = Inr peer \<and> rf = Inl (WrapRaised e) \<longrightarrow> result = Inl (WrapRaised e))"
        using assms fizz fallback unfolding context_wrap_socket_def Let_def
        by (cases "std_peername std sock") (auto split: sum.splits wrap_error.splits if_splits)
      with fallback fizz show ?thesis by auto
    next
      case True
      then obtain peer e where e: "std_peername std sock = Inr peer" "rf = Inl (WrapRaised e)" "e_is_ssl e"
        "is_protocol_version_failure e" by blast
      obtain r tr' where std: "stdlib_handshake default_ca std peer srv ?cfg = (r, tr')" by fastforce
      have out: "result = (case r of Inl e \<Rightarrow> Inl (WrapRaised e) | Inr req \<Rightarrow> Inr (StdSocket req))" "tr = tr'"
        using assms fizz fallback e std by (auto simp: context_wrap_socket_def Let_def split: sum.splits)
      have "\<not> e_is_cert e \<and> (e_alert e = Some ''protocol_version'' \<or> e_alert e = None \<and> contains ''protocol_version'' (e_text e))"
        using e(4) by (auto simp: is_protocol_version_failure_def split: if_splits option.splits)
      moreover have "q_peer req = peer \<and> (q_verify_mode req = CERT_NONE \<longleftrightarrow> x_verify_mode ctx = CERT_NONE)
          \<and> (q_check_hostname req \<longleftrightarrow> x_verify_mode ctx \<noteq> CERT_NONE) \<and> q_cafile req = resolved_cafile default_ca ?cfg
          \<and> q_hostname req = (if given srv then srv else None)" if "r = Inr req" for req
        using std that verify by (auto simp: stdlib_handshake_def Let_def split: option.splits)
      ultimately show ?thesis
        using fallback e(1-3) fizz out by (cases r) auto
    qed
  qed
qed

text \<open>
  The retry over the standard library keeps no socket open that it does not return: the
  caller's is closed first, and the new one is closed when any step fails.
\<close>

theorem fallback_closes:
  assumes "context_wrap_socket mul default_ca default_groups os std sock srv ctx hs = (result, hs', tr)" "tr \<noteq> []"
  shows "hd tr = CloseDead \<and> (OpenNew \<in> set tr \<longrightarrow> (CloseNew \<in> set tr \<longleftrightarrow> (\<exists>e. result = Inl e)))
    \<and> (\<forall>k. result \<noteq> Inr (FizzSocket k))"
  using assms
  by (auto simp: context_wrap_socket_def stdlib_handshake_def Let_def
      split: sum.splits prod.splits if_splits wrap_error.splits option.splits)

section \<open>The properties at concrete handshakes\<close>

definition demo_ssl_fault :: "latin option \<Rightarrow> bool \<Rightarrow> ssl_fault" where
  "demo_ssl_fault alert cert = \<lparr>e_is_ssl = True, e_is_cert = cert, e_alert = alert, e_text = ''failed''\<rparr>"

text \<open>A peer that Fizz cannot shake hands with, which the standard library can reach.\<close>

definition failing_os :: "ssl_fault \<Rightarrow> (ssl_fault, unit) os_core" where
  "failing_os e = \<lparr>dup_handle = \<lambda>sock hs. Inr 9, handshake = \<lambda>h name cfg ca ms exts. Inl e\<rparr>"

definition demo_std :: "(unit, latin) stdlib" where
  "demo_std = \<lparr>std_peername = \<lambda>sock. Inr ''10.0.0.1'', std_socket = None, std_settimeout = \<lambda>t. None,
     std_connect = \<lambda>peer. None, std_context = \<lambda>ca. None, std_alpn = \<lambda>protocols. None, std_wrap = \<lambda>req. None\<rparr>"

abbreviation demo_wrap :: "ssl_fault \<Rightarrow> (ssl_fault wrap_error + latin wrapped) \<times> handles \<times> std_event list" where
  "demo_wrap e \<equiv> context_wrap_socket demo_mul ''ca'' [29] (failing_os e) demo_std () (Some ''h'')
     (context_init [29] None True) \<lparr>open_handles = {}, adopted = {}\<rparr>"

lemma demo_fizz:
  "fst (wrap_socket demo_mul ''ca'' [29] (failing_os e) () ''h'' (Some (effective_config (context_init [29] None True)))
     \<lparr>open_handles = {}, adopted = {}\<rparr>) = Inl (WrapRaised e)"
  by (simp add: wrap_socket_def prepare_wrap_def submit_wrap_def normalized_extensions_def normalize_extensions_def
      effective_config_def context_init_def default_config_def failing_os_def timeout_ms_def timeout_to_ms_def
      demo_mul_def Let_def)

lemma no_silent_downgrade_witness:
  "fst (demo_wrap (demo_ssl_fault (Some ''certificate_unknown'') True)) = Inl (WrapRaised (demo_ssl_fault (Some ''certificate_unknown'') True))"
proof -
  let ?e = "demo_ssl_fault (Some ''certificate_unknown'') True"
  obtain result hs' tr where w: "demo_wrap ?e = (result, hs', tr)" by (metis prod_cases3)
  have "e_is_cert ?e" by (simp add: demo_ssl_fault_def)
  then have "result = Inl (WrapRaised ?e)"
    using no_silent_downgrade [OF w] demo_fizz [of ?e] by (simp add: demo_std_def)
  with w show ?thesis by simp
qed

lemma fallback_closes_witness:
  "hd (snd (snd (demo_wrap (demo_ssl_fault (Some ''protocol_version'') False)))) = CloseDead"
proof -
  let ?e = "demo_ssl_fault (Some ''protocol_version'') False"
  obtain result hs' tr where w: "demo_wrap ?e = (result, hs', tr)" by (metis prod_cases3)
  have "snd (snd (demo_wrap ?e)) = [CloseDead, OpenNew]"
    using demo_fizz [of ?e]
    by (cases "wrap_socket demo_mul ''ca'' [29] (failing_os ?e) () ''h'' (Some (effective_config (context_init [29] None True)))
      \<lparr>open_handles = {}, adopted = {}\<rparr>")
      (simp add: context_wrap_socket_def stdlib_handshake_def demo_std_def demo_ssl_fault_def is_protocol_version_failure_def
        context_init_def Let_def)
  with w have "tr \<noteq> []" by simp
  from fallback_closes [OF w this] w show ?thesis by simp
qed

end
