(* ===== verification/Targets.thy ===== *)
theory Targets
  imports Py_Url
begin

text \<open>
  The targets of the probe: \<open>parse_target\<close> and \<open>_server_name\<close> of \<open>fizzpy/probe.py\<close>. Text is
  Latin-1. The \<open>idna\<close> codec is the standard library's for ASCII names; for a name with other
  characters it needs the Unicode tables of nameprep, which are the parameter \<open>nonascii\<close>.
\<close>

section \<open>The standard library\<close>

text \<open>\<open>ipaddress.ip_address\<close> accepts the text.\<close>

definition ip_address_ok :: "latin \<Rightarrow> bool" where
  "ip_address_ok s \<longleftrightarrow> CHR ''/'' \<notin> set s \<and> (ipv4_ok s \<or> ipv6_ok s)"

definition is_ascii :: "char \<Rightarrow> bool" where
  "is_ascii c \<longleftrightarrow> (of_char c :: nat) < 128"

text \<open>\<open>host.encode("idna")\<close>; \<open>None\<close> is a \<open>UnicodeError\<close>.\<close>

definition labels_ok :: "latin \<Rightarrow> bool" where
  "labels_ok host \<longleftrightarrow>
     (let labels = py_split ''.'' host in
      list_all (\<lambda>l. 0 < length l \<and> length l < 64) (butlast labels) \<and> length (last labels) < 64)"

definition idna_encode :: "(latin \<Rightarrow> latin option) \<Rightarrow> latin \<Rightarrow> latin option" where
  "idna_encode nonascii host =
     (if host = [] then Some []
      else if list_all is_ascii host then (if labels_ok host then Some host else None)
      else nonascii host)"

text \<open>\<open>SplitResult.username\<close> and \<open>SplitResult.password\<close>: the user info before the last \<open>@\<close>.\<close>

definition userinfo :: "latin \<Rightarrow> latin option" where
  "userinfo netloc =
     (if CHR ''@'' \<in> set netloc
      then Some (rev (drop 1 (dropWhile (\<lambda>c. c \<noteq> CHR ''@'') (rev netloc)))) else None)"

definition username :: "split \<Rightarrow> latin option" where
  "username sp = map_option (before CHR '':'') (userinfo (sp_netloc sp))"

definition password :: "split \<Rightarrow> latin option" where
  "password sp =
     (case userinfo (sp_netloc sp) of
        None \<Rightarrow> None
      | Some u \<Rightarrow> if CHR '':'' \<in> set u then Some (after CHR '':'' u) else None)"

definition rstrip_dots :: "latin \<Rightarrow> latin" where
  "rstrip_dots s = rev (dropWhile (\<lambda>c. c = CHR ''.'') (rev s))"

section \<open>parse_target\<close>

datatype target_fault =
    TargetUrl url_error
  | TargetNotHttps latin
  | HasUserInfo
  | TargetNoHost
  | BadHostname
  | EmptyPort
  | BadPort

definition parse_target :: "(latin \<Rightarrow> latin option) \<Rightarrow> latin \<Rightarrow> int \<Rightarrow> target_fault + latin \<times> int" where
  "parse_target nonascii spec default_port =
     (let text = str_strip spec in
      if ip_address_ok text then Inr (text, default_port)
      else (case urlsplit [] (if contains ''://'' text then text else ''//'' @ text) of
          Inl e \<Rightarrow> Inl (TargetUrl e)
        | Inr parts \<Rightarrow>
            if sp_scheme parts \<notin> {[], ''https''} then Inl (TargetNotHttps (sp_scheme parts))
            else if username parts \<noteq> None \<or> password parts \<noteq> None then Inl HasUserInfo
            else let host = rstrip_dots (case hostname parts of None \<Rightarrow> [] | Some h \<Rightarrow> h) in
              if host = [] then Inl TargetNoHost
              else if idna_encode nonascii host = None then Inl BadHostname
              else if suffix '':'' (sp_netloc parts) then Inl EmptyPort
              else (case port parts of
                  Inl e \<Rightarrow> Inl (TargetUrl e)
                | Inr p \<Rightarrow>
                    let p = (case p of None \<Rightarrow> default_port | Some p \<Rightarrow> p) in
                    if \<not> (1 \<le> p \<and> p \<le> 65535) then Inl BadPort else Inr (host, p))))"

text \<open>\<open>_server_name\<close>; \<open>None\<close> is a \<open>UnicodeError\<close>.\<close>

definition server_name :: "(latin \<Rightarrow> latin option) \<Rightarrow> latin \<Rightarrow> latin option" where
  "server_name nonascii host = (if ip_address_ok host then Some [] else idna_encode nonascii host)"

section \<open>What an accepted target is\<close>

lemma rstrip_dots_last: "rstrip_dots s = [] \<or> last (rstrip_dots s) \<noteq> CHR ''.''"
  unfolding rstrip_dots_def using hd_dropWhile [of "\<lambda>c. c = CHR ''.''" "rev s"]
  by (cases "dropWhile (\<lambda>c. c = CHR ''.'') (rev s)") (auto simp: last_rev)

lemma rstrip_dots_prefix: "\<exists>dots. s = rstrip_dots s @ dots"
  unfolding rstrip_dots_def
  by (metis rev_append rev_rev_ident takeWhile_dropWhile_id)

lemma hostname_lower:
  assumes "hostname sp = Some h" "CHR ''%'' \<notin> set h"
  shows "lower h = h"
proof -
  let ?i = "fst (hostinfo sp)"
  have h: "h = lower (before CHR ''%'' ?i) @ dropWhile (\<lambda>c. c \<noteq> CHR ''%'') ?i"
    using assms(1) by (auto simp: hostname_def Let_def split: if_splits)
  have "dropWhile (\<lambda>c. c \<noteq> CHR ''%'') ?i = []"
    using assms(2) h hd_dropWhile [of "\<lambda>c. c \<noteq> CHR ''%''" ?i]
    by (cases "dropWhile (\<lambda>c. c \<noteq> CHR ''%'') ?i") auto
  with h show ?thesis by simp
qed

lemma lower_rstrip_dots:
  assumes "lower h = h"
  shows "lower (rstrip_dots h) = rstrip_dots h"
proof -
  obtain dots where "h = rstrip_dots h @ dots" using rstrip_dots_prefix by blast
  with assms have "lower (rstrip_dots h) @ lower dots = rstrip_dots h @ dots"
    by (metis lower_def map_append)
  then show ?thesis by simp
qed

lemma percent_rstrip_dots: "CHR ''%'' \<in> set h \<Longrightarrow> CHR ''%'' \<in> set (rstrip_dots h)"
  by (induction h rule: rev_induct) (auto simp: rstrip_dots_def)

lemma parse_target_url:
  assumes "parse_target nonascii spec d = Inr (host, p)" "\<not> ip_address_ok (str_strip spec)"
  shows "host \<noteq> []" "last host \<noteq> CHR ''.''" "CHR ''%'' \<notin> set host \<Longrightarrow> lower host = host"
    "idna_encode nonascii host \<noteq> None" "1 \<le> p" "p \<le> 65535"
proof -
  obtain sp where sp: "host = rstrip_dots (case hostname sp of None \<Rightarrow> [] | Some h \<Rightarrow> h)"
    and rest: "host \<noteq> []" "idna_encode nonascii host \<noteq> None" "1 \<le> p" "p \<le> 65535"
    using assms by (auto simp: parse_target_def Let_def split: sum.splits if_splits)
  then show "host \<noteq> []" "last host \<noteq> CHR ''.''" "idna_encode nonascii host \<noteq> None" "1 \<le> p" "p \<le> 65535"
    using rstrip_dots_last by auto
  show "lower host = host" if "CHR ''%'' \<notin> set host"
  proof (cases "hostname sp")
    case None
    with sp show ?thesis by (simp add: rstrip_dots_def)
  next
    case (Some h)
    with sp that have "CHR ''%'' \<notin> set h" using percent_rstrip_dots by auto
    with Some sp show ?thesis using hostname_lower lower_rstrip_dots by auto
  qed
qed

section \<open>Plain host names\<close>

text \<open>The host names of practice: lowercase letters, digits, hyphens, underscores and dots.\<close>

definition plain_char :: "char \<Rightarrow> bool" where
  "plain_char c \<longleftrightarrow> (let n = (of_char c :: nat) in 97 \<le> n \<and> n \<le> 122 \<or> 48 \<le> n \<and> n \<le> 57 \<or> n \<in> {45, 46, 95})"

definition plain_host :: "latin \<Rightarrow> bool" where
  "plain_host host \<longleftrightarrow> host \<noteq> [] \<and> list_all plain_char host \<and> last host \<noteq> CHR ''.'' \<and> labels_ok host"

lemma plain_char_facts:
  assumes "plain_char c"
  shows "\<not> is_delim c" "\<not> is_removed c" "\<not> is_str_space c" "lower_char c = c" "is_ascii c"
    "c \<notin> {CHR ''@'', CHR '':'', CHR ''['', CHR '']'', CHR ''%'', CHR ''/''}"
  using assms
  by (auto simp: plain_char_def is_delim_def is_removed_def is_str_space_def is_bytes_space_def
      lower_char_def is_ascii_def Let_def)

lemma digit_plain: "c \<in> set (str_of_nat n) \<Longrightarrow> plain_char c \<and> is_ascii_digit c"
  using render_nat_digits [of 10 c n]
  by (auto simp: plain_char_def is_ascii_digit_def of_char_digit_char Let_def)

lemma join_py_split: "sep \<noteq> [] \<Longrightarrow> join_with sep (py_split sep xs) = xs"
proof (induction sep xs rule: py_split.induct)
  case (1 sep xs)
  show ?case
  proof (cases "find_sub sep xs")
    case None
    then show ?thesis by (simp add: py_split.simps)
  next
    case (Some i)
    have "py_split sep ys \<noteq> []" for ys :: "'a list"
      by (subst py_split.simps) (simp split: option.split)
    moreover obtain ys where "xs = take i xs @ sep @ ys" "drop (i + length sep) xs = ys"
      using find_sub_Some_split [OF Some] by (metis append_take_drop_id drop_drop add.commute append_eq_conv_conj)
    moreover have "py_split sep xs = take i xs # py_split sep (drop (i + length sep) xs)"
      using Some 1(2) by (subst py_split.simps) simp
    ultimately show ?thesis using 1 Some by (simp add: join_with_Cons)
  qed
qed

lemma ipv4_ok_chars: "ipv4_ok s \<Longrightarrow> c \<in> set s \<Longrightarrow> is_ascii_digit c \<or> c = CHR ''.''"
proof -
  assume ok: "ipv4_ok s" and c: "c \<in> set s"
  have "set (join_with sep xs) \<subseteq> set sep \<union> \<Union> (set ` set xs)" for sep and xs :: "latin list"
    by (induction sep xs rule: join_with.induct) auto
  from this [of "''.''" "py_split ''.'' s"] c consider "c = CHR ''.''" | l where "l \<in> set (py_split ''.'' s)" "c \<in> set l"
    by (auto simp: join_py_split)
  then show ?thesis using ok
    by cases (auto simp: ipv4_ok_def octet_ok_def list_all_iff Let_def)
qed

lemma one_colon_not_ip:
  assumes "CHR '':'' \<notin> set a" "CHR '':'' \<notin> set b" "CHR ''%'' \<notin> set a" "CHR ''%'' \<notin> set b"
  shows "\<not> ip_address_ok (a @ CHR '':'' # b)"
proof -
  let ?s = "a @ CHR '':'' # b"
  have "\<not> ipv4_ok ?s" using ipv4_ok_chars [of ?s "CHR '':''"] by (auto simp: is_ascii_digit_def)
  moreover have "before CHR ''%'' ?s = ?s" using assms by (auto simp: before_def takeWhile_eq_all_conv)
  moreover have "py_split '':'' ?s = [a, b]"
    using py_split_hd [of "CHR '':''" a "[]" b] py_split_single [of "CHR '':''" b "[]"] assms by simp
  ultimately show ?thesis by (simp add: ip_address_ok_def ipv6_ok_def ipv6_groups_def Let_def)
qed

lemma slash_not_ip: "CHR ''/'' \<in> set s \<Longrightarrow> \<not> ip_address_ok s"
  by (simp add: ip_address_ok_def)

text \<open>Splitting \<open>//netloc...\<close> and \<open>https://netloc...\<close>.\<close>

definition netloc_char :: "char \<Rightarrow> bool" where
  "netloc_char c \<longleftrightarrow> plain_char c \<or> c = CHR '':''"

lemma netloc_char_facts:
  assumes "netloc_char c"
  shows "\<not> is_delim c" "\<not> is_removed c" "c \<notin> {CHR ''@'', CHR ''['', CHR '']'', CHR ''%'', CHR ''/''}"
  using assms plain_char_facts [of c] by (auto simp: netloc_char_def is_delim_def is_removed_def)

lemma urlsplit_netloc:
  assumes n: "list_all netloc_char n" and r: "r = [] \<or> r = ''/''"
  shows "urlsplit [] (''//'' @ n @ r) = Inr (split_path [] n r)"
    and "urlsplit [] (''https://'' @ n @ r) = Inr (split_path ''https'' n r)"
proof -
  have nc: "\<not> is_removed x" "\<not> is_delim x" if "x \<in> set n" for x
    using n netloc_char_facts(1,2) [of x] that by (simp_all add: list_all_iff)
  have "\<not> is_removed CHR ''/''" "is_delim CHR ''/''" by (simp_all add: is_removed_def is_delim_def)
  then have f: "filter (\<lambda>c. \<not> is_removed c) (n @ r) = n @ r"
    and cut: "takeWhile (\<lambda>c. \<not> is_delim c) (n @ r) = n" "dropWhile (\<lambda>c. \<not> is_delim c) (n @ r) = r"
    using nc r by (auto simp: filter_id_conv takeWhile_append dropWhile_append)
  have ok: "netloc_error n = None"
    using n netloc_char_facts(3) by (fastforce simp: netloc_error_def list_all_iff)
  have c: "\<not> is_removed CHR ''/''" "\<not> is_c0_or_space CHR ''/''" "\<not> is_c0_or_space CHR ''h''"
    "\<And>x. x \<in> set ''https:'' \<Longrightarrow> \<not> is_removed x"
    by (auto simp: is_removed_def is_c0_or_space_def)
  have "split_scheme [] (''//'' @ n @ r) = ([], ''//'' @ n @ r)"
    by (simp add: split_scheme_def before_def is_ascii_alpha_def Let_def)
  then show "urlsplit [] (''//'' @ n @ r) = Inr (split_path [] n r)"
    using f cut ok c by (simp add: urlsplit_def Let_def)
  have "split_scheme [] (''https://'' @ n @ r) = (''https'', ''//'' @ n @ r)"
    by (simp add: split_scheme_def before_def after_def is_ascii_alpha_def is_scheme_char_def
        lower_def lower_char_def Let_def)
  then show "urlsplit [] (''https://'' @ n @ r) = Inr (split_path ''https'' n r)"
    using f cut ok c by (simp add: urlsplit_def Let_def)
qed

lemma plain_host_chars: "plain_host h \<Longrightarrow> c \<in> set h \<Longrightarrow> plain_char c"
  by (simp add: plain_host_def list_all_iff)

lemma plain_host_parts:
  assumes "plain_host h"
  shows "\<not> suffix '':'' h" "rstrip_dots h = h" "idna_encode nonascii h = Some h"
    and "lower (before CHR ''%'' h) @ dropWhile (\<lambda>c. c \<noteq> CHR ''%'') h = h"
    and "c \<in> {CHR ''@'', CHR '':'', CHR ''['', CHR '']'', CHR ''%'', CHR ''/''} \<Longrightarrow> c \<notin> set h"
proof -
  show no: "c \<notin> set h" if "c \<in> {CHR ''@'', CHR '':'', CHR ''['', CHR '']'', CHR ''%'', CHR ''/''}" for c
    using plain_host_chars [OF assms] plain_char_facts(6) that by blast
  show "\<not> suffix '':'' h" using no [of "CHR '':''"] by (auto simp: suffix_def)
  show "rstrip_dots h = h"
    using assms by (simp add: rstrip_dots_def plain_host_def dropWhile_hd hd_rev)
  show "idna_encode nonascii h = Some h"
    using assms plain_char_facts(5) by (auto simp: idna_encode_def plain_host_def list_all_iff)
  have "lower h = h"
    using plain_host_chars [OF assms] plain_char_facts(4) by (simp add: lower_def map_idI)
  moreover have "before CHR ''%'' h = h" "dropWhile (\<lambda>c. c \<noteq> CHR ''%'') h = []"
    using no [of "CHR ''%''"] by (auto simp: before_def takeWhile_eq_all_conv)
  ultimately show "lower (before CHR ''%'' h) @ dropWhile (\<lambda>c. c \<noteq> CHR ''%'') h = h" by simp
qed

text \<open>The netloc \<open>host\<close> or \<open>host:port\<close>, \<open>q\<close> being what follows the host.\<close>

lemma plain_netloc:
  assumes h: "plain_host h" and p: "1 \<le> p" "p \<le> 65535"
  shows "hostinfo (split_path s (h @ '':'' @ str_of_nat p) r) = (h, str_of_nat p)"
    and "hostinfo (split_path s h r) = (h, [])"
    and "port (split_path s (h @ '':'' @ str_of_nat p) r) = Inr (Some (int p))"
    and "port (split_path s h r) = Inr None"
proof -
  have digits: "c \<notin> set (str_of_nat p)" if "\<not> plain_char c" for c using digit_plain [of c p] that by blast
  have no: "CHR ''@'' \<notin> set (str_of_nat p)" "CHR ''['' \<notin> set (str_of_nat p)"
    by (rule digits, simp add: plain_char_def)+
  have netloc: "sp_netloc (split_path a b c) = b" for a b c by (simp add: split_path_def Let_def)
  have last: "after_last CHR ''@'' t = t" if "CHR ''@'' \<notin> set t" for t
  proof -
    have all: "takeWhile (\<lambda>x. x \<noteq> CHR ''@'') (rev t) = rev t" using that by (subst takeWhile_eq_all_conv) auto
    show ?thesis by (simp only: after_last_def all rev_rev_ident)
  qed
  note hs = plain_host_parts(5) [OF h, simplified]
  show hp: "hostinfo (split_path s (h @ '':'' @ str_of_nat p) r) = (h, str_of_nat p)"
    using hs no by (simp add: hostinfo_def netloc last before_def after_def takeWhile_until dropWhile_until)
  show hn: "hostinfo (split_path s h r) = (h, [])"
  proof -
    have cut: "takeWhile (\<lambda>c. c \<noteq> CHR '':'') h = h" "dropWhile (\<lambda>c. c \<noteq> CHR '':'') h = []"
      using hs by (subst takeWhile_eq_all_conv, auto)
    have noh: "CHR ''@'' \<notin> set h" "CHR ''['' \<notin> set h" by (simp_all add: hs)
    then show ?thesis unfolding hostinfo_def netloc Let_def last [OF noh(1)] before_def after_def cut by simp
  qed
  have "(10::nat) ^ 5 \<le> 10 ^ int_max_str_digits"
    by (rule power_increasing) (simp_all add: int_max_str_digits_def)
  then have "p < 10 ^ int_max_str_digits" using p(2) by simp
  then show "port (split_path s (h @ '':'' @ str_of_nat p) r) = Inr (Some (int p))"
    using hp p digit_plain by (simp add: port_def Let_def list_all_iff py_int_decimal)
  show "port (split_path s h r) = Inr None" using hn by (simp add: port_def)
qed

lemma plain_text_strip:
  assumes "plain_host h" "p = [] \<or> \<not> is_str_space (last p)" "pre = [] \<or> \<not> is_str_space (hd pre)"
  shows "str_strip (pre @ h @ p) = pre @ h @ p"
proof (rule strip_by_stripped)
  have "h \<noteq> []" using assms(1) by (simp add: plain_host_def)
  moreover have "\<not> is_str_space (hd h)" "\<not> is_str_space (last h)"
    using plain_char_facts(3) plain_host_chars [OF assms(1)] calculation by simp_all
  ultimately show "stripped is_str_space (pre @ h @ p)"
    using assms(2,3) by (cases "pre = []"; cases "p = []") (simp_all add: stripped_def)
qed

lemma no_scheme_mark: "CHR ''/'' \<notin> set s \<Longrightarrow> \<not> contains ''://'' s"
proof
  assume "contains ''://'' s"
  then obtain i where "find_sub ''://'' s = Some i" by (auto simp: contains_def)
  then have "s = take i s @ ''://'' @ drop (i + length ''://'') s" by (rule find_sub_Some_split)
  moreover assume "CHR ''/'' \<notin> set s"
  ultimately show False by (metis Un_iff list.set_intros set_append)
qed

text \<open>The common end of the cases: the URL is split, the host is plain, the port in range.\<close>

lemma parse_target_split:
  assumes "plain_host h" "\<not> ip_address_ok t" "str_strip t = t"
    and "urlsplit [] (if contains ''://'' t then t else ''//'' @ t) = Inr sp"
    and "sp_scheme sp \<in> {[], ''https''}" "CHR ''@'' \<notin> set (sp_netloc sp)" "\<not> suffix '':'' (sp_netloc sp)"
    and "fst (hostinfo sp) = h" "port sp = Inr q"
    and "p = (case q of None \<Rightarrow> d | Some p \<Rightarrow> p)" "1 \<le> p" "p \<le> 65535"
  shows "parse_target nonascii t d = Inr (h, p)"
proof -
  have "h \<noteq> []" using assms(1) by (simp add: plain_host_def)
  then have "hostname sp = Some h"
    using assms(8) plain_host_parts(4) [OF assms(1)] by (simp add: hostname_def)
  moreover have "username sp = None" "password sp = None"
    using assms(6) by (simp_all add: username_def password_def userinfo_def)
  ultimately show ?thesis
    using assms(2,5,7,9-) \<open>h \<noteq> []\<close> plain_host_parts(2,3) [OF assms(1)]
    unfolding parse_target_def Let_def assms(3,4) by simp
qed

section \<open>Properties\<close>

text \<open>
  C37: an accepted target can be probed: its host has a server name to send, and unless it was
  written as a bare IP address, its port is a TCP port and the host is in normal form: not
  empty, without a dot at the end, and lowercase up to a scope id.
\<close>

theorem parse_target_sound:
  assumes "parse_target nonascii spec d = Inr (host, p)"
  shows "server_name nonascii host \<noteq> None
    \<and> (if ip_address_ok (str_strip spec) then host = str_strip spec \<and> p = d
       else host \<noteq> [] \<and> last host \<noteq> CHR ''.'' \<and> (CHR ''%'' \<in> set host \<or> lower host = host)
         \<and> 1 \<le> p \<and> p \<le> 65535)"
proof (cases "ip_address_ok (str_strip spec)")
  case True
  with assms show ?thesis by (simp add: parse_target_def server_name_def)
next
  case False
  with parse_target_url [OF assms] show ?thesis by (auto simp: server_name_def)
qed

text \<open>
  A plain host name is read as it is written: alone with the default port, with its own port,
  and inside an \<open>https\<close> URL.
\<close>

theorem parse_target_reads_back:
  assumes "plain_host h" "1 \<le> p" "p \<le> 65535" "1 \<le> d" "d \<le> 65535" "\<not> ip_address_ok h"
  shows "parse_target nonascii h d = Inr (h, d)
    \<and> parse_target nonascii (h @ '':'' @ str_of_nat p) d = Inr (h, int p)
    \<and> parse_target nonascii (''https://'' @ h @ '':'' @ str_of_nat p @ ''/'') d = Inr (h, int p)"
proof -
  note hs = plain_host_parts(5) [OF assms(1), simplified]
  have digits: "c \<notin> set (str_of_nat p)" if "\<not> plain_char c" for c using digit_plain [of c p] that by blast
  have no: "CHR ''@'' \<notin> set (str_of_nat p)" "CHR ''/'' \<notin> set (str_of_nat p)" "CHR '':'' \<notin> set (str_of_nat p)"
    "CHR ''%'' \<notin> set (str_of_nat p)"
    by (rule digits, simp add: plain_char_def)+
  have last_p: "last (str_of_nat p) \<in> set (str_of_nat p)" by simp
  then have last_ok: "\<not> is_str_space (last (str_of_nat p))" "last (str_of_nat p) \<noteq> CHR '':''"
    using digit_plain plain_char_facts(3) no(3) by metis+
  have chars: "list_all netloc_char h" "list_all netloc_char (h @ '':'' @ str_of_nat p)"
    using plain_host_chars [OF assms(1)] digit_plain by (auto simp: list_all_iff netloc_char_def)
  have netloc: "sp_netloc (split_path a b c) = b" "sp_scheme (split_path a b c) = a" for a b c
    by (simp_all add: split_path_def Let_def)
  have not_suffix: "\<not> suffix '':'' (h @ '':'' @ str_of_nat p)"
  proof
    assume "suffix '':'' (h @ '':'' @ str_of_nat p)"
    then have "last (h @ '':'' @ str_of_nat p) = CHR '':''" by (metis last_snoc suffixE)
    with last_ok(2) show False by simp
  qed
  note net = plain_netloc [OF assms(1-3)]
  show ?thesis
  proof (intro conjI)
    show "parse_target nonascii h d = Inr (h, d)"
      using hs no_scheme_mark [of h] urlsplit_netloc(1) [OF chars(1), of "[]"] plain_host_parts(1) [OF assms(1)]
        plain_text_strip [OF assms(1), of "[]" "[]"] net(2,4) assms(4-6)
      by (intro parse_target_split [where sp = "split_path [] h []" and q = None]) (simp_all add: netloc assms(1))
    show "parse_target nonascii (h @ '':'' @ str_of_nat p) d = Inr (h, int p)"
      using hs no no_scheme_mark [of "h @ '':'' @ str_of_nat p"] urlsplit_netloc(1) [OF chars(2), of "[]"]
        plain_text_strip [OF assms(1), of "'':'' @ str_of_nat p" "[]"] net(1,3) assms(2,3) last_ok not_suffix
        one_colon_not_ip [of h "str_of_nat p"]
      by (intro parse_target_split [where sp = "split_path [] (h @ '':'' @ str_of_nat p) []" and q = "Some (int p)"])
        (simp_all add: netloc assms(1))
    show "parse_target nonascii (''https://'' @ h @ '':'' @ str_of_nat p @ ''/'') d = Inr (h, int p)"
      using urlsplit_netloc(2) [OF chars(2), of "''/''"] slash_not_ip [of "''https://'' @ h @ '':'' @ str_of_nat p @ ''/''"]
        plain_text_strip [OF assms(1), of "'':'' @ str_of_nat p @ ''/''" "''https://''"] net(1,3) assms(2,3) not_suffix hs no
      by (intro parse_target_split [where sp = "split_path ''https'' (h @ '':'' @ str_of_nat p) ''/''" and q = "Some (int p)"])
        (simp_all add: netloc assms(1) contains_def is_str_space_def is_bytes_space_def)
  qed
qed

section \<open>The properties at concrete targets\<close>

lemma parse_target_sound_witness: "server_name (\<lambda>_. None) ''1.2.3.4'' \<noteq> None"
proof -
  have "parse_target (\<lambda>_. None) ''1.2.3.4'' 443 = Inr (''1.2.3.4'', 443)" by code_simp
  from parse_target_sound [OF this] show ?thesis by blast
qed

lemma parse_target_reads_back_witness:
  "parse_target (\<lambda>_. None) ''a-1.example'' 443 = Inr (''a-1.example'', 443)
   \<and> parse_target (\<lambda>_. None) (''a-1.example:'' @ str_of_nat 8443) 443 = Inr (''a-1.example'', 8443)"
proof -
  have "plain_host ''a-1.example''" "\<not> ip_address_ok ''a-1.example''" by code_simp+
  then show ?thesis using parse_target_reads_back [of "''a-1.example''" 8443 443 "\<lambda>_. None"] by simp
qed

end
