(* ===== verification/Py_Json.thy ===== *)
theory Py_Json
  imports Http_Request Common
begin

text \<open>
  \<open>json.dumps\<close> and \<open>json.loads\<close> of Python's standard library as the program calls them, with the
  default options. Strings are lists of code points (\<open>ustr\<close>), so that escapes and surrogate pairs
  are those of Python; how floats are written and read is a parameter. The interpreter's limit on
  recursion, which a deeply nested text meets, is left out.
\<close>

datatype json =
    JNull
  | JBool bool
  | JStr ustr
  | JInt int
  | JFloat pyfloat
  | JList "json list"
  | JObject "(ustr \<times> json) list"

section \<open>Code points\<close>

fun code_point :: "uchar \<Rightarrow> nat" where
  "code_point (Latin c) = of_char c"
| "code_point (Beyond n) = n"

definition uchar_of :: "nat \<Rightarrow> uchar" where
  "uchar_of n = (if n < 256 then Latin (char_of n) else Beyond n)"

text \<open>A character of Python: a code point, and one that Latin-1 has is written as such.\<close>

fun uchar_ok :: "uchar \<Rightarrow> bool" where
  "uchar_ok (Latin c) \<longleftrightarrow> True"
| "uchar_ok (Beyond n) \<longleftrightarrow> 256 \<le> n \<and> n < 0x110000"

definition is_high :: "nat \<Rightarrow> bool" where "is_high n \<longleftrightarrow> 0xD800 \<le> n \<and> n \<le> 0xDBFF"
definition is_low :: "nat \<Rightarrow> bool" where "is_low n \<longleftrightarrow> 0xDC00 \<le> n \<and> n \<le> 0xDFFF"

lemma uchar_of_code_point [simp]: "uchar_ok u \<Longrightarrow> uchar_of (code_point u) = u"
  by (cases u) (simp_all add: uchar_of_def)

lemma code_point_bound: "uchar_ok u \<Longrightarrow> code_point u < 0x110000"
proof (cases u)
  case (Latin c)
  have "(of_char c :: nat) < 256" by simp
  then show ?thesis unfolding Latin code_point.simps by linarith
qed simp

section \<open>dumps\<close>

definition str_of_int :: "int \<Rightarrow> latin" where
  "str_of_int n = (if n < 0 then ''-'' @ str_of_nat (nat (- n)) else str_of_nat (nat n))"

text \<open>\<open>'\\u{0:04x}'\<close>\<close>

definition hex4 :: "nat \<Rightarrow> latin" where
  "hex4 n = [digit_char (n div 4096), digit_char (n div 256 mod 16), digit_char (n div 16 mod 16), digit_char (n mod 16)]"

definition u_escape :: "nat \<Rightarrow> latin" where
  "u_escape n = CHR 0x5C # CHR ''u'' # hex4 n"

definition ESCAPES :: "(nat \<times> char) list" where
  "ESCAPES = [(0x5C, CHR 0x5C), (0x22, CHR 0x22), (0x08, CHR ''b''), (0x0C, CHR ''f''), (0x0A, CHR ''n''),
     (0x0D, CHR ''r''), (0x09, CHR ''t'')]"

text \<open>\<open>encode_basestring_ascii\<close>\<close>

definition escape_char :: "uchar \<Rightarrow> latin" where
  "escape_char u =
     (let n = code_point u in
      case map_of ESCAPES n of
        Some c \<Rightarrow> [CHR 0x5C, c]
      | None \<Rightarrow>
          if 0x20 \<le> n \<and> n \<le> 0x7E then [char_of n]
          else if n < 0x10000 then u_escape n
          else u_escape (0xD800 + (n - 0x10000) div 0x400) @ u_escape (0xDC00 + (n - 0x10000) mod 0x400))"

definition quote_text :: "ustr \<Rightarrow> latin" where
  "quote_text s = CHR 0x22 # concat (map escape_char s) @ [CHR 0x22]"

definition float_token :: "(pyfloat \<Rightarrow> latin) \<Rightarrow> pyfloat \<Rightarrow> latin" where
  "float_token repr x = (case x of Fin q \<Rightarrow> repr (Fin q) | Inf \<Rightarrow> ''Infinity'' | NegInf \<Rightarrow> ''-Infinity'' | NaN \<Rightarrow> ''NaN'')"

fun json_dumps :: "(pyfloat \<Rightarrow> latin) \<Rightarrow> json \<Rightarrow> latin" where
  "json_dumps repr JNull = ''null''"
| "json_dumps repr (JBool b) = (if b then ''true'' else ''false'')"
| "json_dumps repr (JStr s) = quote_text s"
| "json_dumps repr (JInt n) = str_of_int n"
| "json_dumps repr (JFloat x) = float_token repr x"
| "json_dumps repr (JList js) = ''['' @ join_with '', '' (map (json_dumps repr) js) @ '']''"
| "json_dumps repr (JObject kvs) =
     ''{'' @ join_with '', '' (map (\<lambda>(k, v). quote_text k @ '': '' @ json_dumps repr v) kvs) @ ''}''"

section \<open>loads\<close>

text \<open>
  \<open>JSONDecodeError\<close> and the \<open>ValueError\<close> of an integer with too many digits; \<open>TooDeep\<close> is what the
  readers below give when their bound on calls is used up, which \<open>json_loads\<close> excludes.
\<close>

datatype json_error = JSONDecodeError | IntTooLong | TooDeep

definition is_json_space :: "uchar \<Rightarrow> bool" where
  "is_json_space u \<longleftrightarrow> u \<in> set (lit [CHR '' '', CHR 0x09, CHR 0x0A, CHR 0x0D])"

definition skip_space :: "ustr \<Rightarrow> ustr" where
  "skip_space = dropWhile is_json_space"

definition hex_value :: "uchar \<Rightarrow> nat option" where
  "hex_value u = (case u of Beyond n \<Rightarrow> None
     | Latin c \<Rightarrow> (case digit_val c of Some d \<Rightarrow> (if d < 16 then Some d else None) | None \<Rightarrow> None))"

fun read_hex4 :: "ustr \<Rightarrow> (nat \<times> ustr) option" where
  "read_hex4 (a # b # c # d # s) =
     (case (hex_value a, hex_value b, hex_value c, hex_value d) of
        (Some w, Some x, Some y, Some z) \<Rightarrow> Some (4096 * w + 256 * x + 16 * y + z, s)
      | _ \<Rightarrow> None)"
| "read_hex4 _ = None"

definition UNESCAPES :: "(uchar \<times> nat) list" where
  "UNESCAPES = (Latin (CHR ''/''), 0x2F) # map (\<lambda>(n, c). (Latin c, n)) ESCAPES"

text \<open>What a backslash starts: a named escape, a code unit, or a pair of surrogates.\<close>

fun unescape :: "ustr \<Rightarrow> (uchar \<times> ustr) option" where
  "unescape [] = None"
| "unescape (c # s) =
     (if c \<noteq> Latin (CHR ''u'') then map_option (\<lambda>n. (uchar_of n, s)) (map_of UNESCAPES c)
      else case read_hex4 s of
          None \<Rightarrow> None
        | Some (n, s) \<Rightarrow>
            if is_high n \<and> prefix (lit [CHR 0x5C, CHR ''u'']) s
            then (case read_hex4 (drop 2 s) of
                    None \<Rightarrow> None
                  | Some (m, s') \<Rightarrow>
                      if is_low m then Some (uchar_of (0x10000 + ((n - 0xD800) * 0x400 + (m - 0xDC00))), s')
                      else Some (uchar_of n, s))
            else Some (uchar_of n, s))"

lemma read_hex4_length: "read_hex4 s = Some (n, s') \<Longrightarrow> length s' < length s"
  by (induction s rule: read_hex4.induct) (auto split: option.splits)

lemma unescape_length: "unescape s = Some (c, s') \<Longrightarrow> length s' < length s"
  by (cases s) (auto dest!: read_hex4_length split: if_splits option.splits)

text \<open>\<open>scanstring\<close>, after the opening quote.\<close>

function read_string :: "ustr \<Rightarrow> (ustr \<times> ustr) option" where
  "read_string [] = None"
| "read_string (c # s) =
     (if c = Latin (CHR 0x22) then Some ([], s)
      else if c = Latin (CHR 0x5C) then
        (case unescape s of
           None \<Rightarrow> None
         | Some (u, s') \<Rightarrow> map_option (\<lambda>(t, r). (u # t, r)) (read_string s'))
      else if code_point c < 0x20 then None
      else map_option (\<lambda>(t, r). (c # t, r)) (read_string s))"
  by pat_completeness auto
termination
  by (relation "measure length") (auto dest: unescape_length)

text \<open>
  Numbers: the text of the integer part, the text of fraction and exponent, and the rest. A dot or
  an exponent without a digit is not part of the number.
\<close>

definition is_dec :: "uchar \<Rightarrow> bool" where
  "is_dec u \<longleftrightarrow> (case u of Latin c \<Rightarrow> c \<in> set ''0123456789'' | Beyond n \<Rightarrow> False)"

fun latin_of :: "uchar \<Rightarrow> char" where
  "latin_of (Latin c) = c"
| "latin_of (Beyond n) = CHR ''?''"

definition digits_of :: "ustr \<Rightarrow> latin" where
  "digits_of s = map latin_of (takeWhile is_dec s)"

text \<open>The next character when it is one of \<open>cs\<close>.\<close>

definition take_one :: "char list \<Rightarrow> ustr \<Rightarrow> latin \<times> ustr" where
  "take_one cs s = (case s of Latin c # r \<Rightarrow> if c \<in> set cs then ([c], r) else ([], s) | _ \<Rightarrow> ([], s))"

definition read_whole :: "ustr \<Rightarrow> (latin \<times> ustr) option" where
  "read_whole s =
     (case s of
        [] \<Rightarrow> None
      | u # r \<Rightarrow>
          if u = Latin (CHR ''0'') then Some (''0'', r)
          else if is_dec u then Some (digits_of s, dropWhile is_dec s)
          else None)"

definition read_int_part :: "ustr \<Rightarrow> (latin \<times> ustr) option" where
  "read_int_part s = (let (sign, r) = take_one ''-'' s in map_option (\<lambda>(d, r). (sign @ d, r)) (read_whole r))"

definition read_fraction :: "ustr \<Rightarrow> latin \<times> ustr" where
  "read_fraction s =
     (let (dot, r) = take_one ''.'' s in
      if dot \<noteq> [] \<and> digits_of r \<noteq> [] then (dot @ digits_of r, dropWhile is_dec r) else ([], s))"

definition read_exponent :: "ustr \<Rightarrow> latin \<times> ustr" where
  "read_exponent s =
     (let (e, r) = take_one ''eE'' s; (sign, t) = take_one ''+-'' r in
      if e \<noteq> [] \<and> digits_of t \<noteq> [] then (e @ sign @ digits_of t, dropWhile is_dec t) else ([], s))"

definition read_number :: "ustr \<Rightarrow> (latin \<times> latin \<times> ustr) option" where
  "read_number s =
     (case read_int_part s of
        None \<Rightarrow> None
      | Some (i, r) \<Rightarrow> (let (f, r) = read_fraction r; (e, r) = read_exponent r in Some (i, f @ e, r)))"

text \<open>\<open>int\<close> of a JSON integer, whose digits are limited as for any other text.\<close>

definition int_token :: "latin \<Rightarrow> json_error + json" where
  "int_token i =
     (if length (filter (\<lambda>c. c \<noteq> CHR ''-'') i) > int_max_str_digits then Inl IntTooLong
      else case scan_digits 10 False 0 (filter (\<lambda>c. c \<noteq> CHR ''-'') i) of
          None \<Rightarrow> Inl JSONDecodeError
        | Some n \<Rightarrow> Inr (JInt (if prefix ''-'' i then - n else n)))"

definition number_token :: "(latin \<Rightarrow> pyfloat) \<Rightarrow> latin \<Rightarrow> latin \<Rightarrow> json_error + json" where
  "number_token pf i fe = (if fe = [] then int_token i else Inr (JFloat (pf (i @ fe))))"

definition CONSTANTS :: "(latin \<times> json) list" where
  "CONSTANTS = [(''null'', JNull), (''true'', JBool True), (''false'', JBool False), (''NaN'', JFloat NaN),
     (''Infinity'', JFloat Inf), (''-Infinity'', JFloat NegInf)]"

text \<open>\<open>scan_once\<close>, \<open>JSONArray\<close> after the opening bracket, \<open>JSONObject\<close> after the opening quote of a key.\<close>

fun read_value :: "(latin \<Rightarrow> pyfloat) \<Rightarrow> nat \<Rightarrow> ustr \<Rightarrow> json_error + (json \<times> ustr)"
  and read_elements :: "(latin \<Rightarrow> pyfloat) \<Rightarrow> nat \<Rightarrow> ustr \<Rightarrow> json_error + (json list \<times> ustr)"
  and read_members :: "(latin \<Rightarrow> pyfloat) \<Rightarrow> nat \<Rightarrow> ustr \<Rightarrow> json_error + ((ustr \<times> json) list \<times> ustr)" where
  "read_value pf 0 s = Inl TooDeep"
| "read_value pf (Suc n) s =
     (if prefix (lit [CHR 0x22]) s then
        (case read_string (drop 1 s) of None \<Rightarrow> Inl JSONDecodeError | Some (t, r) \<Rightarrow> Inr (JStr t, r))
      else if prefix (lit ''{'') s then
        (let r = skip_space (drop 1 s) in
         if prefix (lit ''}'') r then Inr (JObject [], drop 1 r)
         else if prefix (lit [CHR 0x22]) r then
           (case read_members pf n (drop 1 r) of
              Inl e \<Rightarrow> Inl e
            | Inr (kvs, r) \<Rightarrow> Inr (JObject (fold (\<lambda>(k, v). dict_set k v) kvs []), r))
         else Inl JSONDecodeError)
      else if prefix (lit ''['') s then
        (let r = skip_space (drop 1 s) in
         if prefix (lit '']'') r then Inr (JList [], drop 1 r)
         else case read_elements pf n r of Inl e \<Rightarrow> Inl e | Inr (js, r) \<Rightarrow> Inr (JList js, r))
      else case find (\<lambda>(name, j). prefix (lit name) s) CONSTANTS of
          Some (name, j) \<Rightarrow> Inr (j, drop (length name) s)
        | None \<Rightarrow>
            (case read_number s of
               None \<Rightarrow> Inl JSONDecodeError
             | Some (i, fe, r) \<Rightarrow> and_then (number_token pf i fe) (\<lambda>j. Inr (j, r))))"
| "read_elements pf 0 s = Inl TooDeep"
| "read_elements pf (Suc n) s =
     (case read_value pf n s of
        Inl e \<Rightarrow> Inl e
      | Inr (j, r) \<Rightarrow>
          (let r = skip_space r in
           if prefix (lit '']'') r then Inr ([j], drop 1 r)
           else if prefix (lit '','') r then
             (case read_elements pf n (skip_space (drop 1 r)) of Inl e \<Rightarrow> Inl e | Inr (js, r) \<Rightarrow> Inr (j # js, r))
           else Inl JSONDecodeError))"
| "read_members pf 0 s = Inl TooDeep"
| "read_members pf (Suc n) s =
     (case read_string s of
        None \<Rightarrow> Inl JSONDecodeError
      | Some (k, r) \<Rightarrow>
          (let r = skip_space r in
           if \<not> prefix (lit '':'') r then Inl JSONDecodeError
           else case read_value pf n (skip_space (drop 1 r)) of
               Inl e \<Rightarrow> Inl e
             | Inr (j, r) \<Rightarrow>
                 (let r = skip_space r in
                  if prefix (lit ''}'') r then Inr ([(k, j)], drop 1 r)
                  else if prefix (lit '','') r then
                    (let r = skip_space (drop 1 r) in
                     if prefix (lit [CHR 0x22]) r then
                       (case read_members pf n (drop 1 r) of Inl e \<Rightarrow> Inl e | Inr (kvs, r) \<Rightarrow> Inr ((k, j) # kvs, r))
                     else Inl JSONDecodeError)
                  else Inl JSONDecodeError)))"

text \<open>\<open>decode\<close>: whitespace around one value, and nothing else.\<close>

definition json_loads :: "(latin \<Rightarrow> pyfloat) \<Rightarrow> ustr \<Rightarrow> json_error + json" where
  "json_loads pf s =
     (case read_value pf (2 * length s + 1) (skip_space s) of
        Inl e \<Rightarrow> Inl e
      | Inr (j, r) \<Rightarrow> if skip_space r = [] then Inr j else Inl JSONDecodeError)"

text \<open>\<open>detect_encoding\<close>, for bytes.\<close>

definition detect_encoding :: "bytes \<Rightarrow> latin" where
  "detect_encoding b =
     (let z = (\<lambda>i. b ! i = CHR 0x00) in
      if prefix [CHR 0x00, CHR 0x00, CHR 0xFE, CHR 0xFF] b \<or> prefix [CHR 0xFF, CHR 0xFE, CHR 0x00, CHR 0x00] b then ''utf-32''
      else if prefix [CHR 0xFE, CHR 0xFF] b \<or> prefix [CHR 0xFF, CHR 0xFE] b then ''utf-16''
      else if prefix [CHR 0xEF, CHR 0xBB, CHR 0xBF] b then ''utf-8-sig''
      else if length b \<ge> 4 \<and> z 0 then (if z 1 then ''utf-32-be'' else ''utf-16-be'')
      else if length b \<ge> 4 \<and> z 1 then (if \<not> z 2 \<or> \<not> z 3 then ''utf-16-le'' else ''utf-32-le'')
      else if length b = 2 \<and> z 0 then ''utf-16-be''
      else if length b = 2 \<and> z 1 then ''utf-16-le''
      else ''utf-8'')"

section \<open>The readers consume, and their bound is enough\<close>

lemma skip_space_length: "length (skip_space s) \<le> length s"
  by (simp add: skip_space_def length_dropWhile_le)

lemma read_string_length: "read_string s = Some (t, r) \<Longrightarrow> length r < length s"
proof (induction s arbitrary: t r rule: read_string.induct)
  case (2 c s)
  then show ?case
    by (cases "unescape s") (force split: if_splits prod.splits dest: unescape_length)+
qed simp

lemma dropWhile_dec_length: "length (dropWhile is_dec s) \<le> length s"
  by (rule length_dropWhile_le)

lemma take_one_length: "take_one cs s = (c, r) \<Longrightarrow> length r \<le> length s"
  by (auto simp: take_one_def split: list.splits uchar.splits if_splits)

lemma read_whole_length: "read_whole s = Some (i, r) \<Longrightarrow> length r < length s"
  using dropWhile_dec_length [of "tl s"]
  by (cases s) (auto simp: read_whole_def split: if_splits)

lemma read_int_part_length: "read_int_part s = Some (i, r) \<Longrightarrow> length r < length s"
  by (auto simp: read_int_part_def dest!: read_whole_length take_one_length split: prod.splits)

lemma read_fraction_length: "read_fraction s = (f, r) \<Longrightarrow> length r \<le> length s"
  using dropWhile_dec_length [of "snd (take_one ''.'' s)"]
  by (auto simp: read_fraction_def dest!: take_one_length split: prod.splits if_splits)

lemma read_exponent_length: "read_exponent s = (f, r) \<Longrightarrow> length r \<le> length s"
  using dropWhile_dec_length [of "snd (take_one ''+-'' (snd (take_one ''eE'' s)))"]
  by (auto simp: read_exponent_def Let_def dest!: take_one_length split: prod.splits if_splits)

lemma read_number_length: "read_number s = Some (i, fe, r) \<Longrightarrow> length r < length s"
  by (auto simp: read_number_def Let_def dest!: read_int_part_length read_fraction_length read_exponent_length
      split: option.splits prod.splits)

lemma find_constant:
  assumes "find (\<lambda>(name, j). prefix (lit name) s) CONSTANTS = Some (name, j)"
  shows "(name, j) \<in> set CONSTANTS \<and> prefix (lit name) s"
  using assms by (auto simp: find_Some_iff intro: nth_mem) (metis nth_mem)

lemma constant_length:
  assumes "find (\<lambda>(name, j). prefix (lit name) s) CONSTANTS = Some (name, j)"
  shows "length s - length name < length s"
proof -
  from find_constant [OF assms] have "name \<noteq> []" "prefix (lit name) s" by (auto simp: CONSTANTS_def)
  then show ?thesis by (cases s; cases name) auto
qed

lemma prefix_tl: "prefix (x # xs) s \<Longrightarrow> length (tl s) < length s"
  by (cases s) auto

lemma skip_tl: "length (skip_space (tl s)) \<le> length s"
  using skip_space_length [of "tl s"] by simp

lemma read_length:
  "read_value pf n s = Inr (j, r) \<Longrightarrow> length r < length s"
  "read_elements pf n s = Inr (js, r) \<Longrightarrow> length r < length s"
  "read_members pf n s = Inr (kvs, r) \<Longrightarrow> length r < length s"
proof (induction pf n s and pf n s and pf n s arbitrary: j r and js r and kvs r rule: read_value_read_elements_read_members.induct)
  case (2 pf n s)
  let ?t = "skip_space (tl s)"
  have sp: "length ?t \<le> length (tl s)" by (rule skip_space_length)
  consider (str) t where "prefix (lit [CHR 0x22]) s" "read_string (tl s) = Some (t, r)"
    | (obj) "prefix (lit ''{'') s" "r = tl ?t"
    | (members) kvs where "prefix (lit ''{'') s" "prefix (lit [CHR 0x22]) ?t" "\<not> prefix (lit ''}'') ?t" "read_members pf n (tl ?t) = Inr (kvs, r)"
    | (arr) "prefix (lit ''['') s" "r = tl ?t"
    | (elements) js where "prefix (lit ''['') s" "\<not> prefix (lit '']'') ?t" "read_elements pf n ?t = Inr (js, r)"
    | (const) name j where "find (\<lambda>(name, j). prefix (lit name) s) CONSTANTS = Some (name, j)" "r = drop (length name) s"
    | (num) i fe where "read_number s = Some (i, fe, r)"
    using "2.prems" by (auto simp: Let_def and_then_Inr_iff drop_Suc split: if_splits option.splits sum.splits prod.splits)
  then show ?case
  proof cases
    case str
    then show ?thesis using read_string_length prefix_tl by fastforce
  next
    case obj
    then have "length (tl s) < length s" by (cases s) simp_all
    with obj sp show ?thesis by simp
  next
    case members
    then have "length r < length (tl ?t)" using "2.IH"(1) by (cases s) (auto simp: drop_Suc)
    moreover have "length (tl s) < length s" using members by (cases s) simp_all
    ultimately show ?thesis using sp by simp
  next
    case arr
    then have "length (tl s) < length s" by (cases s) simp_all
    with arr sp show ?thesis by simp
  next
    case elements
    then have "length r < length ?t" using "2.IH"(2) by (cases s) (auto simp: drop_Suc)
    moreover have "length (tl s) < length s" using elements by (cases s) simp_all
    ultimately show ?thesis using sp by simp
  next
    case const
    then show ?thesis using constant_length by simp
  next
    case num
    then show ?thesis by (rule read_number_length)
  qed
next
  case (4 pf n s)
  from "4.prems" obtain j r1 where v: "read_value pf n s = Inr (j, r1)" by (auto split: sum.splits)
  from "4.IH"(1) [OF v] have l: "length r1 < length s" .
  show ?case
  proof (cases "prefix (lit '']'') (skip_space r1)")
    case True
    with v "4.prems" have "r = tl (skip_space r1)" by (auto simp: drop_Suc)
    with l skip_space_length [of r1] show ?thesis by simp
  next
    case False
    with v "4.prems" obtain js1 where c: "prefix (lit '','') (skip_space r1)" "read_elements pf n (skip_space (tl (skip_space r1))) = Inr (js1, r)"
      by (auto simp: drop_Suc Let_def split: if_splits sum.splits)
    from "4.IH"(2) [OF v refl refl False] c have "length r < length (skip_space (tl (skip_space r1)))" by (simp add: drop_Suc)
    with l skip_space_length [of r1] skip_space_length [of "tl (skip_space r1)"] show ?thesis by simp
  qed
next
  case (6 pf n s)
  from "6.prems" obtain k r0 where k: "read_string s = Some (k, r0)" by (auto split: option.splits)
  from "6.prems" k obtain j r1 where c: "prefix (lit '':'') (skip_space r0)"
    and v: "read_value pf n (skip_space (tl (skip_space r0))) = Inr (j, r1)"
    by (auto simp: drop_Suc Let_def split: if_splits sum.splits)
  have l0: "length r0 < length s" using read_string_length [OF k] .
  have "length r1 < length (skip_space (tl (skip_space r0)))"
    using "6.IH"(1) [OF k refl refl] c v by (simp add: drop_Suc)
  then have l: "length r1 < length s"
    using l0 skip_space_length [of r0] skip_space_length [of "tl (skip_space r0)"] by simp
  show ?case
  proof (cases "prefix (lit ''}'') (skip_space r1)")
    case True
    with k c v "6.prems" have "r = tl (skip_space r1)" by (auto simp: drop_Suc)
    with l skip_space_length [of r1] show ?thesis by simp
  next
    case False
    with k c v "6.prems" obtain kvs1 where m: "prefix (lit '','') (skip_space r1)"
      "prefix (lit [CHR 0x22]) (skip_space (tl (skip_space r1)))"
      "read_members pf n (tl (skip_space (tl (skip_space r1)))) = Inr (kvs1, r)"
      by (auto simp: drop_Suc Let_def split: if_splits sum.splits)
    have "length r < length (tl (skip_space (tl (skip_space r1))))"
      using "6.IH"(2) [OF k refl refl] c v False m by (simp add: drop_Suc)
    with l skip_space_length [of r1] skip_space_length [of "tl (skip_space r1)"] show ?thesis by simp
  qed
qed simp_all

lemma and_then_not: "x \<noteq> Inl e \<Longrightarrow> (\<And>v. f v \<noteq> Inl e) \<Longrightarrow> and_then x f \<noteq> Inl e"
  by (cases x) auto

lemma number_token_not_deep: "number_token pf i fe \<noteq> Inl TooDeep"
  by (auto simp: number_token_def int_token_def split: option.splits)

lemma read_enough:
  "2 * length s < n \<Longrightarrow> read_value pf n s \<noteq> Inl TooDeep"
  "2 * length s + 1 < n \<Longrightarrow> read_elements pf n s \<noteq> Inl TooDeep"
  "2 * length s + 1 < n \<Longrightarrow> read_members pf n s \<noteq> Inl TooDeep"
proof (induction pf n s and pf n s and pf n s rule: read_value_read_elements_read_members.induct)
  case (2 pf n s)
  let ?t = "skip_space (tl s)"
  have sp: "length ?t \<le> length (tl s)" by (rule skip_space_length)
  have m: "read_members pf n (tl ?t) \<noteq> Inl TooDeep"
    if "prefix (lit ''{'') s" "\<not> prefix (lit ''}'') ?t" "prefix (lit [CHR 0x22]) ?t"
  proof -
    have "\<not> prefix (lit [CHR 0x22]) s" "s \<noteq> []" using that(1) by (cases s; auto)+
    with "2.IH"(1) that sp "2.prems" show ?thesis by (cases s; cases ?t) (auto simp: drop_Suc)
  qed
  have e: "read_elements pf n ?t \<noteq> Inl TooDeep" if "prefix (lit ''['') s" "\<not> prefix (lit '']'') ?t"
  proof -
    have "\<not> prefix (lit [CHR 0x22]) s" "\<not> prefix (lit ''{'') s" "s \<noteq> []" using that(1) by (cases s; auto)+
    with "2.IH"(2) that sp "2.prems" show ?thesis by (cases s) (auto simp: drop_Suc)
  qed
  show ?case
  proof
    assume "read_value pf (Suc n) s = Inl TooDeep"
    with m e show False
      by (auto simp: Let_def drop_Suc and_then_Inl_iff number_token_not_deep split: if_splits option.splits sum.splits)
  qed
next
  case (4 pf n s)
  have v: "read_value pf n s \<noteq> Inl TooDeep" using "4.IH"(1) "4.prems" by simp
  show ?case
  proof
    assume deep: "read_elements pf (Suc n) s = Inl TooDeep"
    with v obtain j r1 where r1: "read_value pf n s = Inr (j, r1)" by (auto split: sum.splits)
    from deep r1 have c: "\<not> prefix (lit '']'') (skip_space r1)" "prefix (lit '','') (skip_space r1)"
      "read_elements pf n (skip_space (tl (skip_space r1))) = Inl TooDeep"
      by (auto simp: drop_Suc Let_def split: if_splits sum.splits)
    have "length (skip_space (tl (skip_space r1))) < length s"
      using read_length(1) [OF r1] skip_space_length [of r1] skip_space_length [of "tl (skip_space r1)"] by simp
    with "4.IH"(2) [OF r1 refl refl c(1,2)] "4.prems" c(3) show False by (simp add: drop_Suc)
  qed
next
  case (6 pf n s)
  show ?case
  proof
    assume deep: "read_members pf (Suc n) s = Inl TooDeep"
    then obtain k r0 where k: "read_string s = Some (k, r0)" by (auto split: option.splits)
    note l0 = read_string_length [OF k] skip_space_length [of r0] skip_space_length [of "tl (skip_space r0)"]
    from deep k have c: "prefix (lit '':'') (skip_space r0)" by (auto simp: Let_def split: if_splits)
    have "read_value pf n (skip_space (tl (skip_space r0))) \<noteq> Inl TooDeep"
      using "6.IH"(1) [OF k refl refl] c l0 "6.prems" by (simp add: drop_Suc)
    with deep k c obtain j r1 where v: "read_value pf n (skip_space (tl (skip_space r0))) = Inr (j, r1)"
      by (auto simp: drop_Suc Let_def split: sum.splits)
    note l1 = read_length(1) [OF v] skip_space_length [of r1] skip_space_length [of "tl (skip_space r1)"]
    from deep k c v have m: "\<not> prefix (lit ''}'') (skip_space r1)" "prefix (lit '','') (skip_space r1)"
      "prefix (lit [CHR 0x22]) (skip_space (tl (skip_space r1)))"
      "read_members pf n (tl (skip_space (tl (skip_space r1)))) = Inl TooDeep"
      by (auto simp: drop_Suc Let_def split: if_splits sum.splits)
    have "2 * length (tl (skip_space (tl (skip_space r1)))) + 1 < n"
      using l0 l1 "6.prems" unfolding length_tl by arith
    with "6.IH"(2) [OF k refl refl _ _ refl refl m(1,2) refl] c v m show False
      by (simp add: drop_Suc)
  qed
qed simp_all

lemma json_loads_not_deep: "json_loads pf s \<noteq> Inl TooDeep"
  using read_enough(1) [of "skip_space s" "2 * length s + 1" pf] skip_space_length [of s]
  by (auto simp: json_loads_def split: sum.splits)

end
