(* ===== verification/Probe.thy ===== *)
theory Probe
  imports Tls_Socket Targets Py_Json
begin

text \<open>
  The probe of one host, \<open>fizzpy/probe.py\<close>: handshakes that offer one group each, what they say
  about the server, and the sockets they use. What the network does is the parameter \<open>wire\<close>;
  the concurrent handshakes of \<open>gather\<close> are the interleavings of their traces.
\<close>

section \<open>Groups\<close>

text \<open>\<open>NamedGroup\<close> by its TLS code point.\<close>

abbreviation x25519_mlkem768 :: nat where "x25519_mlkem768 \<equiv> 0x11EC"
abbreviation x25519 :: nat where "x25519 \<equiv> 29"
abbreviation secp256r1 :: nat where "secp256r1 \<equiv> 23"
abbreviation secp384r1 :: nat where "secp384r1 \<equiv> 24"

definition PQ_GROUP :: nat where
  "PQ_GROUP = x25519_mlkem768"

text \<open>\<open>DEFAULT_GROUPS\<close> of \<open>_common.py\<close>: without liboqs the hybrid share cannot be generated.\<close>

definition DEFAULT_GROUPS :: "bool \<Rightarrow> nat list" where
  "DEFAULT_GROUPS pq_supported = (if pq_supported then [x25519_mlkem768, x25519] else [x25519])"

definition CLASSICAL_GROUPS :: "nat list" where
  "CLASSICAL_GROUPS = [x25519, secp256r1, secp384r1]"

definition PROBE_GROUPS :: "nat list" where
  "PROBE_GROUPS = PQ_GROUP # CLASSICAL_GROUPS"

definition DEFAULT_OFFER :: "nat list" where
  "DEFAULT_OFFER = [PQ_GROUP, x25519]"

text \<open>The dict \<open>_NAMES\<close>; it is only asked for the groups above.\<close>

definition group_name :: "nat \<Rightarrow> latin" where
  "group_name g =
     (if g = x25519_mlkem768 then ''X25519MLKEM768'' else if g = x25519 then ''x25519''
      else if g = secp256r1 then ''secp256r1'' else ''secp384r1'')"

definition PROBE_ALPN :: "latin list" where
  "PROBE_ALPN = [''h2'', ''http/1.1'']"

section \<open>Results\<close>

datatype probe_outcome = ACCEPTED | REJECTED | FAILED

datatype verdict = POST_QUANTUM | CLASSICAL_ONLY | PQ_BLOCKED | NO_TLS13 | UNREACHABLE | ERROR

fun outcome_value :: "probe_outcome \<Rightarrow> latin" where
  "outcome_value ACCEPTED = ''accepted''"
| "outcome_value REJECTED = ''rejected''"
| "outcome_value FAILED = ''failed''"

fun verdict_value :: "verdict \<Rightarrow> latin" where
  "verdict_value POST_QUANTUM = ''post-quantum''"
| "verdict_value CLASSICAL_ONLY = ''classical-only''"
| "verdict_value PQ_BLOCKED = ''pq-blocked''"
| "verdict_value NO_TLS13 = ''no-tls13''"
| "verdict_value UNREACHABLE = ''unreachable''"
| "verdict_value ERROR = ''error''"

record attempt =
  a_offered :: "latin list"
  a_outcome :: probe_outcome
  a_elapsed_ms :: pyfloat
  a_alert :: "latin option"
  a_detail :: "latin option"
  a_group :: "latin option"
  a_version :: "latin option"
  a_cipher :: "latin option"
  a_alpn :: "latin option"
  a_certificate :: "latin option"

text \<open>The defaults of the dataclass.\<close>

definition new_attempt :: "latin list \<Rightarrow> probe_outcome \<Rightarrow> pyfloat \<Rightarrow> attempt" where
  "new_attempt groups out ms = \<lparr>a_offered = groups, a_outcome = out, a_elapsed_ms = ms, a_alert = None,
     a_detail = None, a_group = None, a_version = None, a_cipher = None, a_alpn = None, a_certificate = None\<rparr>"

record probe_result =
  pr_host :: latin
  pr_port :: int
  pr_verdict :: verdict
  pr_address :: "latin option"
  pr_tcp_ms :: "pyfloat option"
  pr_error :: "latin option"
  pr_attempts :: "attempt list"
  pr_default :: "attempt option"

definition new_result :: "latin \<Rightarrow> int \<Rightarrow> verdict \<Rightarrow> latin option \<Rightarrow> probe_result" where
  "new_result host p v err = \<lparr>pr_host = host, pr_port = p, pr_verdict = v, pr_address = None,
     pr_tcp_ms = None, pr_error = err, pr_attempts = [], pr_default = None\<rparr>"

definition accepted_groups :: "probe_result \<Rightarrow> latin list" where
  "accepted_groups r = map (\<lambda>a. hd (a_offered a)) (filter (\<lambda>a. a_outcome a = ACCEPTED) (pr_attempts r))"

definition preferred :: "probe_result \<Rightarrow> latin option" where
  "preferred r = (case pr_default r of None \<Rightarrow> None | Some a \<Rightarrow> a_group a)"

section \<open>Failures\<close>

text \<open>
  Exceptions, by the classes that the code tells apart: the last but one is any other
  \<open>Exception\<close>, the last a \<open>BaseException\<close> such as a cancellation.
\<close>

datatype fault_kind =
    ConnRefused | ConnReset | ConnAborted | TimedOut | GaiFailure | OsFailure
  | ValueFailure | NoPostQuantumSupport | OtherFailure | BaseFailure

record fault =
  f_kind :: fault_kind
  f_type :: latin
  f_text :: latin
  f_errno :: "int option"
  f_alert :: "latin option"
  f_alert_remote :: bool

text \<open>\<open>except (OSError, asyncio.TimeoutError)\<close>\<close>

definition os_or_timeout :: "fault \<Rightarrow> bool" where
  "os_or_timeout e \<longleftrightarrow> f_kind e \<in> {ConnRefused, ConnReset, ConnAborted, TimedOut, GaiFailure, OsFailure}"

text \<open>\<open>ENETUNREACH\<close> and \<open>EHOSTUNREACH\<close>, with the values of Linux.\<close>

definition UNREACHABLE_ERRNOS :: "int list" where
  "UNREACHABLE_ERRNOS = [101, 113]"

fun errno_reason :: "fault_kind \<Rightarrow> latin option" where
  "errno_reason ConnRefused = Some ''connection refused''"
| "errno_reason ConnReset = Some ''connection reset''"
| "errno_reason ConnAborted = Some ''connection aborted''"
| "errno_reason TimedOut = Some ''timeout''"
| "errno_reason _ = None"

definition removeprefix :: "latin \<Rightarrow> latin \<Rightarrow> latin" where
  "removeprefix p s = (if prefix p s then drop (length p) s else s)"

definition reason :: "fault \<Rightarrow> latin" where
  "reason e =
     (case errno_reason (f_kind e) of
        Some r \<Rightarrow> r
      | None \<Rightarrow>
          if f_kind e = GaiFailure then ''name not resolved''
          else if f_kind e = OsFailure \<and> (\<exists>n \<in> set UNREACHABLE_ERRNOS. f_errno e = Some n)
          then ''network unreachable''
          else let lowered = lower (f_text e) in
            if contains ''timed out'' lowered then ''timeout''
            else if contains ''reset by peer'' lowered then ''connection reset''
            else if contains ''end of file'' lowered then ''connection closed''
            else if contains ''plaintext content type'' lowered then ''not a TLS server''
            else removeprefix ''handshake failed: '' (f_text e))"

definition classify :: "fault \<Rightarrow> probe_outcome \<times> latin option \<times> latin option" where
  "classify e =
     (if f_alert e \<noteq> None \<and> f_alert_remote e then (REJECTED, f_alert e, None)
      else (FAILED, f_alert e, Some (reason e)))"

section \<open>The network\<close>

text \<open>
  A probe makes at most one socket per address it dials and one per handshake of each of its two
  rounds, so a socket is named by who made it. \<open>wire\<close> says what the operating system, the
  native core and the event loop do: \<open>w_started\<close> is the failure of a task that was cancelled
  before it ran, \<open>w_guard\<close> that of a \<open>wait_for\<close> that ends before it ran the handshake; \<open>w_core\<close>
  duplicates the handle of a socket and gives what waiting for the core's handshake gives, a time-out
  of \<open>wait_for\<close> included, and \<open>w_negotiated\<close> what the connection then says; \<open>w_mul\<close> and \<open>w_ca\<close> are the
  rounding and the CA bundle of \<open>_common\<close>, and \<open>w_elapsed\<close> is what \<open>_elapsed_ms\<close> reads off the clock,
  when a socket was connected or its handshake ended.
\<close>

datatype sock = Dial nat | Task nat nat

datatype stage = Connecting | Handshaking

record 'i wire =
  w_supports_pq :: bool
  w_addresses :: "latin \<Rightarrow> int \<Rightarrow> fault + 'i list"
  w_address :: "'i \<Rightarrow> latin"
  w_socket :: "sock \<Rightarrow> 'i \<Rightarrow> fault option"
  w_connect :: "sock \<Rightarrow> 'i \<Rightarrow> pyfloat \<Rightarrow> fault option"
  w_guard :: "sock \<Rightarrow> fault option"
  w_core :: "sock \<Rightarrow> (fault, unit) os_core"
  w_negotiated :: "sock \<Rightarrow> tls_config \<Rightarrow> negotiated"
  w_mul :: "rat \<Rightarrow> pyfloat"
  w_ca :: latin
  w_started :: "sock \<Rightarrow> fault option"
  w_elapsed :: "stage \<Rightarrow> sock \<Rightarrow> pyfloat"

text \<open>
  What happens to sockets, to native connections and to the handles that are duplicated for them,
  in order.
\<close>

datatype event = OpenSock sock | CloseSock sock | OpenConn sock | CloseConn sock | DupHandle sock | CloseHandle sock

type_synonym 'a traced = "(fault + 'a) \<times> event list"

section \<open>One handshake\<close>

definition connect_sock :: "'i wire \<Rightarrow> sock \<Rightarrow> 'i \<Rightarrow> pyfloat \<Rightarrow> sock traced" where
  "connect_sock wire s info timeout =
     (case w_socket wire s info of
        Some e \<Rightarrow> (Inl e, [])
      | None \<Rightarrow> (case w_connect wire s info timeout of
          Some e \<Rightarrow> (Inl e, [OpenSock s, CloseSock s])
        | None \<Rightarrow> (Inr s, [OpenSock s])))"

definition or_none :: "latin \<Rightarrow> latin option" where
  "or_none t = (if t = [] then None else Some t)"

definition probe_config :: "latin list \<Rightarrow> nat list \<Rightarrow> pyfloat \<Rightarrow> tls_config" where
  "probe_config alpn groups timeout = (default_config groups)
     \<lparr>c_verify := False, c_alpn := alpn, c_groups := groups, c_timeout := Some timeout\<rparr>"

text \<open>What \<open>_prepare_wrap\<close> and the call it returns raise, as exceptions.\<close>

fun extension_message :: "extension_error \<Rightarrow> latin" where
  "extension_message (TypeOutOfRange etype) = ''extension type '' @ str_of_int etype @ '' out of range 0..65535''"
| "extension_message (DataTooLong etype n) = ''extension '' @ str_of_int etype @ '' data is '' @ str_of_nat n @ '' bytes; max is 65535''"
| "extension_message (ManagedByFizz etype) = ''extension type '' @ str_of_int etype @ '' is managed by Fizz and cannot be injected''"
| "extension_message (DuplicateType etype) = ''duplicate extension type '' @ str_of_int etype"

definition plain_fault :: "fault_kind \<Rightarrow> latin \<Rightarrow> latin \<Rightarrow> fault" where
  "plain_fault k type text = \<lparr>f_kind = k, f_type = type, f_text = text, f_errno = None, f_alert = None, f_alert_remote = False\<rparr>"

fun wrap_fault :: "fault wrap_error \<Rightarrow> fault" where
  "wrap_fault (WrapExtensions e) = plain_fault ValueFailure ''ValueError'' (extension_message e)"
| "wrap_fault (WrapTimeout OverflowError) = plain_fault OtherFailure ''OverflowError'' ''cannot convert float infinity to integer''"
| "wrap_fault (WrapTimeout ValueErrorNaN) = plain_fault ValueFailure ''ValueError'' ''cannot convert float NaN to integer''"
| "wrap_fault (WrapRaised e) = e"

text \<open>
  \<open>handshake_async\<close> with what it does to the handle it duplicates: the core closes a handle whose
  handshake it ends, and takes over one whose handshake it finishes.
\<close>

definition no_handles :: handles where
  "no_handles = \<lparr>open_handles = {}, adopted = {}\<rparr>"

definition handshake_traced :: "'i wire \<Rightarrow> sock \<Rightarrow> latin \<Rightarrow> tls_config \<Rightarrow> negotiated traced" where
  "handshake_traced wire s sni cfg =
     (case prepare_wrap (w_core wire s) () cfg no_handles of
        (Inl e, hs) \<Rightarrow> (Inl (wrap_fault e), [])
      | (Inr (h, exts), hs) \<Rightarrow>
          (case submit_wrap (w_mul wire) (w_ca wire) (w_core wire s) sni cfg h exts hs of
             (Inl e, hs) \<Rightarrow> (Inl (wrap_fault e), DupHandle s # (if h \<in> open_handles hs then [] else [CloseHandle s]))
           | (Inr c, hs) \<Rightarrow> (Inr (w_negotiated wire s cfg), [DupHandle s, OpenConn s])))"

lemma handshake_traced_async:
  "fst (handshake_traced wire s sni cfg)
    = (case fst (handshake_async (w_mul wire) (w_ca wire) groups (w_core wire s) () sni (Some cfg) no_handles) of
         Inl e \<Rightarrow> Inl (wrap_fault e) | Inr c \<Rightarrow> Inr (w_negotiated wire s cfg))"
  by (auto simp: handshake_traced_def handshake_async_def split: prod.splits sum.splits)

text \<open>
  \<open>_handshake\<close>: its \<open>finally\<close> closes the connection, when there is one, and with it the handle that
  the core took over, and the socket.
\<close>

definition handshake_on ::
    "'i wire \<Rightarrow> sock \<Rightarrow> latin \<Rightarrow> latin list \<Rightarrow> nat list \<Rightarrow> pyfloat \<Rightarrow> attempt traced" where
  "handshake_on wire s sni alpn groups timeout =
     (let names = map group_name groups; ms = w_elapsed wire Handshaking s;
          (result, tr) = (case w_guard wire s of
             Some e \<Rightarrow> (Inl e, [])
           | None \<Rightarrow> handshake_traced wire s sni (probe_config alpn groups timeout)) in
      case result of
        Inl e \<Rightarrow>
          (if os_or_timeout e
           then (let (out, alert, detail) = classify e in
                 Inr ((new_attempt names out ms)\<lparr>a_alert := alert, a_detail := detail\<rparr>))
           else Inl e, tr @ [CloseSock s])
      | Inr n \<Rightarrow>
          (Inr (if length names = 1 \<and> neg_group n \<noteq> hd names
                then (new_attempt names FAILED ms)\<lparr>a_detail := Some (''negotiated '' @ neg_group n @ '' instead'')\<rparr>
                else (new_attempt names ACCEPTED ms)\<lparr>a_group := Some (neg_group n), a_version := Some (neg_version n),
                       a_cipher := Some (neg_cipher n), a_alpn := or_none (neg_alpn n),
                       a_certificate := or_none (neg_peer_cert n)\<rparr>),
           tr @ [CloseConn s, CloseHandle s, CloseSock s]))"

definition handshake_fresh ::
    "'i wire \<Rightarrow> sock \<Rightarrow> 'i \<Rightarrow> latin \<Rightarrow> latin list \<Rightarrow> nat list \<Rightarrow> pyfloat \<Rightarrow> attempt traced" where
  "handshake_fresh wire s info sni alpn groups timeout =
     (case connect_sock wire s info timeout of
        (Inl e, tr) \<Rightarrow>
          (if os_or_timeout e
           then Inr ((new_attempt (map group_name groups) FAILED (w_elapsed wire Connecting s))
                  \<lparr>a_detail := Some (''connect: '' @ reason e)\<rparr>)
           else Inl e, tr)
      | (Inr s, tr) \<Rightarrow>
          (let (result, tr') = handshake_on wire s sni alpn groups timeout in (result, tr @ tr')))"

section \<open>The verdict\<close>

definition NO_SHARED_GROUP :: "latin list" where
  "NO_SHARED_GROUP = [''handshake_failure'', ''insufficient_security'']"

definition NO_TLS13_ALERTS :: "latin list" where
  "NO_TLS13_ALERTS = NO_SHARED_GROUP @ [''protocol_version'']"

definition alert_in :: "latin list \<Rightarrow> attempt \<Rightarrow> bool" where
  "alert_in names a \<longleftrightarrow> (case a_alert a of None \<Rightarrow> False | Some t \<Rightarrow> t \<in> set names)"

definition verdict_of :: "attempt \<Rightarrow> attempt list \<Rightarrow> verdict" where
  "verdict_of pq classical =
     (if a_outcome pq = ACCEPTED then POST_QUANTUM
      else if list_ex (\<lambda>a. a_outcome a = ACCEPTED) classical
      then (if a_outcome pq = REJECTED \<and> alert_in NO_SHARED_GROUP pq then CLASSICAL_ONLY else PQ_BLOCKED)
      else if list_all (\<lambda>a. a_outcome a = REJECTED \<and> alert_in NO_TLS13_ALERTS a) (pq # classical) then NO_TLS13
      else ERROR)"

text \<open>\<open>x or y\<close> for strings that may be \<open>None\<close>; the result is falsy when both are.\<close>

definition str_or :: "latin option \<Rightarrow> latin option \<Rightarrow> latin option" where
  "str_or x y = (case x of Some t \<Rightarrow> if t \<noteq> [] then x else y | None \<Rightarrow> y)"

definition truthy :: "latin option \<Rightarrow> bool" where
  "truthy x \<longleftrightarrow> x \<noteq> None \<and> x \<noteq> Some []"

definition explain_error :: "attempt list \<Rightarrow> latin" where
  "explain_error attempts =
     (let alerts = map (the \<circ> a_alert) (filter (truthy \<circ> a_alert) attempts) in
      if ''unrecognized_name'' \<in> set alerts
      then ''server rejected the server name (unrecognized_name); try --sni''
      else let seen = filter truthy (map (\<lambda>a. str_or (a_detail a) (a_alert a)) attempts) in
        if seen \<noteq> [] then the (hd seen) else ''no handshake completed'')"

section \<open>probe\<close>

text \<open>\<open>_settled\<close>: the first failure, else every result.\<close>

fun settled :: "(fault + attempt) list \<Rightarrow> fault + attempt list" where
  "settled [] = Inr []"
| "settled (Inl e # rs) = Inl e"
| "settled (Inr a # rs) = (case settled rs of Inl e \<Rightarrow> Inl e | Inr as \<Rightarrow> Inr (a # as))"

text \<open>The loop over the addresses, to the first that accepts a connection.\<close>

datatype 'i dialled = Dialled 'i sock | NoneDialled latin | DialRaised fault

fun dial :: "'i wire \<Rightarrow> pyfloat \<Rightarrow> nat \<Rightarrow> 'i list \<Rightarrow> latin \<Rightarrow> 'i dialled \<times> event list" where
  "dial wire timeout k [] last_error = (NoneDialled last_error, [])"
| "dial wire timeout k (info # infos) last_error =
     (case connect_sock wire (Dial k) info timeout of
        (Inr s, tr) \<Rightarrow> (Dialled info s, tr)
      | (Inl e, tr) \<Rightarrow>
          if os_or_timeout e
          then (let (result, tr') = dial wire timeout (Suc k) infos (''connect: '' @ reason e) in (result, tr @ tr'))
          else (DialRaised e, tr))"

text \<open>A task of \<open>gather\<close>; it never runs when it is cancelled first.\<close>

definition spawn :: "'i wire \<Rightarrow> sock \<Rightarrow> 'a traced \<Rightarrow> 'a traced" where
  "spawn wire s task = (case w_started wire s of Some e \<Rightarrow> (Inl e, []) | None \<Rightarrow> task)"

definition first_round ::
    "'i wire \<Rightarrow> 'i \<Rightarrow> sock \<Rightarrow> latin \<Rightarrow> latin list \<Rightarrow> pyfloat \<Rightarrow> attempt traced list" where
  "first_round wire info conn sni alpn timeout =
     spawn wire (Task 0 0) (handshake_on wire conn sni alpn DEFAULT_OFFER timeout)
     # map (\<lambda>(k, g). spawn wire (Task 0 k) (handshake_fresh wire (Task 0 k) info sni alpn [g] timeout))
         (zip [1, 2, 3, 4] PROBE_GROUPS)"

definition second_round ::
    "'i wire \<Rightarrow> 'i \<Rightarrow> latin \<Rightarrow> latin list \<Rightarrow> pyfloat \<Rightarrow> attempt traced list" where
  "second_round wire info sni alpn timeout =
     map (\<lambda>(k, offer). spawn wire (Task 1 k) (handshake_fresh wire (Task 1 k) info sni alpn offer timeout))
       (zip [0, 1] [DEFAULT_OFFER, [PQ_GROUP]])"

text \<open>
  The traces of a probe: its phases one after the other, each the traces of tasks that run
  concurrently. The last phase of the first round is the \<open>finally\<close> that closes the socket dialled.
\<close>

type_synonym phases = "event list list list"

definition handshakes ::
    "'i wire \<Rightarrow> 'i \<Rightarrow> sock \<Rightarrow> latin \<Rightarrow> latin list \<Rightarrow> pyfloat \<Rightarrow> (fault + attempt \<times> attempt list \<times> verdict) \<times> phases" where
  "handshakes wire info conn sni alpn timeout =
     (let tasks = first_round wire info conn sni alpn timeout;
          traces = [map snd tasks, [[CloseSock conn]]] in
      case settled (map fst tasks) of
        Inl e \<Rightarrow> (Inl e, traces)
      | Inr results \<Rightarrow>
          (let deflt = hd results; attempts = tl results; v = verdict_of (hd attempts) (tl attempts) in
           if v = PQ_BLOCKED
           then (let tasks = second_round wire info sni alpn timeout; traces = traces @ [map snd tasks] in
                 case settled (map fst tasks) of
                   Inl e \<Rightarrow> (Inl e, traces)
                 | Inr results \<Rightarrow>
                     (let deflt = hd results; attempts = attempts[0 := hd (tl results)] in
                      (Inr (deflt, attempts, verdict_of (hd attempts) (tl attempts)), traces)))
           else (Inr (deflt, attempts, v), traces)))"

definition unsupported :: fault where
  "unsupported = \<lparr>f_kind = NoPostQuantumSupport, f_type = ''NoPostQuantumSupport'',
     f_text = ''this build of fizzpy has no post-quantum support; install a wheel or build against a liboqs-enabled Fizz'',
     f_errno = None, f_alert = None, f_alert_remote = False\<rparr>"

definition probe ::
    "(latin \<Rightarrow> latin option) \<Rightarrow> 'i wire \<Rightarrow> latin \<Rightarrow> int \<Rightarrow> pyfloat \<Rightarrow> latin option \<Rightarrow> latin list
      \<Rightarrow> (fault + probe_result) \<times> phases" where
  "probe nonascii wire host p timeout sni alpn =
     (let unreachable = (\<lambda>err. Inr (new_result host p UNREACHABLE (Some err))) in
      if \<not> w_supports_pq wire then (Inl unsupported, [])
      else case (if truthy sni then sni else server_name nonascii host) of
        None \<Rightarrow> (unreachable ''dns: invalid hostname'', [])
      | Some name \<Rightarrow>
          (case w_addresses wire host p of
             Inl e \<Rightarrow> (if os_or_timeout e \<or> f_kind e = ValueFailure then unreachable (''dns: '' @ reason e) else Inl e, [])
           | Inr infos \<Rightarrow>
               (case dial wire timeout 0 infos ''no addresses'' of
                  (NoneDialled err, tr) \<Rightarrow> (unreachable err, [[tr]])
                | (DialRaised e, tr) \<Rightarrow> (Inl e, [[tr]])
                | (Dialled info conn, tr) \<Rightarrow>
                    (case handshakes wire info conn name alpn timeout of
                       (Inl e, traces) \<Rightarrow> (Inl e, [tr] # traces)
                     | (Inr (deflt, attempts, v), traces) \<Rightarrow>
                         (Inr \<lparr>pr_host = host, pr_port = p, pr_verdict = v, pr_address = Some (w_address wire info),
                            pr_tcp_ms = Some (w_elapsed wire Connecting conn),
                            pr_error = (if v = ERROR then Some (explain_error attempts) else None),
                            pr_attempts = attempts, pr_default = Some deflt\<rparr>,
                          [tr] # traces)))))"

section \<open>Attempts\<close>

text \<open>What every attempt satisfies.\<close>

definition attempt_ok :: "attempt \<Rightarrow> bool" where
  "attempt_ok a \<longleftrightarrow>
     (case a_outcome a of
        ACCEPTED \<Rightarrow> a_alert a = None \<and> a_detail a = None \<and> a_group a \<noteq> None
          \<and> (length (a_offered a) = 1 \<longrightarrow> a_group a = Some (hd (a_offered a)))
      | REJECTED \<Rightarrow> a_alert a \<noteq> None \<and> a_detail a = None \<and> a_group a = None
      | FAILED \<Rightarrow> a_detail a \<noteq> None \<and> a_group a = None)"

lemma attempt_update [simp]:
  "a_offered (new_attempt names out ms) = names" "a_outcome (new_attempt names out ms) = out"
  "a_alert (new_attempt names out ms) = None" "a_detail (new_attempt names out ms) = None"
  "a_group (new_attempt names out ms) = None"
  by (simp_all add: new_attempt_def)

lemma handshake_on_attempt:
  assumes "handshake_on wire s sni alpn groups timeout = (Inr a, tr)"
  shows "attempt_ok a \<and> a_offered a = map group_name groups"
  using assms
  by (auto simp: handshake_on_def attempt_ok_def classify_def Let_def split: sum.splits if_splits option.splits prod.splits)

lemma handshake_fresh_attempt:
  assumes "handshake_fresh wire s info sni alpn groups timeout = (Inr a, tr)"
  shows "attempt_ok a \<and> a_offered a = map group_name groups"
  using assms handshake_on_attempt [of wire _ sni alpn groups timeout a]
  by (auto simp: handshake_fresh_def attempt_ok_def Let_def split: prod.splits sum.splits if_splits)

lemma handshake_on_raises: "handshake_on wire s sni alpn groups timeout = (Inl e, tr) \<Longrightarrow> \<not> os_or_timeout e"
  by (auto simp: handshake_on_def Let_def split: prod.splits sum.splits if_splits option.splits)

lemma handshake_fresh_raises:
  "handshake_fresh wire s info sni alpn groups timeout = (Inl e, tr) \<Longrightarrow> \<not> os_or_timeout e"
  by (auto simp: handshake_fresh_def Let_def dest: handshake_on_raises split: prod.splits sum.splits if_splits)

lemma spawn_Inr: "fst (spawn wire s task) = Inr a \<Longrightarrow> \<exists>tr. task = (Inr a, tr)"
  by (cases task) (auto simp: spawn_def split: option.splits)

lemma settled_map_Inr: "settled (map Inr as) = Inr as"
  by (induction as) simp_all

lemma settled_Inr: "settled rs = Inr as \<longleftrightarrow> rs = map Inr as"
proof
  show "settled rs = Inr as \<Longrightarrow> rs = map Inr as"
    by (induction rs arbitrary: as rule: settled.induct) (auto split: sum.splits)
qed (simp add: settled_map_Inr)

lemma settled_Inl: "settled rs = Inl e \<Longrightarrow> Inl e \<in> set rs"
  by (induction rs rule: settled.induct) (auto split: sum.splits)

lemmas group_defs = PROBE_GROUPS_def CLASSICAL_GROUPS_def DEFAULT_OFFER_def PQ_GROUP_def group_name_def

text \<open>The results of the two rounds.\<close>

lemma first_round_results:
  assumes "settled (map fst (first_round wire info conn sni alpn timeout)) = Inr results"
  shows "\<exists>d pq cs. results = d # pq # cs \<and> map a_offered (pq # cs) = map (\<lambda>g. [group_name g]) PROBE_GROUPS
    \<and> list_all attempt_ok results
    \<and> fst (handshake_fresh wire (Task 0 1) info sni alpn [PQ_GROUP] timeout) = Inr pq"
proof -
  let ?h = "\<lambda>k g. handshake_fresh wire (Task 0 k) info sni alpn [g] timeout"
  have "map fst (first_round wire info conn sni alpn timeout) = map Inr results"
    using assms by (simp add: settled_Inr)
  then obtain d pq x y z where r: "results = [d, pq, x, y, z]"
    and task: "fst (spawn wire (Task 0 0) (handshake_on wire conn sni alpn DEFAULT_OFFER timeout)) = Inr d"
      "fst (spawn wire (Task 0 1) (?h 1 PQ_GROUP)) = Inr pq" "fst (spawn wire (Task 0 2) (?h 2 x25519)) = Inr x"
      "fst (spawn wire (Task 0 3) (?h 3 secp256r1)) = Inr y" "fst (spawn wire (Task 0 4) (?h 4 secp384r1)) = Inr z"
    by (auto simp: first_round_def PROBE_GROUPS_def CLASSICAL_GROUPS_def Cons_eq_map_conv)
  have "attempt_ok d" using spawn_Inr [OF task(1)] handshake_on_attempt by blast
  moreover note fresh = spawn_Inr [OF task(2)] spawn_Inr [OF task(3)] spawn_Inr [OF task(4)] spawn_Inr [OF task(5)]
  have "fst (?h 1 PQ_GROUP) = Inr pq" using fresh(1) by auto
  moreover have "attempt_ok pq \<and> a_offered pq = [group_name PQ_GROUP]" "attempt_ok x \<and> a_offered x = [group_name x25519]"
    "attempt_ok y \<and> a_offered y = [group_name secp256r1]" "attempt_ok z \<and> a_offered z = [group_name secp384r1]"
    using fresh handshake_fresh_attempt by fastforce+
  ultimately show ?thesis by (auto simp: r PROBE_GROUPS_def CLASSICAL_GROUPS_def)
qed

lemma second_round_results:
  assumes "settled (map fst (second_round wire info sni alpn timeout)) = Inr results"
  shows "\<exists>d pq. results = [d, pq] \<and> attempt_ok d \<and> attempt_ok pq \<and> a_offered pq = [group_name PQ_GROUP]
    \<and> fst (handshake_fresh wire (Task 1 1) info sni alpn [PQ_GROUP] timeout) = Inr pq"
proof -
  let ?h = "\<lambda>k offer. handshake_fresh wire (Task 1 k) info sni alpn offer timeout"
  have "map fst (second_round wire info sni alpn timeout) = map Inr results"
    using assms by (simp add: settled_Inr)
  then obtain d pq where r: "results = [d, pq]"
    and task: "fst (spawn wire (Task 1 0) (?h 0 DEFAULT_OFFER)) = Inr d" "fst (spawn wire (Task 1 1) (?h 1 [PQ_GROUP])) = Inr pq"
    by (auto simp: second_round_def Cons_eq_map_conv)
  from spawn_Inr [OF task(1)] spawn_Inr [OF task(2)] handshake_fresh_attempt show ?thesis
    by (fastforce simp: r)
qed

lemma round_raises:
  assumes "\<forall>s e. w_started wire s = Some e \<longrightarrow> \<not> os_or_timeout e"
  shows "Inl e \<in> fst ` set (first_round wire info conn sni alpn timeout) \<Longrightarrow> \<not> os_or_timeout e"
    and "Inl e \<in> fst ` set (second_round wire info sni alpn timeout) \<Longrightarrow> \<not> os_or_timeout e"
proof -
  have spawned: "\<not> os_or_timeout e"
    if "Inl e = fst (spawn wire s task)" "\<And>tr. task = (Inl e, tr) \<Longrightarrow> \<not> os_or_timeout e" for s and task :: "attempt traced"
    using assms that by (cases "w_started wire s"; cases task) (auto simp: spawn_def)
  show "Inl e \<in> fst ` set (first_round wire info conn sni alpn timeout) \<Longrightarrow> \<not> os_or_timeout e"
    by (auto simp: first_round_def set_zip dest: spawned [OF _ handshake_on_raises] spawned [OF _ handshake_fresh_raises])
  show "Inl e \<in> fst ` set (second_round wire info sni alpn timeout) \<Longrightarrow> \<not> os_or_timeout e"
    by (auto simp: second_round_def dest: spawned [OF _ handshake_fresh_raises])
qed

section \<open>What a result says\<close>

lemma verdict_of_cases:
  "verdict_of pq cs = POST_QUANTUM \<longleftrightarrow> a_outcome pq = ACCEPTED"
  "verdict_of pq cs \<in> {CLASSICAL_ONLY, PQ_BLOCKED}
     \<longleftrightarrow> a_outcome pq \<noteq> ACCEPTED \<and> (\<exists>a \<in> set cs. a_outcome a = ACCEPTED)"
  "verdict_of pq cs \<noteq> UNREACHABLE"
  by (auto simp: verdict_of_def list_ex_iff)

lemma explain_error_not_Nil: "explain_error attempts \<noteq> []"
proof (cases "filter truthy (map (\<lambda>a. str_or (a_detail a) (a_alert a)) attempts)")
  case (Cons x xs)
  then have "truthy x" by (metis filter_eq_ConsD)
  with Cons show ?thesis by (cases x) (auto simp: explain_error_def Let_def truthy_def)
qed (simp add: explain_error_def Let_def)

text \<open>
  The invariant of results: which fields go together, which groups were offered, and what the
  verdict says about the groups accepted.
\<close>

definition result_ok :: "probe_result \<Rightarrow> bool" where
  "result_ok r \<longleftrightarrow>
     (pr_verdict r = UNREACHABLE \<longleftrightarrow> pr_attempts r = []) \<and> (pr_default r = None \<longleftrightarrow> pr_attempts r = [])
     \<and> (pr_error r \<noteq> None \<longleftrightarrow> pr_verdict r \<in> {UNREACHABLE, ERROR}) \<and> pr_error r \<noteq> Some []
     \<and> (pr_attempts r \<noteq> [] \<longrightarrow> map a_offered (pr_attempts r) = map (\<lambda>g. [group_name g]) PROBE_GROUPS)
     \<and> list_all attempt_ok (pr_attempts r) \<and> (\<forall>a. pr_default r = Some a \<longrightarrow> attempt_ok a)
     \<and> (pr_verdict r = POST_QUANTUM \<longleftrightarrow> ''X25519MLKEM768'' \<in> set (accepted_groups r))
     \<and> (pr_verdict r \<in> {CLASSICAL_ONLY, PQ_BLOCKED}
          \<longleftrightarrow> ''X25519MLKEM768'' \<notin> set (accepted_groups r) \<and> accepted_groups r \<noteq> [])"

lemma new_result_ok: "err \<noteq> [] \<Longrightarrow> result_ok (new_result host p UNREACHABLE (Some err))"
  by (simp add: result_ok_def new_result_def accepted_groups_def)

lemma answered_ok:
  assumes offered: "map a_offered (pq # cs) = map (\<lambda>g. [group_name g]) PROBE_GROUPS"
    and ok: "list_all attempt_ok (d # pq # cs)"
  shows "result_ok \<lparr>pr_host = host, pr_port = p, pr_verdict = verdict_of pq cs, pr_address = addr, pr_tcp_ms = ms,
    pr_error = (if verdict_of pq cs = ERROR then Some (explain_error (pq # cs)) else None),
    pr_attempts = pq # cs, pr_default = Some d\<rparr>" (is "result_ok ?r")
proof -
  have pq: "hd (a_offered pq) = ''X25519MLKEM768''" and cs: "map (hd \<circ> a_offered) cs = [''x25519'', ''secp256r1'', ''secp384r1'']"
    using offered by (auto simp: group_defs Cons_eq_map_conv)
  have others: "''X25519MLKEM768'' \<noteq> hd (a_offered a)" if "a \<in> set cs" for a
  proof -
    have "hd (a_offered a) \<in> set (map (hd \<circ> a_offered) cs)" using that by simp
    then show ?thesis unfolding cs by auto
  qed
  then have "''X25519MLKEM768'' \<notin> set (map (\<lambda>a. hd (a_offered a)) (filter (\<lambda>a. a_outcome a = ACCEPTED) cs))"
    by (simp add: image_iff)
  with pq have "''X25519MLKEM768'' \<in> set (accepted_groups ?r) \<longleftrightarrow> a_outcome pq = ACCEPTED"
    by (simp add: accepted_groups_def)
  moreover have "accepted_groups ?r \<noteq> [] \<longleftrightarrow> a_outcome pq = ACCEPTED \<or> (\<exists>a \<in> set cs. a_outcome a = ACCEPTED)"
    by (auto simp: accepted_groups_def filter_empty_conv)
  ultimately show ?thesis
    using offered ok verdict_of_cases [of pq cs] explain_error_not_Nil [of "pq # cs"]
    by (simp add: result_ok_def) blast
qed

lemma handshakes_cases:
  assumes "handshakes wire info conn sni alpn timeout = (Inr (d, attempts, v), traces)"
  shows "\<exists>pq cs. attempts = pq # cs \<and> v = verdict_of pq cs \<and> list_all attempt_ok (d # pq # cs)
    \<and> map a_offered (pq # cs) = map (\<lambda>g. [group_name g]) PROBE_GROUPS"
    and "v = PQ_BLOCKED \<Longrightarrow>
      \<exists>first. fst (handshake_fresh wire (Task 0 1) info sni alpn [PQ_GROUP] timeout) = Inr first \<and> a_outcome first \<noteq> ACCEPTED
      \<and> fst (handshake_fresh wire (Task 1 1) info sni alpn [PQ_GROUP] timeout) = Inr (hd attempts) \<and> a_outcome (hd attempts) \<noteq> ACCEPTED"
proof -
  obtain results where "settled (map fst (first_round wire info conn sni alpn timeout)) = Inr results"
    using assms by (auto simp: handshakes_def Let_def split: sum.splits)
  note first = this
  obtain d0 pq0 cs where r: "results = d0 # pq0 # cs" "map a_offered (pq0 # cs) = map (\<lambda>g. [group_name g]) PROBE_GROUPS"
    "list_all attempt_ok results" "fst (handshake_fresh wire (Task 0 1) info sni alpn [PQ_GROUP] timeout) = Inr pq0"
    using first_round_results [OF first] by blast
  have "(\<exists>pq. attempts = pq # cs \<and> v = verdict_of pq cs \<and> list_all attempt_ok (d # pq # cs) \<and> a_offered pq = a_offered pq0)
    \<and> (v = PQ_BLOCKED \<longrightarrow> a_outcome pq0 \<noteq> ACCEPTED
      \<and> fst (handshake_fresh wire (Task 1 1) info sni alpn [PQ_GROUP] timeout) = Inr (hd attempts) \<and> a_outcome (hd attempts) \<noteq> ACCEPTED)"
  proof (cases "verdict_of pq0 cs = PQ_BLOCKED")
    case False
    with assms first r(1) have "attempts = pq0 # cs" "v = verdict_of pq0 cs" "d = d0"
      by (auto simp: handshakes_def Let_def)
    with False r(1,3) show ?thesis by simp
  next
    case True
    with assms first r obtain again where second: "settled (map fst (second_round wire info sni alpn timeout)) = Inr again"
      by (auto simp: handshakes_def Let_def split: sum.splits)
    obtain d1 pq1 where a: "again = [d1, pq1]" "attempt_ok d1" "attempt_ok pq1" "a_offered pq1 = [group_name PQ_GROUP]"
      "fst (handshake_fresh wire (Task 1 1) info sni alpn [PQ_GROUP] timeout) = Inr pq1"
      using second_round_results [OF second] by blast
    have "attempts = pq1 # cs" "v = verdict_of pq1 cs" "d = d1"
      using assms first r(1) True second a(1) by (auto simp: handshakes_def Let_def)
    moreover have "a_offered pq0 = [group_name PQ_GROUP]" using r(2) by (simp add: PROBE_GROUPS_def)
    moreover have "a_outcome pq \<noteq> ACCEPTED" if "verdict_of pq cs = PQ_BLOCKED" for pq
      using that verdict_of_cases(1) [of pq cs] by auto
    ultimately show ?thesis using True a r by auto
  qed
  then show "\<exists>pq cs. attempts = pq # cs \<and> v = verdict_of pq cs \<and> list_all attempt_ok (d # pq # cs)
    \<and> map a_offered (pq # cs) = map (\<lambda>g. [group_name g]) PROBE_GROUPS"
    and "v = PQ_BLOCKED \<Longrightarrow>
      \<exists>first. fst (handshake_fresh wire (Task 0 1) info sni alpn [PQ_GROUP] timeout) = Inr first \<and> a_outcome first \<noteq> ACCEPTED
      \<and> fst (handshake_fresh wire (Task 1 1) info sni alpn [PQ_GROUP] timeout) = Inr (hd attempts) \<and> a_outcome (hd attempts) \<noteq> ACCEPTED"
    using r(2,4) by fastforce+
qed

lemma probe_cases:
  assumes "fst (probe nonascii wire host p timeout sni alpn) = Inr r"
  obtains err where "r = new_result host p UNREACHABLE (Some err)" "err \<noteq> []"
  | infos info conn tr name d attempts v traces where
      "w_addresses wire host p = Inr infos" "dial wire timeout 0 infos ''no addresses'' = (Dialled info conn, tr)"
      "handshakes wire info conn name alpn timeout = (Inr (d, attempts, v), traces)"
      "Some name = (if truthy sni then sni else server_name nonascii host)"
      "r = \<lparr>pr_host = host, pr_port = p, pr_verdict = v, pr_address = Some (w_address wire info),
         pr_tcp_ms = Some (w_elapsed wire Connecting conn),
         pr_error = (if v = ERROR then Some (explain_error attempts) else None),
         pr_attempts = attempts, pr_default = Some d\<rparr>"
proof -
  have dialled: "err \<noteq> []" if "dial wire timeout k infos last_error = (NoneDialled err, tr)" "last_error \<noteq> []" for err k infos last_error tr
    using that by (induction wire timeout k infos last_error arbitrary: err tr rule: dial.induct)
      (auto simp: Let_def split: prod.splits sum.splits if_splits)
  show thesis
    using assms that dialled
    unfolding probe_def Let_def
    by (auto split: if_splits option.splits sum.splits prod.splits dialled.splits)
qed

lemma probe_target:
  "fst (probe nonascii wire host p timeout sni alpn) = Inr r \<Longrightarrow> pr_host r = host \<and> pr_port r = p"
  by (erule probe_cases) (simp_all add: new_result_def)

section \<open>Sockets\<close>

text \<open>The orders in which concurrent tasks can do what their traces say, phase after phase.\<close>

fun interleavings :: "'a list list \<Rightarrow> 'a list set" where
  "interleavings [] = {[]}"
| "interleavings (t # ts) = (\<Union>u \<in> interleavings ts. shuffles t u)"

fun schedules :: "'a list list list \<Rightarrow> 'a list set" where
  "schedules [] = {[]}"
| "schedules (ph # phs) = (\<Union>a \<in> interleavings ph. (@) a ` schedules phs)"

text \<open>
  Whatever is opened is closed later: sockets and connections, and with \<open>handles\<close> the handles
  duplicated, too.
\<close>

fun closing :: "bool \<Rightarrow> event \<Rightarrow> event option" where
  "closing handles (OpenSock s) = Some (CloseSock s)"
| "closing handles (OpenConn s) = Some (CloseConn s)"
| "closing handles (DupHandle s) = (if handles then Some (CloseHandle s) else None)"
| "closing handles _ = None"

fun closed_later :: "bool \<Rightarrow> event list \<Rightarrow> bool" where
  "closed_later handles [] = True"
| "closed_later handles (e # es) =
     ((case closing handles e of None \<Rightarrow> True | Some c \<Rightarrow> c \<in> set es) \<and> closed_later handles es)"

lemma closed_later_append: "closed_later b xs \<Longrightarrow> closed_later b ys \<Longrightarrow> closed_later b (xs @ ys)"
  by (induction xs) (auto split: option.splits)

lemma closed_later_shuffles:
  "zs \<in> shuffles xs ys \<Longrightarrow> closed_later b xs \<Longrightarrow> closed_later b ys \<Longrightarrow> closed_later b zs"
proof (induction xs ys arbitrary: zs rule: shuffles.induct)
  case (3 x xs y ys)
  from 3(3) consider w where "zs = x # w" "w \<in> shuffles xs (y # ys)" | w where "zs = y # w" "w \<in> shuffles (x # xs) ys"
    by auto
  then show ?case
  proof cases
    case (1 w)
    then show ?thesis using 3(1) [OF 1(2)] 3(4,5) set_shuffles [OF 1(2)] by (auto split: option.splits)
  next
    case (2 w)
    then show ?thesis using 3(2) [OF 2(2)] 3(4,5) set_shuffles [OF 2(2)] by (auto split: option.splits)
  qed
qed auto

lemma closed_later_interleavings:
  "zs \<in> interleavings ts \<Longrightarrow> \<forall>t \<in> set ts. closed_later b t \<Longrightarrow> closed_later b zs"
  by (induction ts arbitrary: zs) (auto dest: closed_later_shuffles)

lemma closed_later_schedules:
  "zs \<in> schedules phs \<Longrightarrow> \<forall>ph \<in> set phs. \<forall>t \<in> set ph. closed_later b t \<Longrightarrow> closed_later b zs"
proof (induction phs arbitrary: zs)
  case (Cons ph phs)
  then obtain x y where "zs = x @ y" "x \<in> interleavings ph" "y \<in> schedules phs" by auto
  with Cons show ?case by (simp add: closed_later_append closed_later_interleavings)
qed simp

lemma set_interleavings: "zs \<in> interleavings ts \<Longrightarrow> set zs = \<Union> (set ` set ts)"
  by (induction ts arbitrary: zs) (auto dest: set_shuffles)

lemma set_schedules: "zs \<in> schedules phs \<Longrightarrow> set zs = (\<Union>ph \<in> set phs. \<Union> (set ` set ph))"
proof (induction phs arbitrary: zs)
  case (Cons ph phs)
  then obtain a b where "zs = a @ b" "a \<in> interleavings ph" "b \<in> schedules phs" by auto
  with Cons.IH [of b] show ?case by (simp add: set_interleavings)
qed simp

lemma connect_sock_trace:
  "connect_sock wire s info timeout = (Inl e, tr) \<Longrightarrow> closed_later b tr"
  "connect_sock wire s info timeout = (Inr s', tr) \<Longrightarrow> s' = s \<and> tr = [OpenSock s]"
  by (auto simp: connect_sock_def split: option.splits)

text \<open>Whether the core closes handles: whether the timeout of the handshakes can be converted.\<close>

abbreviation converts :: "'i wire \<Rightarrow> pyfloat \<Rightarrow> bool" where
  "converts wire timeout \<equiv> \<exists>ms. timeout_to_ms (w_mul wire) (Some timeout) = Inr ms"

lemma handshake_traced_trace:
  assumes "handshake_traced wire s sni (probe_config alpn groups timeout) = (r, tr)"
  shows "(case r of
      Inl e \<Rightarrow> tr = [] \<or> tr = (if converts wire timeout then [DupHandle s, CloseHandle s] else [DupHandle s])
    | Inr n \<Rightarrow> converts wire timeout \<and> tr = [DupHandle s, OpenConn s])"
  using assms
  by (auto simp: handshake_traced_def prepare_wrap_def submit_wrap_def timeout_ms_def probe_config_def no_handles_def
      split: sum.splits prod.splits)

lemma handshake_on_trace:
  fixes wire :: "'i wire"
  shows "b \<longrightarrow> converts wire timeout \<Longrightarrow> closed_later b (snd (handshake_on wire s sni alpn groups timeout))"
  and "CloseSock s \<in> set (snd (handshake_on wire s sni alpn groups timeout))"
  and "CloseHandle h \<in> set (snd (handshake_on wire s sni alpn groups timeout)) \<Longrightarrow> converts wire timeout"
proof -
  obtain r tr where t: "handshake_traced wire s sni (probe_config alpn groups timeout) = (r, tr)" by fastforce
  note u = handshake_traced_trace [OF t]
  show "b \<longrightarrow> converts wire timeout \<Longrightarrow> closed_later b (snd (handshake_on wire s sni alpn groups timeout))"
    using u by (cases r; cases "w_guard wire s") (auto simp: handshake_on_def t Let_def split: if_splits)
  show "CloseSock s \<in> set (snd (handshake_on wire s sni alpn groups timeout))"
    using u by (cases r; cases "w_guard wire s") (auto simp: handshake_on_def t Let_def)
  show "CloseHandle h \<in> set (snd (handshake_on wire s sni alpn groups timeout)) \<Longrightarrow> converts wire timeout"
    using u by (cases r; cases "w_guard wire s") (auto simp: handshake_on_def t Let_def split: if_splits)
qed

lemma handshake_fresh_trace:
  "b \<longrightarrow> converts wire timeout \<Longrightarrow> closed_later b (snd (handshake_fresh wire s info sni alpn groups timeout))"
  "CloseHandle h \<in> set (snd (handshake_fresh wire s info sni alpn groups timeout)) \<Longrightarrow> converts wire timeout"
proof -
  note on = handshake_on_trace [where wire = wire and s = s and sni = sni and alpn = alpn and groups = groups and timeout = timeout]
  obtain r tr where c: "connect_sock wire s info timeout = (r, tr)" by fastforce
  obtain r' tr' where h: "handshake_on wire s sni alpn groups timeout = (r', tr')" by fastforce
  show "closed_later b (snd (handshake_fresh wire s info sni alpn groups timeout))" if "b \<longrightarrow> converts wire timeout"
    using c connect_sock_trace [of wire s info timeout] on(1) [OF that] on(2)
    by (cases r) (auto simp: handshake_fresh_def h)
  show "converts wire timeout" if "CloseHandle h \<in> set (snd (handshake_fresh wire s info sni alpn groups timeout))"
    using c that on(3) [of h] connect_sock_trace(2) [of wire s info timeout]
    by (cases r) (auto simp: handshake_fresh_def connect_sock_def h split: option.splits)
qed

lemma spawn_trace:
  "closed_later b (snd task) \<Longrightarrow> closed_later b (snd (spawn wire s task))"
  "x \<in> set (snd (spawn wire s task)) \<Longrightarrow> x \<in> set (snd task)"
  by (auto simp: spawn_def split: option.splits)

lemma round_traces:
  assumes "t \<in> snd ` set (first_round wire info conn sni alpn timeout) \<union> snd ` set (second_round wire info sni alpn timeout)"
  shows "b \<longrightarrow> converts wire timeout \<Longrightarrow> closed_later b t" and "CloseHandle h \<in> set t \<Longrightarrow> converts wire timeout"
proof -
  show "closed_later b t" if "b \<longrightarrow> converts wire timeout"
    using assms handshake_on_trace(1) [OF that] handshake_fresh_trace(1) [OF that]
    by (auto simp: first_round_def second_round_def intro!: spawn_trace(1) dest!: set_zip_rightD)
  show "converts wire timeout" if "CloseHandle h \<in> set t"
    using assms that
    by (auto simp: first_round_def second_round_def dest!: spawn_trace(2) dest: handshake_on_trace(3) handshake_fresh_trace(2))
qed

lemma handshakes_traces:
  "(\<forall>ph \<in> set (snd (handshakes wire info conn sni alpn timeout)). \<forall>t \<in> set ph.
      ((b \<longrightarrow> converts wire timeout) \<longrightarrow> closed_later b t) \<and> (CloseHandle h \<in> set t \<longrightarrow> converts wire timeout))
   \<and> [[CloseSock conn]] \<in> set (snd (handshakes wire info conn sni alpn timeout))"
proof -
  let ?fst = "first_round wire info conn sni alpn timeout" and ?snd = "second_round wire info sni alpn timeout"
  have closed: "((b \<longrightarrow> converts wire timeout) \<longrightarrow> closed_later b t) \<and> (CloseHandle h \<in> set t \<longrightarrow> converts wire timeout)"
    if "t \<in> set (map snd ?fst) \<union> set (map snd ?snd) \<union> {[CloseSock conn]}" for t
  proof -
    from that consider "t \<in> snd ` set ?fst \<union> snd ` set ?snd" | "t = [CloseSock conn]" by auto
    then show ?thesis
    proof cases
      case 1
      from round_traces(1) [OF this] round_traces(2) [OF this] show ?thesis by blast
    qed simp
  qed
  have "set ph \<subseteq> set (map snd ?fst) \<union> set (map snd ?snd) \<union> {[CloseSock conn]}"
    if "ph \<in> set (snd (handshakes wire info conn sni alpn timeout))" for ph
  proof -
    from that have "ph \<in> {map snd ?fst, map snd ?snd, [[CloseSock conn]]}"
      by (auto simp: handshakes_def Let_def split: sum.splits if_splits)
    then show ?thesis by auto
  qed
  moreover have "[[CloseSock conn]] \<in> set (snd (handshakes wire info conn sni alpn timeout))"
    by (auto simp: handshakes_def Let_def split: sum.splits)
  ultimately show ?thesis using closed by (metis (no_types, lifting) subsetD)
qed

lemma dial_trace:
  assumes "dial wire timeout k infos last_error = (result, tr)" "closed_later b rest"
    "\<And>info s. result = Dialled info s \<Longrightarrow> CloseSock s \<in> set rest"
  shows "closed_later b (tr @ rest)"
  using assms
proof (induction wire timeout k infos last_error arbitrary: tr rule: dial.induct)
  case (2 wire timeout k info infos last_error)
  obtain r tr1 where c: "connect_sock wire (Dial k) info timeout = (r, tr1)" by fastforce
  show ?case
  proof (cases r)
    case (Inr s)
    with c 2 connect_sock_trace(2) show ?thesis by fastforce
  next
    case (Inl e)
    show ?thesis
    proof (cases "os_or_timeout e")
      case False
      with c Inl 2(2,3) connect_sock_trace(1) show ?thesis by (fastforce intro: closed_later_append)
    next
      case True
      obtain r2 tr2 where d: "dial wire timeout (Suc k) infos (''connect: '' @ reason e) = (r2, tr2)" by fastforce
      with c Inl True 2(2) have tr: "tr = tr1 @ tr2"
        and d: "dial wire timeout (Suc k) infos (''connect: '' @ reason e) = (result, tr2)" by simp_all
      have "closed_later b (tr2 @ rest)" using 2(1) [OF c [symmetric] Inl True d 2(3)] 2(4) by blast
      with closed_later_append [OF connect_sock_trace(1) [OF c [unfolded Inl]]] show ?thesis by (simp add: tr)
    qed
  qed
qed simp

lemma dial_no_handles: "CloseHandle h \<notin> set (snd (dial wire timeout k infos last_error))"
  by (induction wire timeout k infos last_error rule: dial.induct)
    (auto simp: connect_sock_def Let_def split: prod.splits sum.splits option.splits)

lemma probe_phases:
  "snd (probe nonascii wire host p timeout sni alpn) = []
   \<or> (\<exists>infos name. snd (probe nonascii wire host p timeout sni alpn) =
      [snd (dial wire timeout 0 infos ''no addresses'')]
      # (case fst (dial wire timeout 0 infos ''no addresses'') of
           Dialled info s \<Rightarrow> snd (handshakes wire info s name alpn timeout) | _ \<Rightarrow> []))"
proof (cases "w_supports_pq wire")
  case supported: True
  show ?thesis
  proof (cases "if truthy sni then sni else server_name nonascii host")
    case None
    then show ?thesis by (simp add: probe_def)
  next
    case name: (Some name)
    show ?thesis
    proof (cases "w_addresses wire host p")
      case (Inl e)
      with supported name show ?thesis by (simp add: probe_def)
    next
      case (Inr infos)
      obtain result tr where d: "dial wire timeout 0 infos ''no addresses'' = (result, tr)" by fastforce
      have "snd (probe nonascii wire host p timeout sni alpn) =
          [tr] # (case result of Dialled info s \<Rightarrow> snd (handshakes wire info s name alpn timeout) | _ \<Rightarrow> [])"
        using supported name Inr d unfolding probe_def Let_def
        by (cases result) (auto split: prod.splits sum.splits)
      then show ?thesis by (intro disjI2 exI [of _ infos] exI [of _ name]) (simp add: d)
    qed
  qed
qed (simp add: probe_def)

section \<open>Properties\<close>

text \<open>
  C24: every result of a probe satisfies the invariant: it has attempts unless the host was
  unreachable, one per probed group, each with the fields of its outcome; it has an error text
  exactly when the verdict is unreachable or error; the verdict is post-quantum exactly when the
  hybrid group was accepted, and classical-only or blocked exactly when only others were.
\<close>

theorem probe_result_ok:
  assumes "fst (probe nonascii wire host p timeout sni alpn) = Inr r"
  shows "result_ok r \<and> pr_host r = host \<and> pr_port r = p"
  using assms
proof (cases rule: probe_cases)
  case (1 err)
  then show ?thesis using new_result_ok by (simp add: new_result_def)
next
  case (2 infos info conn tr name d attempts v traces)
  then show ?thesis using handshakes_cases(1) [OF 2(3)] answered_ok by fastforce
qed

text \<open>
  C25: a host is called blocked only when the post-quantum handshake failed twice, over two
  connections to the address that was dialled, and the attempt reported is the second one.
\<close>

theorem pq_blocked_twice:
  assumes "fst (probe nonascii wire host p timeout sni alpn) = Inr r" "pr_verdict r = PQ_BLOCKED"
  shows "\<exists>info name first. pr_address r = Some (w_address wire info)
    \<and> fst (handshake_fresh wire (Task 0 1) info name alpn [PQ_GROUP] timeout) = Inr first \<and> a_outcome first \<noteq> ACCEPTED
    \<and> fst (handshake_fresh wire (Task 1 1) info name alpn [PQ_GROUP] timeout) = Inr (hd (pr_attempts r))
    \<and> a_outcome (hd (pr_attempts r)) \<noteq> ACCEPTED \<and> (\<exists>a \<in> set (pr_attempts r). a_outcome a = ACCEPTED)"
  using assms(1)
proof (cases rule: probe_cases)
  case (1 err)
  with assms(2) show ?thesis by (simp add: new_result_def)
next
  case (2 infos info conn tr name d attempts v traces)
  with assms(2) have "v = PQ_BLOCKED" by simp
  then have "\<exists>a \<in> set attempts. a_outcome a = ACCEPTED"
    using handshakes_cases(1) [OF 2(3)] verdict_of_cases(2) by fastforce
  with handshakes_cases(2) [OF 2(3) \<open>v = PQ_BLOCKED\<close>] 2(5) show ?thesis by auto
qed

text \<open>
  C33: no failure of the network leaves a probe: when it raises, it is not an \<open>OSError\<close> or a
  timeout, provided the event loop cancels tasks with other exceptions than these.
\<close>

theorem probe_contains_errors:
  assumes "\<forall>s e. w_started wire s = Some e \<longrightarrow> \<not> os_or_timeout e"
    and "fst (probe nonascii wire host p timeout sni alpn) = Inl e"
  shows "\<not> os_or_timeout e"
proof -
  have hs: "\<not> os_or_timeout e" if "handshakes wire info conn name alpn timeout = (Inl e, traces)" for info conn name traces
    using that settled_Inl [of "map fst (first_round wire info conn name alpn timeout)" e]
      settled_Inl [of "map fst (second_round wire info name alpn timeout)" e] round_raises [OF assms(1)]
    by (force simp: handshakes_def Let_def split: sum.splits if_splits)
  moreover have "\<not> os_or_timeout e" if "dial wire timeout k infos last_error = (DialRaised e, tr)" for k infos last_error tr
    using that by (induction wire timeout k infos last_error arbitrary: tr rule: dial.induct)
      (auto simp: Let_def split: prod.splits sum.splits if_splits)
  moreover have "\<not> os_or_timeout unsupported" by (simp add: os_or_timeout_def unsupported_def)
  ultimately show ?thesis
    using assms(2) unfolding probe_def Let_def
    by (auto split: if_splits option.splits sum.splits prod.splits dialled.splits)
qed

lemma probe_trace_closed:
  assumes "tr \<in> schedules (snd (probe nonascii wire host p timeout sni alpn))" "b \<longrightarrow> converts wire timeout"
  shows "closed_later b tr"
proof -
  have "closed_later b tr" if d: "dial wire timeout k infos last_error = (result, d)"
    "tr \<in> schedules ([d] # (case result of Dialled info s \<Rightarrow> snd (handshakes wire info s name alpn timeout) | _ \<Rightarrow> []))"
    for k infos last_error name and result :: "'a dialled" and d
  proof -
    let ?rest = "case result of Dialled info s \<Rightarrow> snd (handshakes wire info s name alpn timeout) | _ \<Rightarrow> []"
    obtain rest where rest: "tr = d @ rest" "rest \<in> schedules ?rest" using d(2) by auto
    have "closed_later b rest"
    proof (rule closed_later_schedules [OF rest(2)])
      show "\<forall>ph \<in> set ?rest. \<forall>t \<in> set ph. closed_later b t"
      proof (cases result)
        case (Dialled info s)
        with handshakes_traces [of wire info s name alpn timeout b] assms(2) show ?thesis by simp
      qed simp_all
    qed
    moreover have "CloseSock s \<in> set rest" if "result = Dialled info s" for info s
      using set_schedules [OF rest(2)] that handshakes_traces [of wire info s name alpn timeout] by fastforce
    ultimately show ?thesis unfolding rest(1) by (rule dial_trace [OF d(1)])
  qed
  note dialled = this
  show ?thesis
    using probe_phases [of nonascii wire host p timeout sni alpn]
  proof
    assume "snd (probe nonascii wire host p timeout sni alpn) = []"
    with assms(1) show ?thesis by simp
  next
    assume "\<exists>infos name. snd (probe nonascii wire host p timeout sni alpn) =
      [snd (dial wire timeout 0 infos ''no addresses'')]
      # (case fst (dial wire timeout 0 infos ''no addresses'') of
           Dialled info s \<Rightarrow> snd (handshakes wire info s name alpn timeout) | _ \<Rightarrow> [])"
    with assms(1) dialled [OF surjective_pairing] show ?thesis by metis
  qed
qed

text \<open>
  C12: however the concurrent handshakes interleave, whatever fails, and also when tasks are
  cancelled before they run or end by a time-out, every socket and every native connection that a
  probe opens is closed afterwards. So is every handle that is duplicated for the core, provided
  the timeout converts to milliseconds; with one that does not (infinity, or NaN), no duplicate is
  ever closed.
\<close>

theorem probe_closes_sockets:
  assumes "tr \<in> schedules (snd (probe nonascii wire host p timeout sni alpn))"
  shows "closed_later (\<exists>ms. timeout_to_ms (w_mul wire) (Some timeout) = Inr ms) tr
    \<and> ((\<nexists>ms. timeout_to_ms (w_mul wire) (Some timeout) = Inr ms) \<longrightarrow> (\<forall>s. CloseHandle s \<notin> set tr))"
proof -
  have "converts wire timeout" if h: "CloseHandle h \<in> set tr" for h
  proof -
    from h set_schedules [OF assms] obtain ph t where t: "ph \<in> set (snd (probe nonascii wire host p timeout sni alpn))"
      "t \<in> set ph" "CloseHandle h \<in> set t" by auto
    from t(1) probe_phases [of nonascii wire host p timeout sni alpn] obtain infos name where
      p: "ph \<in> set ([snd (dial wire timeout 0 infos ''no addresses'')]
        # (case fst (dial wire timeout 0 infos ''no addresses'') of
             Dialled info s \<Rightarrow> snd (handshakes wire info s name alpn timeout) | _ \<Rightarrow> []))"
      by fastforce
    have "ph \<noteq> [snd (dial wire timeout 0 infos ''no addresses'')]" using t(2,3) dial_no_handles by fastforce
    with p obtain info s where "ph \<in> set (snd (handshakes wire info s name alpn timeout))"
      by (cases "fst (dial wire timeout 0 infos ''no addresses'')") auto
    with t(2,3) handshakes_traces [of wire info s name alpn timeout False h] show ?thesis by blast
  qed
  with probe_trace_closed [OF assms] show ?thesis by blast
qed

section \<open>The properties at concrete probes\<close>

definition demo_fault :: "fault_kind \<Rightarrow> fault" where
  "demo_fault k = \<lparr>f_kind = k, f_type = ''Error'', f_text = ''broken'', f_errno = None, f_alert = None, f_alert_remote = False\<rparr>"

text \<open>A host with two addresses, of which the first refuses, that drops post-quantum hellos.\<close>

definition demo_wire :: "latin wire" where
  "demo_wire = \<lparr>w_supports_pq = True, w_addresses = \<lambda>host p. Inr [''10.0.0.1'', ''10.0.0.2''], w_address = \<lambda>i. i,
     w_socket = \<lambda>s i. None, w_connect = \<lambda>s i t. if i = ''10.0.0.1'' then Some (demo_fault ConnRefused) else None,
     w_guard = \<lambda>s. None,
     w_core = \<lambda>s. \<lparr>dup_handle = \<lambda>u hs. Inr 7,
       handshake = \<lambda>h name cfg ca ms exts. if c_groups cfg = [PQ_GROUP] then Inl (demo_fault ConnReset) else Inr 0\<rparr>,
     w_negotiated = \<lambda>s cfg. \<lparr>neg_version = ''1.3'', neg_cipher = [], neg_group = group_name (last (c_groups cfg)),
       neg_group_code = 0, neg_alpn = [], neg_sni = [], neg_peer_cert = []\<rparr>,
     w_mul = demo_mul, w_ca = [],
     w_started = \<lambda>s. None, w_elapsed = \<lambda>stage s. Fin 1\<rparr>"

abbreviation demo_probe :: "latin wire \<Rightarrow> (fault + probe_result) \<times> phases" where
  "demo_probe wire \<equiv> probe (\<lambda>_. None) wire ''h.example'' 443 (Fin 5) None PROBE_ALPN"

lemma demo_blocked: "case fst (demo_probe demo_wire) of Inl e \<Rightarrow> False | Inr r \<Rightarrow> pr_verdict r = PQ_BLOCKED"
  by code_simp

lemma probe_result_ok_witness:
  "case fst (demo_probe demo_wire) of Inl e \<Rightarrow> False | Inr r \<Rightarrow> result_ok r \<and> pr_attempts r \<noteq> []"
proof (cases "fst (demo_probe demo_wire)")
  case (Inl e)
  with demo_blocked show ?thesis by simp
next
  case (Inr r)
  from probe_result_ok [OF Inr] have "result_ok r" by simp
  with Inr demo_blocked show ?thesis by (auto simp: result_ok_def)
qed

lemma pq_blocked_twice_witness:
  "\<exists>first. fst (handshake_fresh demo_wire (Task 0 1) ''10.0.0.2'' ''h.example'' PROBE_ALPN [PQ_GROUP] (Fin 5)) = Inr first
    \<and> a_outcome first \<noteq> ACCEPTED"
proof (cases "fst (demo_probe demo_wire)")
  case (Inl e)
  with demo_blocked show ?thesis by simp
next
  case (Inr r)
  with demo_blocked have "pr_verdict r = PQ_BLOCKED" by simp
  from pq_blocked_twice [OF Inr this] obtain i name first where r: "pr_address r = Some (w_address demo_wire i)"
    "fst (handshake_fresh demo_wire (Task 0 1) i name PROBE_ALPN [PQ_GROUP] (Fin 5)) = Inr first" "a_outcome first \<noteq> ACCEPTED"
    by blast
  have "case fst (demo_probe demo_wire) of Inl e \<Rightarrow> False | Inr r \<Rightarrow> pr_address r = Some ''10.0.0.2''" by code_simp
  with Inr r(1) have "i = ''10.0.0.2''" by (simp add: demo_wire_def)
  moreover have "handshake_fresh demo_wire s i name alpn groups t = handshake_fresh demo_wire s i ''h.example'' alpn groups t"
    for s alpn groups t
  proof -
    have "submit_wrap mul ca (w_core demo_wire s) name cfg h exts hs = submit_wrap mul ca (w_core demo_wire s) ''h.example'' cfg h exts hs"
      for s mul ca cfg h exts hs by (simp add: submit_wrap_def demo_wire_def split: sum.split)
    then have "handshake_traced demo_wire s name cfg = handshake_traced demo_wire s ''h.example'' cfg" for s cfg
      by (auto simp: handshake_traced_def split: sum.split prod.split)
    then have "handshake_on demo_wire s name alpn groups t = handshake_on demo_wire s ''h.example'' alpn groups t" for s
      by (cases "w_guard demo_wire s") (simp_all add: handshake_on_def)
    then show ?thesis by (simp add: handshake_fresh_def split: sum.split prod.split)
  qed
  ultimately show ?thesis using r(2,3) by metis
qed

lemma probe_contains_errors_witness:
  "fst (demo_probe (demo_wire\<lparr>w_addresses := \<lambda>host p. Inl (demo_fault OtherFailure)\<rparr>)) = Inl (demo_fault OtherFailure)
   \<and> \<not> os_or_timeout (demo_fault OtherFailure)"
proof -
  let ?wire = "demo_wire\<lparr>w_addresses := \<lambda>host p. Inl (demo_fault OtherFailure)\<rparr>"
  have "server_name (\<lambda>_. None) ''h.example'' = Some ''h.example''" by code_simp
  then have raises: "fst (demo_probe ?wire) = Inl (demo_fault OtherFailure)"
    by (simp add: probe_def demo_wire_def truthy_def os_or_timeout_def demo_fault_def)
  have "\<forall>s e. w_started ?wire s = Some e \<longrightarrow> \<not> os_or_timeout e" by (simp add: demo_wire_def)
  from probe_contains_errors [OF this raises] raises show ?thesis by simp
qed

text \<open>One possible order is one task after the other.\<close>

lemma concat_interleavings: "concat ts \<in> interleavings ts"
proof (induction ts)
  case (Cons t ts)
  have "t @ u \<in> shuffles t u" for u by (induction t) (auto intro: Cons_in_shuffles_leftI)
  with Cons show ?case by auto
qed simp

lemma concat_schedules: "concat (map concat phs) \<in> schedules phs"
  using concat_interleavings by (induction phs) auto

text \<open>The same host, probed with the timeout 5 and with an infinite one.\<close>

lemma probe_closes_sockets_witness:
  "closed_later True (concat (map concat (snd (demo_probe demo_wire))))
   \<and> DupHandle (Task 1 1) \<in> set (concat (map concat (snd (demo_probe demo_wire))))
   \<and> (let tr = concat (map concat (snd (probe (\<lambda>_. None) demo_wire ''h.example'' 443 Inf None PROBE_ALPN))) in
       DupHandle (Task 0 1) \<in> set tr \<and> (\<forall>s. CloseHandle s \<notin> set tr))"
proof (intro conjI)
  have "timeout_to_ms (w_mul demo_wire) (Some (Fin 5)) = Inr 5000" by (simp add: timeout_to_ms_def demo_wire_def demo_mul_def)
  with probe_closes_sockets [OF concat_schedules, where nonascii = "\<lambda>_. None" and wire = demo_wire and host = "''h.example''" and p = 443
      and timeout = "Fin 5" and sni = None and alpn = PROBE_ALPN]
  show "closed_later True (concat (map concat (snd (demo_probe demo_wire))))" by simp
  show "DupHandle (Task 1 1) \<in> set (concat (map concat (snd (demo_probe demo_wire))))" by code_simp
  have "timeout_to_ms (w_mul demo_wire) (Some Inf) = Inl OverflowError" by (simp add: timeout_to_ms_def demo_wire_def)
  with probe_closes_sockets [OF concat_schedules, where nonascii = "\<lambda>_. None" and wire = demo_wire and host = "''h.example''" and p = 443
      and timeout = Inf and sni = None and alpn = PROBE_ALPN]
  have "\<forall>s. CloseHandle s \<notin> set (concat (map concat (snd (probe (\<lambda>_. None) demo_wire ''h.example'' 443 Inf None PROBE_ALPN))))"
    by simp
  moreover have "DupHandle (Task 0 1) \<in> set (concat (map concat (snd (probe (\<lambda>_. None) demo_wire ''h.example'' 443 Inf None PROBE_ALPN))))"
    by code_simp
  ultimately show "let tr = concat (map concat (snd (probe (\<lambda>_. None) demo_wire ''h.example'' 443 Inf None PROBE_ALPN))) in
       DupHandle (Task 0 1) \<in> set tr \<and> (\<forall>s. CloseHandle s \<notin> set tr)" by simp
qed

end
