(* ===== verification/Core_Conn.thy ===== *)
theory Core_Conn
  imports Ssl_Context Probe
begin

text \<open>
  The connection object of the native core, class \<open>TlsConnection\<close> of \<open>_core.cpp\<close>, and the Python
  exceptions it builds. Everything happens on one event loop, so a connection is a state and a
  sequence of events: calls from Python, in the order the loop runs them, and callbacks of Fizz
  and of the timer, which are other people's code. Promises are numbers; the answers of a step
  are the callbacks that it makes.
\<close>

section \<open>State and answers\<close>

record core_conn =
  cc_client :: bool
  cc_reading :: bool
  cc_buffer :: "bytes list"
  cc_pending :: "nat option"
  cc_timer :: bool
  cc_eof :: bool
  cc_err :: "latin option"

text \<open>The members as they are initialised, and after a handshake has installed the read callback.\<close>

definition core_init :: core_conn where
  "core_init = \<lparr>cc_client = False, cc_reading = False, cc_buffer = [], cc_pending = None, cc_timer = False,
     cc_eof = False, cc_err = None\<rparr>"

definition core_established :: "core_conn \<Rightarrow> core_conn" where
  "core_established c = c\<lparr>cc_client := True, cc_reading := True\<rparr>"

text \<open>\<open>makeError\<close> and \<open>makeTimeoutError\<close>.\<close>

datatype core_error = ConnectionError latin | SocketTimeout latin

datatype core_answer = Resolved bytes | Done | Rejected core_error

type_synonym answers = "(nat \<times> core_answer) list"

section \<open>Operations and callbacks\<close>

text \<open>\<open>takePendingRead\<close>: the parked promise leaves, and its deadline with it.\<close>

definition take_pending :: "core_conn \<Rightarrow> core_conn" where
  "take_pending c = c\<lparr>cc_timer := False, cc_pending := None\<rparr>"

definition fulfill_read :: "nat \<Rightarrow> core_conn \<Rightarrow> core_conn \<times> answers" where
  "fulfill_read p c = (c\<lparr>cc_buffer := []\<rparr>, [(p, Resolved (concat (cc_buffer c)))])"

definition core_read :: "nat \<Rightarrow> nat \<Rightarrow> core_conn \<Rightarrow> core_conn \<times> answers" where
  "core_read timeout p c =
     (if cc_buffer c \<noteq> [] then fulfill_read p c
      else case cc_err c of
        Some msg \<Rightarrow> (c, [(p, Rejected (ConnectionError msg))])
      | None \<Rightarrow>
          if cc_eof c then (c, [(p, Resolved [])])
          else (c\<lparr>cc_pending := Some p, cc_timer := (cc_timer c \<or> 0 < timeout)\<rparr>, []))"

text \<open>
  \<open>write\<close>: without an open client it is refused at once, otherwise the transport will call back;
  \<open>good\<close> is what \<open>client_->good()\<close> says.
\<close>

definition core_write :: "bool \<Rightarrow> nat \<Rightarrow> core_conn \<Rightarrow> core_conn \<times> answers" where
  "core_write good p c =
     (if \<not> cc_client c \<or> \<not> good then (c, [(p, Rejected (ConnectionError ''connection not open''))]) else (c, []))"

definition write_success :: "nat \<Rightarrow> answers" where
  "write_success p = [(p, Done)]"

definition write_err :: "nat \<Rightarrow> bool \<Rightarrow> latin \<Rightarrow> answers" where
  "write_err p timed_out msg =
     [(p, Rejected (if timed_out then SocketTimeout ''write timed out'' else ConnectionError (''write failed: '' @ msg)))]"

definition core_close :: "core_conn \<Rightarrow> core_conn" where
  "core_close c = (if cc_client c then c\<lparr>cc_reading := False\<rparr> else c)"

definition read_buffer_available :: "bytes option \<Rightarrow> core_conn \<Rightarrow> core_conn \<times> answers" where
  "read_buffer_available buf c =
     (let c = (case buf of None \<Rightarrow> c | Some b \<Rightarrow> c\<lparr>cc_buffer := cc_buffer c @ [b]\<rparr>) in
      case cc_pending c of None \<Rightarrow> (c, []) | Some p \<Rightarrow> fulfill_read p (take_pending c))"

definition read_eof :: "core_conn \<Rightarrow> core_conn \<times> answers" where
  "read_eof c =
     (let c = c\<lparr>cc_eof := True\<rparr> in
      case cc_pending c of None \<Rightarrow> (c, []) | Some p \<Rightarrow> (take_pending c, [(p, Resolved [])]))"

definition read_err :: "latin \<Rightarrow> core_conn \<Rightarrow> core_conn \<times> answers" where
  "read_err what c =
     (let msg = ''read error: '' @ what; c = c\<lparr>cc_err := Some msg\<rparr> in
      case cc_pending c of None \<Rightarrow> (c, []) | Some p \<Rightarrow> (take_pending c, [(p, Rejected (ConnectionError msg))]))"

text \<open>The timer is disarmed when it fires; without a parked read the callback returns at once.\<close>

definition on_read_timeout :: "core_conn \<Rightarrow> core_conn \<times> answers" where
  "on_read_timeout c =
     (let c = c\<lparr>cc_timer := False\<rparr> in
      case cc_pending c of
        None \<Rightarrow> (c, [])
      | Some p \<Rightarrow> (c\<lparr>cc_pending := None\<rparr>, [(p, Rejected (SocketTimeout ''read timed out''))]))"

section \<open>The event loop\<close>

text \<open>
  The callbacks of the transport come only while the read callback is installed, the timer's only
  while it is armed.
\<close>

datatype core_event = ReadCall nat nat | DataIn "bytes option" | EofIn | ErrIn latin | TimerFires | CloseCall

fun core_step :: "core_event \<Rightarrow> core_conn \<Rightarrow> core_conn \<times> answers" where
  "core_step (ReadCall timeout p) c = core_read timeout p c"
| "core_step (DataIn buf) c = (if cc_reading c then read_buffer_available buf c else (c, []))"
| "core_step EofIn c = (if cc_reading c then read_eof c else (c, []))"
| "core_step (ErrIn what) c = (if cc_reading c then read_err what c else (c, []))"
| "core_step TimerFires c = (if cc_timer c then on_read_timeout c else (c, []))"
| "core_step CloseCall c = (core_close c, [])"

fun core_run :: "core_event list \<Rightarrow> core_conn \<Rightarrow> core_conn \<times> answers" where
  "core_run [] c = (c, [])"
| "core_run (e # es) c = (let (c, out) = core_step e c; (c, outs) = core_run es c in (c, out @ outs))"

lemma core_run_append:
  "core_run (xs @ ys) c = (let (c, out) = core_run xs c; (c, outs) = core_run ys c in (c, out @ outs))"
  by (induction xs arbitrary: c) (simp_all add: Let_def split: prod.splits)

section \<open>Exceptions of a handshake\<close>

text \<open>What Python sees of a failed handshake; \<open>t_ssl\<close>: an \<open>ssl.SSLError\<close>, else a \<open>ConnectionError\<close>.\<close>

record tls_error =
  t_ssl :: bool
  t_cert :: bool
  t_text :: latin
  t_alert :: "latin option"
  t_remote :: bool

definition alert_char :: "char \<Rightarrow> bool" where
  "alert_char c \<longleftrightarrow> (let n = (of_char c :: nat) in 97 \<le> n \<and> n \<le> 122 \<or> n = 95)"

definition received_alert_name :: "latin \<Rightarrow> latin" where
  "received_alert_name msg =
     (case find_sub ''received alert: '' msg of
        None \<Rightarrow> []
      | Some i \<Rightarrow> takeWhile alert_char (drop (i + length ''received alert: '') msg))"

definition make_tls_error :: "latin \<Rightarrow> bool \<Rightarrow> latin \<Rightarrow> tls_error" where
  "make_tls_error msg cert_error alert_name =
     (let received = received_alert_name msg; remote = (received \<noteq> []);
          alert = (if remote then received else alert_name) in
      \<lparr>t_ssl = True, t_cert = cert_error, t_text = (if cert_error then msg else ''handshake failed: '' @ msg),
       t_alert = (if alert \<noteq> [] then Some alert else None), t_remote = (alert \<noteq> [] \<and> remote)\<rparr>)"

text \<open>\<open>msg.rfind(pat)\<close>, from which on \<open>tlsErrorFromAsyncSocket\<close> drops the text.\<close>

definition cut_last :: "latin \<Rightarrow> latin \<Rightarrow> latin" where
  "cut_last pat msg =
     (case find_sub (rev pat) (rev msg) of
        None \<Rightarrow> msg
      | Some i \<Rightarrow> take (length msg - i - length pat) msg)"

definition tls_error_from_async_socket :: "latin \<Rightarrow> bool \<Rightarrow> tls_error" where
  "tls_error_from_async_socket what ssl_error =
     (let msg = cut_last '', type = '' (removeprefix ''AsyncSocketException: '' what) in
      if \<not> ssl_error
      then \<lparr>t_ssl = False, t_cert = False, t_text = ''connect failed: '' @ msg, t_alert = None, t_remote = False\<rparr>
      else make_tls_error msg (contains ''certificate'' msg \<or> contains ''does not match hostname'' msg) [])"

text \<open>
  The same exceptions as the probe and the context see them; those of \<open>ssl\<close> are made with a code,
  which Python takes for the \<open>errno\<close>.
\<close>

definition SSL_ERROR_SSL :: int where
  "SSL_ERROR_SSL = 1"

definition as_fault :: "tls_error \<Rightarrow> fault" where
  "as_fault e = \<lparr>f_kind = OsFailure, f_type = (if t_cert e then ''SSLCertVerificationError'' else if t_ssl e then ''SSLError'' else ''ConnectionError''),
     f_text = t_text e, f_errno = (if t_ssl e then Some SSL_ERROR_SSL else None), f_alert = t_alert e, f_alert_remote = t_remote e\<rparr>"

definition as_ssl_fault :: "tls_error \<Rightarrow> ssl_fault" where
  "as_ssl_fault e = \<lparr>e_is_ssl = t_ssl e, e_is_cert = t_cert e, e_alert = t_alert e, e_text = t_text e\<rparr>"

lemma received_alert_name_reads_back:
  assumes "list_all alert_char name" "rest = [] \<or> \<not> alert_char (hd rest)"
  shows "received_alert_name (''received alert: '' @ name @ rest) = name"
proof -
  have "find_sub ''received alert: '' (''received alert: '' @ name @ rest) = Some 0"
    by (rule find_sub_prefix) (rule prefixI, rule refl)
  moreover have "takeWhile alert_char (name @ rest) = name"
    using assms by (cases rest) (auto simp: takeWhile_append list_all_iff takeWhile_eq_all_conv)
  ultimately show ?thesis by (simp add: received_alert_name_def)
qed

text \<open>
  On the connecting path a failure is taken for one of verification when its text contains
  \<open>certificate\<close>; an alert in which the peer asks for a certificate of ours does, too.
\<close>

lemma certificate_alert_misread:
  "t_cert (tls_error_from_async_socket
     ''AsyncSocketException: received alert: certificate_required, in state ExpectingFinished, type = SSL error'' True)"
  by code_simp

section \<open>What the loop keeps\<close>

text \<open>
  No lost wake-up and no stale deadline: a read is parked only while there is nothing to give it,
  and the timer is armed only for a parked read.
\<close>

definition core_inv :: "core_conn \<Rightarrow> bool" where
  "core_inv c \<longleftrightarrow>
     (cc_pending c \<noteq> None \<longrightarrow> cc_buffer c = [] \<and> \<not> cc_eof c \<and> cc_err c = None)
     \<and> (cc_timer c \<longrightarrow> cc_pending c \<noteq> None)"

text \<open>At most one read is outstanding, as the callers promise.\<close>

fun one_read_at_a_time :: "core_event list \<Rightarrow> core_conn \<Rightarrow> bool" where
  "one_read_at_a_time [] c = True"
| "one_read_at_a_time (e # es) c =
     ((case e of ReadCall timeout p \<Rightarrow> cc_pending c = None | _ \<Rightarrow> True) \<and> one_read_at_a_time es (fst (core_step e c)))"

text \<open>The bytes that Fizz delivers, the bytes that answers carry, the reads called and open.\<close>

fun delivered :: "core_event list \<Rightarrow> core_conn \<Rightarrow> bytes" where
  "delivered [] c = []"
| "delivered (e # es) c =
     (case e of DataIn (Some b) \<Rightarrow> if cc_reading c then b else [] | _ \<Rightarrow> []) @ delivered es (fst (core_step e c))"

fun answer_bytes :: "core_answer \<Rightarrow> bytes" where
  "answer_bytes (Resolved b) = b"
| "answer_bytes _ = []"

fun read_calls :: "core_event \<Rightarrow> nat list" where
  "read_calls (ReadCall timeout p) = [p]"
| "read_calls _ = []"

definition parked :: "core_conn \<Rightarrow> nat list" where
  "parked c = (case cc_pending c of None \<Rightarrow> [] | Some p \<Rightarrow> [p])"

lemmas core_defs = core_read_def read_buffer_available_def read_eof_def read_err_def on_read_timeout_def
  core_close_def fulfill_read_def take_pending_def parked_def

lemma core_step_keeps:
  assumes "core_inv c" "case e of ReadCall timeout p \<Rightarrow> cc_pending c = None | _ \<Rightarrow> True" "core_step e c = (c', outs)"
  shows "core_inv c'"
    and "concat (map (answer_bytes \<circ> snd) outs) @ concat (cc_buffer c')
      = concat (cc_buffer c) @ (case e of DataIn (Some b) \<Rightarrow> if cc_reading c then b else [] | _ \<Rightarrow> [])"
    and "map fst outs @ parked c' = parked c @ read_calls e"
  using assms
  by (cases e; auto simp: core_inv_def core_defs Let_def split: option.splits if_splits)+

lemma core_run_keeps:
  assumes "core_inv c" "one_read_at_a_time es c" "core_run es c = (c', outs)"
  shows "core_inv c'
    \<and> concat (map (answer_bytes \<circ> snd) outs) @ concat (cc_buffer c') = concat (cc_buffer c) @ delivered es c
    \<and> map fst outs @ parked c' = parked c @ concat (map read_calls es)"
  using assms
proof (induction es arbitrary: c outs)
  case (Cons e es)
  obtain c1 o1 where one: "core_step e c = (c1, o1)" by fastforce
  obtain o2 where rest: "core_run es c1 = (c', o2)" "outs = o1 @ o2"
    using Cons.prems(3) one by (auto split: prod.splits)
  have e: "case e of ReadCall timeout p \<Rightarrow> cc_pending c = None | _ \<Rightarrow> True" "one_read_at_a_time es c1"
    using Cons.prems(2) one by simp_all
  note k = core_step_keeps [OF Cons.prems(1) e(1) one]
  note ih = Cons.IH [OF k(1) e(2) rest(1)]
  have bytes: "concat (map (answer_bytes \<circ> snd) o1) @ concat (cc_buffer c1) @ z
      = concat (cc_buffer c) @ (case e of DataIn (Some b) \<Rightarrow> if cc_reading c then b else [] | _ \<Rightarrow> []) @ z" for z
    using arg_cong [OF k(2), of "\<lambda>x. x @ z"] by (simp only: append.assoc)
  have calls: "map fst o1 @ parked c1 @ z = parked c @ read_calls e @ z" for z
    using arg_cong [OF k(3), of "\<lambda>x. x @ z"] by (simp only: append.assoc)
  show ?case
    using ih by (simp only: rest(2) one delivered.simps map_append concat_append concat.simps list.map fst_conv
        append.assoc bytes calls simp_thms)
qed simp

lemma established_inv: "core_inv (core_established core_init)"
  by (simp add: core_inv_def core_established_def core_init_def)

section \<open>The connection as the net of the Python layer\<close>

text \<open>
  The callers block, one call at a time, but the loop does not wait for them: between two calls it
  handles any number of events. A world has the connection, the events to come, and for each call
  how many of them the loop handles before the call reaches it (\<open>runInEventBaseThread\<close>). A blocking
  read then waits for its answer while the loop goes on; \<open>NeverAnswered\<close> is a call that does not
  return. This \<open>net\<close> is one connection that is open and is read and closed; \<open>Core_Client\<close> has the
  connecting and the writing, too.
\<close>

datatype core_failure = Failed core_error | NeverAnswered

type_synonym core_world = "core_conn \<times> core_event list \<times> nat list"

definition until_call :: "core_world \<Rightarrow> core_world" where
  "until_call w =
     (case w of (c, es, early) \<Rightarrow>
        (let n = (case early of [] \<Rightarrow> 0 | n # _ \<Rightarrow> n) in (fst (core_run (take n es) c), drop n es, tl early)))"

fun await :: "core_event list \<Rightarrow> core_conn \<Rightarrow> core_answer option \<times> core_conn \<times> core_event list" where
  "await [] c = (None, c, [])"
| "await (e # es) c =
     (case core_step e c of
        (c, []) \<Rightarrow> await es c
      | (c, (p, a) # later) \<Rightarrow> (Some a, c, es))"

fun answer_result :: "core_answer \<Rightarrow> core_failure + bytes" where
  "answer_result (Resolved b) = Inr b"
| "answer_result Done = Inr []"
| "answer_result (Rejected e) = Inl (Failed e)"

definition blocking_read :: "int \<Rightarrow> core_world \<Rightarrow> (core_failure + bytes) \<times> core_world" where
  "blocking_read ms w =
     (case until_call w of (c, es, early) \<Rightarrow>
        (case await (ReadCall (nat ms) 0 # es) c of
           (Some a, c, es) \<Rightarrow> (answer_result a, (c, es, early))
         | (None, c, es) \<Rightarrow> (Inl NeverAnswered, (c, es, early))))"

definition blocking_close :: "core_world \<Rightarrow> core_world" where
  "blocking_close w = (case until_call w of (c, es, early) \<Rightarrow> (core_close c, es, early))"

definition core_net :: "negotiated \<Rightarrow> (core_failure, core_world) net" where
  "core_net neg = \<lparr>n_connect = \<lambda>cfg t w. (Inr 0, w), n_write = \<lambda>ms k raw w. (Inr (), until_call w),
     n_read = \<lambda>ms k w. blocking_read ms w, n_close = \<lambda>k. blocking_close, n_negotiated = \<lambda>k w. neg\<rparr>"

text \<open>The connection with no read parked, these chunks in its buffer, and maybe at the end.\<close>

definition idle_core :: "bytes list \<Rightarrow> bool \<Rightarrow> core_conn" where
  "idle_core bufs e = (core_established core_init)\<lparr>cc_buffer := bufs, cc_eof := e\<rparr>"

lemmas idle_core_defs = idle_core_def core_established_def core_init_def

definition data_in :: "bytes list \<Rightarrow> core_event list" where
  "data_in bs = map (DataIn \<circ> Some) bs"

lemma data_in_simps [simp]: "data_in [] = []" "data_in (b # bs) = DataIn (Some b) # data_in bs"
  by (simp_all add: data_in_def)

lemma established_idle: "core_established core_init = idle_core [] False"
  by (simp add: idle_core_defs)

lemma idle_takes_data: "core_step (DataIn (Some b)) (idle_core bufs e) = (idle_core (bufs @ [b]) e, [])"
  by (simp add: idle_core_defs core_defs)

lemma run_data: "core_run (data_in bs) (idle_core bufs e) = (idle_core (bufs @ bs) e, [])"
  by (induction bs arbitrary: bufs) (simp_all add: idle_takes_data del: core_step.simps)

lemma read_idle:
  "bufs \<noteq> [] \<Longrightarrow> await (ReadCall ms p # es) (idle_core bufs e) = (Some (Resolved (concat bufs)), idle_core [] e, es)"
  "await (ReadCall ms p # es) (idle_core [] True) = (Some (Resolved []), idle_core [] True, es)"
  "await (ReadCall ms p # DataIn (Some b) # es) (idle_core [] False) = (Some (Resolved b), idle_core [] False, es)"
  "await (ReadCall ms p # EofIn # es) (idle_core [] False) = (Some (Resolved []), idle_core [] True, es)"
  by (simp_all add: idle_core_defs core_defs)

text \<open>
  What the loop handles before a call of a stream that ends: the data that it takes are in the
  buffer, and the end is noted once it is reached.
\<close>

lemma stream_until_call:
  "until_call (idle_core bufs False, data_in bs @ [EofIn], early)
    = (let n = (case early of [] \<Rightarrow> 0 | n # _ \<Rightarrow> n) in
       if n \<le> length bs then (idle_core (bufs @ take n bs) False, data_in (drop n bs) @ [EofIn], tl early)
       else (idle_core (bufs @ bs) True, [], tl early))"
proof -
  have eof: "core_run [EofIn] (idle_core b False) = (idle_core b True, [])" for b
    by (simp add: idle_core_defs core_defs)
  have "take n (data_in bs @ [EofIn]) = (if n \<le> length bs then data_in (take n bs) else data_in bs @ [EofIn])"
    "drop n (data_in bs @ [EofIn]) = (if n \<le> length bs then data_in (drop n bs) @ [EofIn] else [])" for n
    by (simp_all add: data_in_def take_map drop_map)
  then show ?thesis
    by (simp add: until_call_def Let_def core_run_append run_data eof split: list.split del: take_append drop_append core_run.simps)
qed

lemma until_call_none: "(case early of [] \<Rightarrow> 0 | n # _ \<Rightarrow> n) = 0 \<Longrightarrow> until_call (c, es, early) = (c, es, tl early)"
  by (cases early) (simp_all add: until_call_def)

lemma ended_until_call: "until_call (idle_core bufs True, [], early) = (idle_core bufs True, [], tl early)"
  by (simp add: until_call_def)

lemma some_bytes: "[] \<notin> set xs \<Longrightarrow> xs \<noteq> [] \<Longrightarrow> concat xs \<noteq> []"
  by (cases xs) auto

lemma core_stream_ended:
  assumes "[] \<notin> set bufs"
  shows "core_stream (core_net neg) k (idle_core bufs True, [], early) (concat bufs)"
proof -
  have ended: "core_stream (core_net neg) k (idle_core [] True, [], early) []" for early
    by (rule stream_end [where w' = "(idle_core [] True, [], tl early)"])
      (simp add: core_net_def blocking_read_def ended_until_call read_idle del: await.simps)
  show ?thesis
  proof (cases "bufs = []")
    case False
    with ended some_bytes [OF assms] have "core_stream (core_net neg) k (idle_core bufs True, [], early) (concat bufs @ [])"
      by (intro stream_more [where w' = "(idle_core [] True, [], tl early)"])
        (simp_all add: core_net_def blocking_read_def ended_until_call read_idle del: await.simps concat_eq_Nil_conv)
    then show ?thesis by simp
  qed (simp add: ended)
qed

lemma core_net_stream:
  "[] \<notin> set bufs \<Longrightarrow> [] \<notin> set bs \<Longrightarrow>
    core_stream (core_net neg) k (idle_core bufs False, data_in bs @ [EofIn], early) (concat bufs @ concat bs)"
proof (induction "length (concat bufs @ concat bs)" arbitrary: bufs bs early rule: less_induct)
  case less
  let ?n = "case early of [] \<Rightarrow> 0 | n # _ \<Rightarrow> n"
  let ?w = "(idle_core bufs False, data_in bs @ [EofIn], early)"
  note read = core_net_def blocking_read_def stream_until_call stream_until_call [where bs = "[]", simplified] read_idle
  show ?case
  proof (cases "?n \<le> length bs")
    case False
    show ?thesis
    proof (cases "bufs @ bs = []")
      case True
      with False show ?thesis
        by simp (rule stream_end [where w' = "(idle_core [] True, [], tl early)"], simp add: read Let_def del: await.simps)
    next
      case some: False
      from False some have "n_read (core_net neg) ms k ?w = (Inr (concat (bufs @ bs)), (idle_core [] True, [], tl early))" for ms
        by (simp add: read Let_def del: await.simps append_is_Nil_conv concat_append)
      then have "core_stream (core_net neg) k ?w (concat (bufs @ bs) @ concat [])"
        by (rule stream_more) (use some less.prems some_bytes [of "bufs @ bs"] core_stream_ended [of "[]"] in auto)
      then show ?thesis by simp
    qed
  next
    case True
    show ?thesis
    proof (cases "bufs @ take ?n bs = []")
      case False
      let ?chunk = "concat (bufs @ take ?n bs)"
      have r: "n_read (core_net neg) ms k ?w = (Inr ?chunk, (idle_core [] False, data_in (drop ?n bs) @ [EofIn], tl early))" for ms
        using True False by (simp add: read Let_def del: await.simps append_is_Nil_conv concat_append)
      have split: "concat bs = concat (take ?n bs) @ concat (drop ?n bs)"
        by (simp flip: concat_append)
      have c: "?chunk \<noteq> []"
        using False less.prems by (intro some_bytes) (auto dest: in_set_takeD)
      have "core_stream (core_net neg) k (idle_core [] False, data_in (drop ?n bs) @ [EofIn], tl early) (concat [] @ concat (drop ?n bs))"
        by (rule less.hyps) (use less.prems c split in \<open>auto dest: in_set_dropD\<close>)
      from stream_more [of "core_net neg" k ?w, OF r c this] split show ?thesis by simp
    next
      case empty: True
      with True show ?thesis
      proof (cases bs)
        case Nil
        with empty show ?thesis
          by simp (rule stream_end [where w' = "(idle_core [] True, [], tl early)"],
              use True empty in \<open>simp add: read Let_def del: await.simps\<close>)
      next
        case (Cons b bs')
        with empty have n: "?n = 0" "bufs = []" by auto
        have r: "n_read (core_net neg) ms k ?w = (Inr b, (idle_core [] False, data_in bs' @ [EofIn], tl early))" for ms
          using n Cons by (simp add: core_net_def blocking_read_def until_call_none read_idle del: await.simps)
        have "core_stream (core_net neg) k (idle_core [] False, data_in bs' @ [EofIn], tl early) (concat [] @ concat bs')"
          by (rule less.hyps) (use less.prems Cons in auto)
        from stream_more [of "core_net neg" k ?w, OF r _ this] less.prems Cons n(2) show ?thesis by auto
      qed
    qed
  qed
qed

section \<open>Properties\<close>

text \<open>
  C3: with one read outstanding at a time, whatever the network and the timer do and in whatever
  order, the connection loses and repeats nothing: the answers carry the delivered bytes in
  order, and what they do not carry is still buffered; the reads are answered once each, in the
  order of the calls, except for the one that is parked; no read is parked while there are bytes,
  an end or an error to report, and no deadline is armed for a read that was answered.
\<close>

theorem core_serves_reads:
  assumes "one_read_at_a_time es (core_established core_init)"
    and "core_run es (core_established core_init) = (c, outs)"
  shows "concat (map (answer_bytes \<circ> snd) outs) @ concat (cc_buffer c) = delivered es (core_established core_init)
    \<and> map fst outs @ parked c = concat (map read_calls es) \<and> core_inv c"
  using core_run_keeps [OF established_inv assms] by (simp add: core_established_def core_init_def parked_def)

text \<open>
  C6: the socket of the Python layer over the connection of the core: when Fizz delivers \<open>bs\<close> and
  then the end, however much of it arrives while no read is waiting, reading with any positive sizes
  gives the bytes in order, and with as many reads as there are bytes all of them.
\<close>

theorem socket_over_core:
  assumes "[] \<notin> set bs" "timeout_to_ms mul timeout = Inr ms" "\<forall>n \<in> set ns. 0 < n"
  shows "\<exists>out k' w'. recv_all mul (core_net neg) ns (new_socket conn name timeout fd)
      (core_established core_init, data_in bs @ [EofIn], early) = (Inr out, k', w')
    \<and> prefix out (concat bs) \<and> (length (concat bs) \<le> length ns \<longrightarrow> out = concat bs)"
proof -
  let ?w = "(core_established core_init, data_in bs @ [EofIn], early)"
  have "delivers_stream (core_net neg) (new_socket conn name timeout fd) ?w (concat bs)"
    using core_net_stream [of "[]" bs neg conn early] assms(1)
    by (simp add: delivers_stream_def new_socket_def established_idle)
  from recv_all_stream [OF this _ assms(3), of mul ms] assms(2) show ?thesis
    by (fastforce simp: new_socket_def)
qed

lemma await_None: "snd (core_run es c) = [] \<Longrightarrow> fst (await es c) = None"
proof (induction es arbitrary: c)
  case (Cons e es)
  obtain c1 o1 where one: "core_step e c = (c1, o1)" by fastforce
  with Cons.prems have "o1 = []" "snd (core_run es c1) = []" by (auto split: prod.splits)
  with Cons.IH one show ?case by simp
qed simp

lemma closed_is_quiet:
  assumes "concat (map read_calls es) = []" "\<not> cc_reading d" "\<not> cc_timer d"
  shows "core_run es d = (d, [])"
  using assms
proof (induction es)
  case (Cons e es)
  have "core_step e d = (d, [])" using Cons.prems by (cases e) (auto simp: core_close_def)
  with Cons show ?case by simp
qed simp

lemma closed_answers_nobody:
  assumes "cc_client c" "cc_buffer c = []" "\<not> cc_eof c" "cc_err c = None" "\<not> cc_timer c"
    and "concat (map read_calls es) = []"
  shows "snd (core_run (CloseCall # (if cc_pending c = None then [ReadCall 0 p] else []) @ es) c) = []"
proof -
  note quiet = closed_is_quiet [OF assms(6)]
  have closed: "\<not> cc_reading (core_close c)" "\<not> cc_timer (core_close c)" "cc_pending (core_close c) = cc_pending c"
    "cc_buffer (core_close c) = []" "\<not> cc_eof (core_close c)" "cc_err (core_close c) = None"
    using assms by (simp_all add: core_close_def)
  show ?thesis
  proof (cases "cc_pending c")
    case None
    let ?d = "(core_close c)\<lparr>cc_pending := Some p, cc_timer := False\<rparr>"
    have "core_read 0 p (core_close c) = (?d, [])"
      using closed by (simp add: core_read_def)
    then show ?thesis using quiet [of ?d] closed None by (auto split: prod.splits)
  next
    case (Some q)
    then show ?thesis using quiet [of "core_close c"] closed by (auto split: prod.splits)
  qed
qed

text \<open>
  C35: closing answers nobody: a read without a deadline that is parked when the connection is
  closed, or called afterwards, is never answered, whatever the network and the timer do later,
  before the read or after it; so \<open>recv\<close> without a timeout on a closed socket does not return.
\<close>

theorem read_hangs_after_close:
  assumes "cc_client c" "cc_buffer c = []" "\<not> cc_eof c" "cc_err c = None" "\<not> cc_timer c"
    and "concat (map read_calls es) = []"
  shows "snd (core_run (CloseCall # (if cc_pending c = None then [ReadCall 0 p] else []) @ es) c) = []
    \<and> (cc_pending c = None \<longrightarrow> (let (k, w) = socket_close (core_net neg) (new_socket conn name None fd) (c, es, 0 # early) in
         fst (recv mul (core_net neg) n k w) = Inl (CoreRaised NeverAnswered)))"
proof -
  note hang = closed_answers_nobody [OF assms]
  have "fst (recv mul (core_net neg) n k w) = Inl (CoreRaised NeverAnswered)"
    if "cc_pending c = None" "socket_close (core_net neg) (new_socket conn name None fd) (c, es, 0 # early) = (k, w)" for k w
  proof -
    let ?m = "case early of [] \<Rightarrow> 0 | m # _ \<Rightarrow> m"
    have w: "w = (core_close c, es, early)" "k_rbuf k = []" "\<not> k_eof k" "k_timeout k = None"
      using that(2) by (auto simp: socket_close_def new_socket_def core_net_def blocking_close_def until_call_def)
    have es: "concat (map read_calls (take ?m es)) = []" "concat (map read_calls (drop ?m es)) = []"
      using assms(6) by (auto dest: in_set_takeD in_set_dropD)
    have "core_run (take ?m es) (core_close c) = (core_close c, [])"
      using assms(1,5) by (intro closed_is_quiet [OF es(1)]) (simp_all add: core_close_def)
    then have u: "until_call w = (core_close c, drop ?m es, tl early)" by (simp add: w(1) until_call_def Let_def)
    have "snd (core_run (ReadCall 0 0 # drop ?m es) (core_close c)) = []"
      using closed_answers_nobody [OF assms(1-5) es(2), of 0] that(1) by (auto split: prod.splits)
    then have "fst (await (ReadCall 0 0 # drop ?m es) (core_close c)) = None" by (rule await_None)
    then have "fst (blocking_read 0 w) = Inl NeverAnswered"
      by (cases "await (ReadCall 0 0 # drop ?m es) (core_close c)") (simp add: blocking_read_def u del: await.simps)
    then show ?thesis
      using w(2-4) by (cases "blocking_read 0 w") (simp add: recv_def core_net_def timeout_to_ms_def)
  qed
  with hang [of p] show ?thesis by auto
qed

text \<open>
  C36: an alert of the server arrives where decisions are made: the core lifts its name out of the
  message of Fizz, the probe records a rejection with that alert, and the context falls back
  exactly when it is \<open>protocol_version\<close>. An alert that this side raised is never a rejection.
\<close>

theorem alert_reaches_decisions:
  assumes "list_all alert_char name" "name \<noteq> []" "received_alert_name msg = []" "alert \<noteq> []"
  shows "(let e = make_tls_error (''received alert: '' @ name @ '', in state '' @ st) False [] in
      classify (as_fault e) = (REJECTED, Some name, None)
      \<and> (is_protocol_version_failure (as_ssl_fault e) \<longleftrightarrow> name = ''protocol_version''))
    \<and> (let e = make_tls_error msg cert alert in
      fst (classify (as_fault e)) = FAILED
      \<and> (is_protocol_version_failure (as_ssl_fault e) \<longleftrightarrow> \<not> cert \<and> alert = ''protocol_version''))"
proof -
  have "received_alert_name (''received alert: '' @ name @ '', in state '' @ st) = name"
    by (rule received_alert_name_reads_back [OF assms(1)]) (simp add: alert_char_def)
  with assms(2-4) show ?thesis
    by (simp add: make_tls_error_def classify_def as_fault_def as_ssl_fault_def is_protocol_version_failure_def)
qed

section \<open>The properties at concrete connections\<close>

text \<open>Data before the first read, a read that times out, one that waits, and the end.\<close>

definition demo_events :: "core_event list" where
  "demo_events = [DataIn (Some ''he''), DataIn (Some ''l''), ReadCall 0 1, ReadCall 50 2, TimerFires, ReadCall 50 3,
     DataIn (Some ''lo''), TimerFires, EofIn, ReadCall 0 4]"

lemma core_serves_reads_witness:
  "snd (core_run demo_events (core_established core_init))
     = [(1, Resolved ''hel''), (2, Rejected (SocketTimeout ''read timed out'')), (3, Resolved ''lo''), (4, Resolved [])]
   \<and> core_inv (fst (core_run demo_events (core_established core_init)))"
proof
  show "snd (core_run demo_events (core_established core_init))
     = [(1, Resolved ''hel''), (2, Rejected (SocketTimeout ''read timed out'')), (3, Resolved ''lo''), (4, Resolved [])]"
    by code_simp
  have "one_read_at_a_time demo_events (core_established core_init)" by code_simp
  from core_serves_reads [OF this surjective_pairing] show "core_inv (fst (core_run demo_events (core_established core_init)))"
    by simp
qed

definition demo_neg :: negotiated where
  "demo_neg = \<lparr>neg_version = ''TLSv1.3'', neg_cipher = [], neg_group = ''x25519'', neg_group_code = 29, neg_alpn = [],
     neg_sni = ''h'', neg_peer_cert = []\<rparr>"

lemma socket_over_core_witness:
  "\<exists>k' w'. recv_all demo_mul (core_net demo_neg) [2, 2, 2, 2, 2] (new_socket 0 ''h'' None 9)
      (core_established core_init, data_in [''he'', ''l'', ''lo''] @ [EofIn], [2, 1]) = (Inr ''hello'', k', w')"
proof -
  have "timeout_to_ms demo_mul None = Inr 0" by (simp add: timeout_to_ms_def)
  from socket_over_core [where bs = "[''he'', ''l'', ''lo'']" and ns = "[2, 2, 2, 2, 2]" and early = "[2, 1]", OF _ this]
  show ?thesis by auto
qed

lemma read_hangs_after_close_witness:
  "snd (core_run [CloseCall, ReadCall 0 7, EofIn, TimerFires] (core_established core_init)) = []"
proof -
  have "concat (map read_calls [EofIn, TimerFires]) = []" by simp
  from read_hangs_after_close [where c = "core_established core_init" and p = 7, OF _ _ _ _ _ this]
  show ?thesis by (simp add: core_established_def core_init_def)
qed

lemma alert_reaches_decisions_witness:
  "classify (as_fault (make_tls_error ''received alert: handshake_failure, in state X'' False []))
     = (REJECTED, Some ''handshake_failure'', None)
   \<and> is_protocol_version_failure (as_ssl_fault (make_tls_error ''unsupported'' False ''protocol_version''))"
proof -
  have "list_all alert_char ''handshake_failure''" "received_alert_name ''unsupported'' = []" by code_simp+
  from alert_reaches_decisions [where alert = "''protocol_version''" and st = "''X''" and cert = False, OF this(1) _ this(2)]
  show ?thesis by (simp add: Let_def)
qed

end
