(* ===== verification/Core_Handshake.thy ===== *)
theory Core_Handshake
  imports Core_Conn
begin

text \<open>
  How a connection of the native core comes to be, in \<open>_core.cpp\<close>: the objects that a handshake
  is given, the check of the host name that Fizz leaves out, the adoption of a socket and its
  ownership until the connection is gone, and the callbacks of a handshake. What Fizz, folly and
  OpenSSL do arrives as arguments and events.
\<close>

section \<open>Checking the certificate\<close>

text \<open>
  Certificates of the peer: their DER encoding, OpenSSL's parser for it, and OpenSSL's two checks,
  which return 1 for a match.
\<close>

record ('c, 'x) cert_lib =
  cl_der :: "'c \<Rightarrow> bytes option"
  cl_d2i :: "bytes \<Rightarrow> 'x option"
  cl_check_host :: "'x \<Rightarrow> latin \<Rightarrow> int"
  cl_check_ip :: "'x \<Rightarrow> latin \<Rightarrow> int"

record fizz_error =
  fe_msg :: latin
  fe_alert :: latin

type_synonym 'c verifier = "'c list \<Rightarrow> fizz_error + unit"

definition c_str :: "latin \<Rightarrow> latin" where
  "c_str s = takeWhile (\<lambda>c. c \<noteq> CHR 0x00) s"

definition bad_certificate :: "latin \<Rightarrow> fizz_error + 'a" where
  "bad_certificate msg = Inl \<lparr>fe_msg = msg, fe_alert = ''bad_certificate''\<rparr>"

text \<open>\<open>HostnameVerifier::verify\<close>: the chain first, then the leaf against the host.\<close>

definition hostname_verify :: "('c, 'x) cert_lib \<Rightarrow> 'c verifier \<Rightarrow> latin \<Rightarrow> 'c verifier" where
  "hostname_verify lib chain host certs =
     (case chain certs of
        Inl e \<Rightarrow> Inl e
      | Inr _ \<Rightarrow>
          (case certs of
             [] \<Rightarrow> bad_certificate ''no peer certificate to match against hostname''
           | leaf # _ \<Rightarrow>
               (case cl_der lib leaf of
                  None \<Rightarrow> bad_certificate ''peer certificate has no DER encoding for hostname check''
                | Some der \<Rightarrow>
                    (case cl_d2i lib der of
                       None \<Rightarrow> bad_certificate ''could not parse peer certificate''
                     | Some x509 \<Rightarrow>
                         (let rc = cl_check_host lib x509 host;
                              rc = (if rc \<noteq> 1 \<and> cl_check_ip lib x509 (c_str host) = 1 then 1 else rc) in
                          if rc \<noteq> 1
                          then bad_certificate (''certificate does not match hostname '' @ CHR 0x27 # host @ [CHR 0x27])
                          else Inr ())))))"

section \<open>The objects of a connection\<close>

text \<open>What Python passes, in the order of the arguments of \<open>connect\<close> and \<open>wrap_fd\<close>.\<close>

record request =
  q_sni :: latin
  q_alpns :: "latin list"
  q_groups :: "nat list"
  q_verify :: bool
  q_ca_file :: latin
  q_timeout_ms :: nat
  q_extensions :: "(nat \<times> bytes) list"

datatype 'c check = AcceptAny | Hostname "'c verifier" latin

text \<open>\<open>None\<close>: the context keeps what Fizz sets by default.\<close>

record 'c fizz_setup =
  su_alpns :: "latin list option"
  su_groups :: "nat list option"
  su_shares :: "nat list option"
  su_verifier :: "'c check"
  su_extensions :: "(nat \<times> bytes) list option"

text \<open>The chain verifier for a CA file, for the system's roots when it is empty; \<open>None\<close> when Fizz fails.\<close>

definition build_setup :: "(latin \<Rightarrow> 'c verifier option) \<Rightarrow> request \<Rightarrow> latin + 'c fizz_setup" where
  "build_setup make_chain q =
     (let s = \<lparr>su_alpns = (if q_alpns q \<noteq> [] then Some (q_alpns q) else None),
               su_groups = (if q_groups q \<noteq> [] then Some (q_groups q) else None),
               su_shares = (if q_groups q \<noteq> [] then Some (q_groups q) else None),
               su_verifier = AcceptAny,
               su_extensions = (if q_extensions q \<noteq> [] then Some (q_extensions q) else None)\<rparr> in
      if q_verify q
      then (case make_chain (q_ca_file q) of
              None \<Rightarrow> Inl ''failed to build certificate verifier''
            | Some chain \<Rightarrow> Inr (s\<lparr>su_verifier := Hostname chain (q_sni q)\<rparr>))
      else Inr s)"

fun run_check :: "('c, 'x) cert_lib \<Rightarrow> 'c check \<Rightarrow> 'c verifier" where
  "run_check lib AcceptAny certs = Inr ()"
| "run_check lib (Hostname chain host) certs = hostname_verify lib chain host certs"

definition sni_or_none :: "latin \<Rightarrow> latin option" where
  "sni_or_none sni = (if sni = [] then None else Some sni)"

text \<open>\<open>PyClientExtensions\<close> appends to the extensions of every ClientHello.\<close>

definition client_hello_extensions :: "'c fizz_setup \<Rightarrow> (nat \<times> bytes) list \<Rightarrow> (nat \<times> bytes) list" where
  "client_hello_extensions s ret = (case su_extensions s of None \<Rightarrow> ret | Some exts \<Rightarrow> ret @ exts)"

text \<open>What the client of Fizz reports of a finished handshake, and \<open>captureNegotiated\<close>.\<close>

record client_state =
  cs_version :: "latin option"
  cs_cipher :: "latin option"
  cs_group :: "(latin \<times> nat) option"
  cs_alpn :: latin
  cs_sni :: "latin option"
  cs_peer_cert :: "latin option"

definition or_else :: "'a option \<Rightarrow> 'a \<Rightarrow> 'a" where
  "or_else x y = (case x of None \<Rightarrow> y | Some x \<Rightarrow> x)"

definition capture_negotiated :: "client_state \<Rightarrow> negotiated \<Rightarrow> negotiated" where
  "capture_negotiated s neg = neg\<lparr>
     neg_version := or_else (cs_version s) (neg_version neg),
     neg_cipher := or_else (cs_cipher s) (neg_cipher neg),
     neg_group := (case cs_group s of None \<Rightarrow> neg_group neg | Some (name, code) \<Rightarrow> name),
     neg_group_code := (case cs_group s of None \<Rightarrow> neg_group_code neg | Some (name, code) \<Rightarrow> code),
     neg_alpn := cs_alpn s,
     neg_sni := or_else (cs_sni s) (neg_sni neg),
     neg_peer_cert := or_else (cs_peer_cert s) (neg_peer_cert neg)\<rparr>"

section \<open>The connection with its socket\<close>

text \<open>
  The handle that the connection owns while it is open, the promise of the handshake while it is
  open, and the parameters negotiated, beside the state of reads.
\<close>

record 'c core_full =
  cf_conn :: core_conn
  cf_handle :: "int option"
  cf_promise :: bool
  cf_setup :: "'c fizz_setup option"
  cf_neg :: negotiated

definition no_params :: negotiated where
  "no_params = \<lparr>neg_version = [], neg_cipher = [], neg_group = [], neg_group_code = 0, neg_alpn = [], neg_sni = [],
     neg_peer_cert = []\<rparr>"

definition core_new :: "'c core_full" where
  "core_new = \<lparr>cf_conn = core_init, cf_handle = None, cf_promise = False, cf_setup = None, cf_neg = no_params\<rparr>"

text \<open>A failed handshake: \<open>hx_verification\<close> says that it is a \<open>FizzVerificationException\<close>.\<close>

record handshake_exn =
  hx_msg :: latin
  hx_verification :: bool
  hx_alert :: "latin option"

text \<open>What a step does besides: handles closed, the promise of the handshake and reads answered.\<close>

datatype effect =
    Closes int
  | HandshakeDone
  | HandshakeFailed tls_error
  | Answers answers

definition connection_error :: "latin \<Rightarrow> tls_error" where
  "connection_error msg = \<lparr>t_ssl = False, t_cert = False, t_text = msg, t_alert = None, t_remote = False\<rparr>"

text \<open>What the constructors of folly and Fizz throw, if they do.\<close>

record throws =
  th_socket :: "latin option"
  th_client :: "latin option"
  th_connect :: "latin option"

text \<open>
  \<open>wrapFd\<close>: the handle is adopted first. What throws before the client has the socket destroys
  the socket, which closes the handle; afterwards the client owns it.
\<close>

definition wrap_fd ::
    "(latin \<Rightarrow> 'c verifier option) \<Rightarrow> throws \<Rightarrow> int \<Rightarrow> request \<Rightarrow> 'c core_full \<Rightarrow> 'c core_full \<times> effect list" where
  "wrap_fd make_chain th handle q c =
     (case th_socket th of
        Some what \<Rightarrow> (c, [Closes handle, HandshakeFailed (connection_error (''wrap failed: '' @ what))])
      | None \<Rightarrow>
          (case build_setup make_chain q of
             Inl what \<Rightarrow> (c, [HandshakeFailed (connection_error (''wrap failed: '' @ what)), Closes handle])
           | Inr setup \<Rightarrow>
               (case th_client th of
                  Some what \<Rightarrow> (c, [Closes handle, HandshakeFailed (connection_error (''wrap failed: '' @ what))])
                | None \<Rightarrow>
                    (let c = c\<lparr>cf_conn := (cf_conn c)\<lparr>cc_client := True\<rparr>, cf_handle := Some handle, cf_setup := Some setup\<rparr> in
                     case th_connect th of
                       Some what \<Rightarrow> (c, [HandshakeFailed (connection_error (''wrap failed: '' @ what))])
                     | None \<Rightarrow> (c\<lparr>cf_promise := True\<rparr>, [])))))"

text \<open>\<open>connect\<close>: the client makes its own socket; resolving the address can throw, too.\<close>

definition connect_to ::
    "(latin \<Rightarrow> 'c verifier option) \<Rightarrow> throws \<Rightarrow> request \<Rightarrow> 'c core_full \<Rightarrow> 'c core_full \<times> effect list" where
  "connect_to make_chain th q c =
     (case build_setup make_chain q of
        Inl what \<Rightarrow> (c, [HandshakeFailed (connection_error (''connect failed: '' @ what))])
      | Inr setup \<Rightarrow>
          (case th_client th of
             Some what \<Rightarrow> (c, [HandshakeFailed (connection_error (''connect failed: '' @ what))])
           | None \<Rightarrow>
               (let c = c\<lparr>cf_conn := (cf_conn c)\<lparr>cc_client := True\<rparr>, cf_setup := Some setup\<rparr> in
                case th_connect th of
                  Some what \<Rightarrow> (c, [HandshakeFailed (connection_error (''connect failed: '' @ what))])
                | None \<Rightarrow> (c\<lparr>cf_promise := True\<rparr>, []))))"

text \<open>\<open>fizzHandshakeSuccess\<close> and \<open>connectSuccess\<close>; \<open>fizzHandshakeError\<close>; \<open>connectErr\<close>.\<close>

definition handshake_success :: "client_state \<Rightarrow> 'c core_full \<Rightarrow> 'c core_full \<times> effect list" where
  "handshake_success s c =
     (c\<lparr>cf_neg := capture_negotiated s (cf_neg c), cf_conn := (cf_conn c)\<lparr>cc_reading := True\<rparr>, cf_promise := False\<rparr>,
      [HandshakeDone])"

definition handshake_error :: "handshake_exn \<Rightarrow> 'c core_full \<Rightarrow> 'c core_full \<times> effect list" where
  "handshake_error e c =
     (c\<lparr>cf_promise := False\<rparr>, [HandshakeFailed (make_tls_error (hx_msg e) (hx_verification e) (or_else (hx_alert e) []))])"

definition connect_err :: "latin \<Rightarrow> bool \<Rightarrow> 'c core_full \<Rightarrow> 'c core_full \<times> effect list" where
  "connect_err what ssl_error c =
     (c\<lparr>cf_promise := False\<rparr>, [HandshakeFailed (tls_error_from_async_socket what ssl_error)])"

text \<open>Closing the transport, by \<open>close\<close>, by Fizz itself, or with the connection: once.\<close>

definition close_handle :: "'c core_full \<Rightarrow> 'c core_full \<times> effect list" where
  "close_handle c = (c\<lparr>cf_handle := None\<rparr>, (case cf_handle c of None \<Rightarrow> [] | Some h \<Rightarrow> [Closes h]))"

definition full_close :: "'c core_full \<Rightarrow> 'c core_full \<times> effect list" where
  "full_close c =
     (let c = c\<lparr>cf_conn := core_close (cf_conn c)\<rparr> in
      if cc_client (cf_conn c) then close_handle c else (c, []))"

text \<open>The destructor: the timer goes, the client is closed and dropped, a parked read with it.\<close>

definition destroy :: "'c core_full \<Rightarrow> 'c core_full \<times> effect list" where
  "destroy c =
     (let c = c\<lparr>cf_conn := (cf_conn c)\<lparr>cc_timer := False\<rparr>\<rparr>;
          (c, out) = (if cc_client (cf_conn c) then full_close c else (c, [])) in
      (c\<lparr>cf_conn := (cf_conn c)\<lparr>cc_client := False, cc_pending := None\<rparr>\<rparr>, out))"

section \<open>The life of a connection\<close>

text \<open>
  Events after the connection has its socket: callbacks of the handshake, which come only while
  its promise is open, Fizz closing its transport, and the events of reading.
\<close>

datatype 'c life_event =
    Succeeds "'c list" client_state
  | Fails handshake_exn
  | ConnectFails latin bool
  | TransportCloses
  | ClosedByPython
  | Reading core_event

fun life_step :: "'c life_event \<Rightarrow> 'c core_full \<Rightarrow> 'c core_full \<times> effect list" where
  "life_step (Succeeds certs s) c = (if cf_promise c then handshake_success s c else (c, []))"
| "life_step (Fails e) c = (if cf_promise c then handshake_error e c else (c, []))"
| "life_step (ConnectFails what ssl_error) c = (if cf_promise c then connect_err what ssl_error c else (c, []))"
| "life_step TransportCloses c = close_handle c"
| "life_step ClosedByPython c = full_close c"
| "life_step (Reading e) c =
     (if e = CloseCall then full_close c
      else let (conn, out) = core_step e (cf_conn c) in (c\<lparr>cf_conn := conn\<rparr>, [Answers out]))"

fun life :: "'c life_event list \<Rightarrow> 'c core_full \<Rightarrow> 'c core_full \<times> effect list" where
  "life [] c = destroy c"
| "life (e # es) c = (let (c, out) = life_step e c; (c, outs) = life es c in (c, out @ outs))"

section \<open>Ownership of the handle\<close>

fun closes :: "effect list \<Rightarrow> int list" where
  "closes [] = []"
| "closes (Closes h # out) = h # closes out"
| "closes (_ # out) = closes out"

fun verdicts :: "effect list \<Rightarrow> effect list" where
  "verdicts [] = []"
| "verdicts (HandshakeDone # out) = HandshakeDone # verdicts out"
| "verdicts (HandshakeFailed e # out) = HandshakeFailed e # verdicts out"
| "verdicts (_ # out) = verdicts out"

lemma closes_append [simp]: "closes (xs @ ys) = closes xs @ closes ys"
  by (induction xs rule: closes.induct) auto

lemma verdicts_append [simp]: "verdicts (xs @ ys) = verdicts xs @ verdicts ys"
  by (induction xs rule: verdicts.induct) auto

text \<open>The client of Fizz stays, an open handle has a client, and the promise has one, too.\<close>

definition owner_ok :: "'c core_full \<Rightarrow> bool" where
  "owner_ok c \<longleftrightarrow> (cf_handle c \<noteq> None \<longrightarrow> cc_client (cf_conn c)) \<and> (cf_promise c \<longrightarrow> cc_client (cf_conn c))"

definition held :: "'c core_full \<Rightarrow> int list" where
  "held c = (case cf_handle c of None \<Rightarrow> [] | Some h \<Rightarrow> [h])"

lemma core_step_client: "core_step e c = (c', out) \<Longrightarrow> cc_client c' = cc_client c"
  by (cases e) (auto simp: core_defs Let_def split: option.splits if_splits)

lemma life_step_owner:
  assumes "life_step e c = (c', out)" "owner_ok c"
  shows "owner_ok c' \<and> held c = closes out @ held c'
    \<and> length (verdicts out) + of_bool (cf_promise c') = of_bool (cf_promise c)"
  using assms
  by (cases e)
    (auto simp: owner_ok_def held_def handshake_success_def handshake_error_def connect_err_def close_handle_def full_close_def core_close_def
      Let_def dest: core_step_client split: if_splits option.splits prod.splits)

lemma destroy_owner:
  assumes "destroy c = (c', out)" "owner_ok c"
  shows "closes out = held c \<and> held c' = [] \<and> verdicts out = []"
  using assms
  by (auto simp: destroy_def owner_ok_def held_def full_close_def close_handle_def core_close_def Let_def
      split: if_splits option.splits prod.splits)

text \<open>An event that settles an open promise.\<close>

fun settles :: "'c life_event \<Rightarrow> bool" where
  "settles (Succeeds certs s) = True"
| "settles (Fails e) = True"
| "settles (ConnectFails what ssl_error) = True"
| "settles _ = False"

lemma life_step_settles: "life_step e c = (c', out) \<Longrightarrow> settles e \<Longrightarrow> \<not> cf_promise c'"
  by (cases e) (auto simp: handshake_success_def handshake_error_def connect_err_def split: if_splits)

lemma life_owner:
  assumes "life es c = (c', outs)" "owner_ok c"
  shows "closes outs = held c \<and> held c' = [] \<and> length (verdicts outs) \<le> of_bool (cf_promise c)
    \<and> ((\<exists>e \<in> set es. settles e) \<longrightarrow> length (verdicts outs) = of_bool (cf_promise c))"
  using assms
proof (induction es arbitrary: c outs)
  case Nil
  then show ?case using destroy_owner by fastforce
next
  case (Cons e es)
  obtain c1 o1 where one: "life_step e c = (c1, o1)" by fastforce
  obtain o2 where rest: "life es c1 = (c', o2)" "outs = o1 @ o2"
    using Cons.prems(1) one by (auto split: prod.splits)
  note k = life_step_owner [OF one Cons.prems(2)]
  note ih = Cons.IH [OF rest(1) conjunct1 [OF k]]
  show ?case using k ih life_step_settles [OF one] rest(2) by auto
qed

lemma wrap_fd_owner:
  assumes "wrap_fd make_chain th handle q core_new = (c, out)"
  shows "owner_ok c \<and> [handle] = closes out @ held c \<and> length (verdicts out) + of_bool (cf_promise c) = 1"
  using assms
  by (auto simp: wrap_fd_def owner_ok_def held_def core_new_def Let_def split: option.splits sum.splits)

section \<open>Who is let in\<close>

text \<open>
  Fizz finishes a handshake only with certificates that the verifier it was given accepts.
\<close>

definition fizz_verifies :: "('c, 'x) cert_lib \<Rightarrow> 'c check \<Rightarrow> 'c life_event list \<Rightarrow> bool" where
  "fizz_verifies lib v es \<longleftrightarrow> (\<forall>certs s. Succeeds certs s \<in> set es \<longrightarrow> run_check lib v certs = Inr ())"

text \<open>The chain verifies, and the leaf is for the host: by name or by address.\<close>

definition certified :: "('c, 'x) cert_lib \<Rightarrow> 'c verifier \<Rightarrow> latin \<Rightarrow> 'c list \<Rightarrow> bool" where
  "certified lib chain host certs \<longleftrightarrow> chain certs = Inr ()
     \<and> (\<exists>leaf rest der x509. certs = leaf # rest \<and> cl_der lib leaf = Some der \<and> cl_d2i lib der = Some x509
         \<and> (cl_check_host lib x509 host = 1 \<or> cl_check_ip lib x509 (c_str host) = 1))"

lemma hostname_verify_iff: "hostname_verify lib chain host certs = Inr () \<longleftrightarrow> certified lib chain host certs"
  by (auto simp: hostname_verify_def certified_def bad_certificate_def Let_def split: sum.splits list.splits option.splits)

lemma life_done:
  assumes "life es c = (c', outs)" "HandshakeDone \<in> set outs"
  shows "\<exists>certs s. Succeeds certs s \<in> set es"
  using assms
proof (induction es arbitrary: c outs)
  case Nil
  then show ?case
    by (auto simp: destroy_def full_close_def close_handle_def Let_def split: if_splits option.splits prod.splits)
next
  case (Cons e es)
  obtain c1 o1 where one: "life_step e c = (c1, o1)" by fastforce
  obtain o2 where rest: "life es c1 = (c', o2)" "outs = o1 @ o2"
    using Cons.prems(1) one by (auto split: prod.splits)
  show ?case
  proof (cases "HandshakeDone \<in> set o2")
    case True
    with Cons.IH rest show ?thesis by fastforce
  next
    case False
    with Cons.prems(2) rest(2) have "HandshakeDone \<in> set o1" by simp
    with one show ?thesis
      by (cases e) (auto simp: handshake_error_def connect_err_def close_handle_def full_close_def Let_def
          split: if_splits option.splits prod.splits)
  qed
qed

lemma wrap_fd_not_done: "wrap_fd make_chain th handle q c = (c', out) \<Longrightarrow> HandshakeDone \<notin> set out"
  by (auto simp: wrap_fd_def Let_def split: option.splits sum.splits)

section \<open>The core under the socket layer of Python\<close>

definition core_request :: "latin \<Rightarrow> tls_config \<Rightarrow> latin \<Rightarrow> int \<Rightarrow> (int \<times> bytes) list \<Rightarrow> request" where
  "core_request name cfg ca ms exts =
     \<lparr>q_sni = name, q_alpns = c_alpn cfg, q_groups = c_groups cfg, q_verify = c_verify cfg, q_ca_file = ca,
      q_timeout_ms = nat ms, q_extensions = map (\<lambda>(t, d). (nat t, d)) exts\<rparr>"

text \<open>
  A blocking call waits for the promise: the first answer, or none. What Fizz reports depends on
  the setup that the core hands to its client.
\<close>

definition handshake_over_core ::
    "(latin \<Rightarrow> 'c verifier option) \<Rightarrow> throws \<Rightarrow> ('c fizz_setup option \<Rightarrow> 'c life_event list) \<Rightarrow> int \<Rightarrow> request \<Rightarrow> tls_error option + conn" where
  "handshake_over_core make_chain th es handle q =
     (let (c, out) = wrap_fd make_chain th handle q core_new; (c, outs) = life (es (cf_setup c)) c in
      case verdicts (out @ outs) of
        [] \<Rightarrow> Inl None
      | HandshakeFailed e # _ \<Rightarrow> Inl (Some e)
      | _ \<Rightarrow> Inr 0)"

definition core_os ::
    "(latin \<Rightarrow> 'c verifier option) \<Rightarrow> throws \<Rightarrow> ('c fizz_setup option \<Rightarrow> 'c life_event list) \<Rightarrow> ('o \<Rightarrow> handles \<Rightarrow> tls_error option + int)
      \<Rightarrow> (tls_error option, 'o) os_core" where
  "core_os make_chain th es dup =
     \<lparr>dup_handle = dup, handshake = \<lambda>h name cfg ca ms exts. handshake_over_core make_chain th es h (core_request name cfg ca ms exts)\<rparr>"

lemma verdicts_done: "verdicts out = v # vs \<Longrightarrow> \<forall>e. v \<noteq> HandshakeFailed e \<Longrightarrow> v = HandshakeDone \<and> HandshakeDone \<in> set out"
  by (induction out rule: verdicts.induct) auto

lemma handshake_over_core_certified:
  assumes "handshake_over_core make_chain th es h q = Inr k" "q_verify q"
    and "\<forall>su. fizz_verifies lib (su_verifier su) (es (Some su))"
  shows "\<exists>chain su certs s. make_chain (q_ca_file q) = Some chain \<and> build_setup make_chain q = Inr su
    \<and> Succeeds certs s \<in> set (es (Some su)) \<and> certified lib chain (q_sni q) certs"
proof -
  obtain c out where w: "wrap_fd make_chain th h q core_new = (c, out)" by fastforce
  obtain c' outs where l: "life (es (cf_setup c)) c = (c', outs)" by fastforce
  from assms(1) w l obtain v vs where "verdicts (out @ outs) = v # vs" "\<forall>e. v \<noteq> HandshakeFailed e"
    by (auto simp: handshake_over_core_def split: list.splits effect.splits)
  from verdicts_done [OF this] have "HandshakeDone \<in> set outs" using wrap_fd_not_done [OF w] by auto
  from life_done [OF l this] obtain certs s where s: "Succeeds certs s \<in> set (es (cf_setup c))" by blast
  have "cf_promise c"
  proof (rule ccontr)
    assume "\<not> cf_promise c"
    with wrap_fd_owner [OF w] life_owner [OF l] have "verdicts outs = []" by simp
    moreover have "HandshakeDone \<in> set xs \<Longrightarrow> verdicts xs \<noteq> []" for xs
      by (induction xs rule: verdicts.induct) auto
    ultimately show False using \<open>HandshakeDone \<in> set outs\<close> by blast
  qed
  then obtain su where su: "build_setup make_chain q = Inr su" "cf_setup c = Some su"
    using w by (auto simp: wrap_fd_def core_new_def Let_def split: option.splits sum.splits)
  from su(1) assms(2) obtain chain where "make_chain (q_ca_file q) = Some chain" "su_verifier su = Hostname chain (q_sni q)"
    by (auto simp: build_setup_def Let_def split: option.splits)
  with assms(3) s su show ?thesis
    by (fastforce simp: fizz_verifies_def simp flip: hostname_verify_iff)
qed

section \<open>Properties\<close>

text \<open>
  C11: the core owns a handle that it was given: whatever fails while the handshake is set up, and
  whatever happens afterwards until the connection is gone, the handle is closed exactly once and
  no other handle is; the handshake is answered at most once, and once when Fizz reports its
  outcome.
\<close>

theorem wrap_fd_closes_once:
  assumes "wrap_fd make_chain th handle q core_new = (c, out)" "life es c = (c', outs)"
  shows "closes (out @ outs) = [handle] \<and> length (verdicts (out @ outs)) \<le> 1
    \<and> (\<not> cf_promise c \<or> (\<exists>e \<in> set es. settles e) \<longrightarrow> length (verdicts (out @ outs)) = 1)"
  using wrap_fd_owner [OF assms(1)] life_owner [OF assms(2)] by auto

text \<open>
  C10: with verification on, \<open>wrap_socket\<close> over the core gives a socket only for a server whose chain
  the verifier for the configured roots accepts and whose leaf certificate OpenSSL matches with
  the server name asked for, given that Fizz finishes a handshake only when the verifier that the
  core installed agrees.
\<close>

theorem wrap_socket_verified:
  assumes "wrap_socket mul default_ca default_groups (core_os make_chain th es dup) sock name (Some cfg) hs = (Inr k, hs')"
    and "c_verify cfg"
    and "\<forall>su. fizz_verifies lib (su_verifier su) (es (Some su))"
  shows "\<exists>chain su certs s. make_chain (resolved_cafile default_ca cfg) = Some chain \<and> Succeeds certs s \<in> set (es (Some su))
    \<and> certified lib chain name certs"
proof -
  from assms(1) obtain h ms exts conn where
    "handshake_over_core make_chain th es h (core_request name cfg (resolved_cafile default_ca cfg) ms exts) = Inr conn"
    by (auto simp: wrap_socket_def prepare_wrap_def submit_wrap_def core_os_def split: sum.splits prod.splits)
  from handshake_over_core_certified [OF this _ assms(3)] assms(2) show ?thesis by (auto simp: core_request_def)
qed

section \<open>The properties at concrete handshakes\<close>

text \<open>A certificate is its host name; the chain verifier accepts everything that is not empty.\<close>

definition demo_certs :: "(latin, latin) cert_lib" where
  "demo_certs = \<lparr>cl_der = Some, cl_d2i = Some, cl_check_host = \<lambda>x host. if x = host then 1 else 0, cl_check_ip = \<lambda>x host. 0\<rparr>"

definition demo_chain :: "latin \<Rightarrow> latin verifier option" where
  "demo_chain ca = Some (\<lambda>certs. if certs = [] then bad_certificate ''no certificates'' else Inr ())"

definition demo_client_state :: client_state where
  "demo_client_state = \<lparr>cs_version = Some ''TLSv1.3'', cs_cipher = None, cs_group = Some (''x25519'', 29), cs_alpn = [],
     cs_sni = None, cs_peer_cert = None\<rparr>"

definition demo_throws :: throws where
  "demo_throws = \<lparr>th_socket = None, th_client = None, th_connect = None\<rparr>"

lemma wrap_fd_closes_once_witness:
  "(let (c, out) = wrap_fd demo_chain demo_throws 7 (core_request ''h'' (default_config [29]) [] 0 []) core_new;
        (c', outs) = life [Succeeds [''h''] demo_client_state, Reading EofIn, ClosedByPython, TransportCloses] c in
    closes (out @ outs) = [7] \<and> length (verdicts (out @ outs)) = 1)"
proof -
  let ?es = "[Succeeds [''h''] demo_client_state, Reading EofIn, ClosedByPython, TransportCloses]"
  obtain c out where w: "wrap_fd demo_chain demo_throws 7 (core_request ''h'' (default_config [29]) [] 0 []) core_new = (c, out)"
    by fastforce
  obtain c' outs where l: "life ?es c = (c', outs)" by fastforce
  from wrap_fd_closes_once [OF w l] show ?thesis by (simp add: w l del: life.simps)
qed

text \<open>The server shows the certificate of host \<open>h\<close>, and Fizz asks the verifier it was given.\<close>

definition demo_fizz :: "latin fizz_setup option \<Rightarrow> latin life_event list" where
  "demo_fizz su =
     (case su of
        None \<Rightarrow> []
      | Some su \<Rightarrow> (case run_check demo_certs (su_verifier su) [''h''] of
            Inl e \<Rightarrow> [Fails \<lparr>hx_msg = fe_msg e, hx_verification = True, hx_alert = None\<rparr>]
          | Inr _ \<Rightarrow> [Succeeds [''h''] demo_client_state]))"

lemma wrap_socket_verified_witness:
  "\<exists>k hs' chain su certs s. wrap_socket demo_mul [] [29] (core_os demo_chain demo_throws demo_fizz (\<lambda>sock hs. Inr 9)) () ''h''
      (Some ((default_config [29])\<lparr>c_timeout := None\<rparr>)) \<lparr>open_handles = {3}, adopted = {}\<rparr> = (Inr k, hs')
    \<and> demo_chain [] = Some chain \<and> Succeeds certs s \<in> set (demo_fizz (Some su)) \<and> certified demo_certs chain ''h'' certs"
proof -
  let ?os = "core_os demo_chain demo_throws demo_fizz (\<lambda>sock hs. Inr 9) :: (tls_error option, unit) os_core"
  let ?cfg = "(default_config [29])\<lparr>c_timeout := None\<rparr>" and ?hs = "\<lparr>open_handles = {3}, adopted = {}\<rparr>"
  have "normalized_extensions ?cfg = Inr []"
    by (simp add: normalized_extensions_def normalize_extensions_def default_config_def)
  moreover have "timeout_ms demo_mul ?cfg = Inr 0" by (simp add: timeout_ms_def timeout_to_ms_def)
  ultimately obtain k hs' where run: "wrap_socket demo_mul [] [29] ?os () ''h'' (Some ?cfg) ?hs = (Inr k, hs')"
    by (simp add: wrap_socket_def prepare_wrap_def submit_wrap_def core_os_def handshake_over_core_def wrap_fd_def
        demo_throws_def build_setup_def core_request_def demo_chain_def handshake_success_def destroy_def full_close_def
        close_handle_def core_new_def core_close_def core_init_def default_config_def demo_fizz_def hostname_verify_def
        demo_certs_def Let_def)
  have "\<forall>su. fizz_verifies demo_certs (su_verifier su) (demo_fizz (Some su))"
    by (auto simp: fizz_verifies_def demo_fizz_def split: sum.splits)
  from wrap_socket_verified [OF run _ this] run show ?thesis
    by (auto simp: default_config_def resolved_cafile_def)
qed

end
