(* ===== verification/Client_Props.thy ===== *)
theory Client_Props
  imports Client
begin

text \<open>
  What the blocking client does: an exchange against a core that serves a response, the retry on
  a stale connection, the redirect loop, and termination.
\<close>

section \<open>A core that serves a response\<close>

text \<open>Reading from \<open>w\<close> gives these chunks, one by one, and leads to \<open>w'\<close>.\<close>

fun serves :: "('x, 'w) net \<Rightarrow> int \<Rightarrow> conn \<Rightarrow> 'w \<Rightarrow> bytes list \<Rightarrow> 'w \<Rightarrow> bool" where
  "serves net ms c w [] w' \<longleftrightarrow> w' = w"
| "serves net ms c w (ch # chs) w' \<longleftrightarrow> ch \<noteq> [] \<and>
     (case n_read net ms c w of (Inr b, w1) \<Rightarrow> b = ch \<and> serves net ms c w1 chs w' | (Inl e, w1) \<Rightarrow> False)"

lemma serves_not_Nil: "serves net ms c w chunks w' \<Longrightarrow> \<forall>ch \<in> set chunks. ch \<noteq> []"
  by (induction chunks arbitrary: w) (auto split: prod.splits sum.splits)

lemma feed_list_complete:
  "is_complete p \<Longrightarrow> feed_list (feed cd) p chunks = Inr (p\<lparr>p_buf := p_buf p @ concat chunks\<rparr>)"
proof (induction chunks arbitrary: p)
  case Nil
  then show ?case by simp
next
  case (Cons c chunks)
  have "is_complete (p\<lparr>p_buf := p_buf p @ c\<rparr>)" using Cons.prems by (simp add: is_complete_def)
  from Cons.IH [OF this] show ?case by (simp add: complete_feed [OF Cons.prems])
qed

text \<open>The loop takes the chunks as long as the parser is not complete before the last one.\<close>

fun open_until :: "codec \<Rightarrow> parser \<Rightarrow> bytes list \<Rightarrow> parser \<Rightarrow> bool" where
  "open_until cd p [] q \<longleftrightarrow> q = p"
| "open_until cd p (c # cs) q \<longleftrightarrow> \<not> is_complete p \<and>
     (case feed cd p c of Inl e \<Rightarrow> False | Inr t \<Rightarrow> open_until cd t cs q)"

lemma read_loop_open:
  "open_until cd p chunks q \<Longrightarrow> serves net ms c w chunks w' \<Longrightarrow>
    read_loop net cd ms reused c p received w = read_loop net cd ms reused c q (received \<or> chunks \<noteq> []) w'"
proof (induction chunks arbitrary: p received w)
  case Nil
  then show ?case by simp
next
  case (Cons ch chunks)
  from Cons.prems(1) obtain t where t: "\<not> is_complete p" "feed cd p ch = Inr t" "open_until cd t chunks q"
    by (auto split: sum.splits)
  from Cons.prems(2) obtain w1 where w1: "n_read net ms c w = (Inr ch, w1)" "ch \<noteq> []" "serves net ms c w1 chunks w'"
    by (auto split: prod.splits sum.splits)
  have "read_loop net cd ms reused c p received w = read_loop net cd ms reused c t True w1"
    using t w1 by (subst read_loop.simps) simp
  with Cons.IH [OF t(3) w1(3), of True] show ?case by simp
qed

text \<open>A parser that is complete with nothing left over was not complete before.\<close>

lemma open_until_drained:
  "feed_list (feed cd) p chunks = Inr q \<Longrightarrow> p_buf q = [] \<Longrightarrow> \<forall>ch \<in> set chunks. ch \<noteq> [] \<Longrightarrow> open_until cd p chunks q"
proof (induction chunks arbitrary: p)
  case Nil
  then show ?case by simp
next
  case (Cons c chunks)
  then obtain t where t: "feed cd p c = Inr t" "feed_list (feed cd) t chunks = Inr q"
    by (auto simp: and_then_Inr_iff)
  have "\<not> is_complete p"
  proof
    assume "is_complete p"
    from feed_list_complete [OF this, of cd "c # chunks"] Cons.prems(1)
    have "q = p\<lparr>p_buf := p_buf p @ concat (c # chunks)\<rparr>" by simp
    then have "p_buf q = p_buf p @ concat (c # chunks)" by simp
    with Cons.prems(2,3) show False by simp
  qed
  with Cons t show ?case by simp
qed

lemma open_until_incomplete:
  "feed_list (feed cd) p chunks = Inr q \<Longrightarrow> \<not> is_complete q \<Longrightarrow> open_until cd p chunks q"
proof (induction chunks arbitrary: p)
  case Nil
  then show ?case by simp
next
  case (Cons c chunks)
  then obtain t where t: "feed cd p c = Inr t" "feed_list (feed cd) t chunks = Inr q"
    by (auto simp: and_then_Inr_iff)
  have "\<not> is_complete p"
  proof
    assume "is_complete p"
    from feed_list_complete [OF this, of cd "c # chunks"] Cons.prems
    have "q = p\<lparr>p_buf := p_buf p @ concat (c # chunks)\<rparr>" by simp
    with \<open>is_complete p\<close> Cons.prems(2) show False by (simp add: is_complete_def)
  qed
  with Cons t show ?case by simp
qed

lemma read_loop_done: "is_complete q \<Longrightarrow> read_loop net cd ms reused c q received w = Some (Inr q, w)"
  by (subst read_loop.simps) simp

lemma reusable_tls [simp]: "reusable q (r\<lparr>resp_tls := x\<rparr>) = reusable q r"
  by (simp add: reusable_def)

lemma exchange_served:
  assumes "n_write net (s_timeout_ms cfg) c raw (world s) = (Inr u, w1)"
    and "serves net (s_timeout_ms cfg) c w1 chunks w2"
    and "feed_list (feed cd) new_parser chunks = Inr q" "is_complete q" "p_buf q = []"
  shows "exchange net cd cfg c key raw reused s = Some (finish_exchange net reused c key q (s\<lparr>world := w2\<rparr>))"
proof -
  have "open_until cd new_parser chunks q"
    using open_until_drained [OF assms(3,5)] serves_not_Nil [OF assms(2)] by blast
  from read_loop_open [OF this assms(2), of reused False] assms(1,4) show ?thesis
    by (simp add: exchange_def read_loop_done)
qed

section \<open>Internal exceptions stay inside\<close>

lemma read_loop_not_stale:
  assumes "read_loop net cd ms False c p received w = Some (r, w')"
  shows "r \<noteq> Inl Stale"
proof -
  have "\<not> reused \<longrightarrow> fst rw \<noteq> Inl Stale" if "read_loop net cd ms reused c p received w = Some rw"
    for reused rw
  proof (rule read_loop.raw_induct [where P = "\<lambda>net cd ms reused c p received w rw. \<not> reused \<longrightarrow> fst rw \<noteq> Inl Stale", OF _ that], goal_cases)
    case (1 f net cd ms reused c p received w rw)
    note IH = 1(1) and eq = 1(2)
    show ?case
    proof (intro impI)
      assume "\<not> reused"
      show "fst rw \<noteq> Inl Stale"
      proof (cases "is_complete p")
        case True
        with eq show ?thesis by auto
      next
        case False
        obtain x w1 where x: "n_read net ms c w = (x, w1)" by fastforce
        show ?thesis
        proof (cases x)
          case (Inl e)
          with eq False x \<open>\<not> reused\<close> show ?thesis by auto
        next
          case (Inr b)
          show ?thesis
          proof (cases "b = []")
            case True
            with eq False x Inr \<open>\<not> reused\<close> show ?thesis by (auto split: sum.splits prod.splits)
          next
            case bne: False
            show ?thesis
            proof (cases "feed cd p b")
              case (Inl eq')
              with eq False x Inr bne show ?thesis by (cases eq') auto
            next
              case (Inr q)
              with eq False x \<open>x = Inr b\<close> bne have "f net cd ms reused c q True w1 = Some rw" by simp
              from IH [OF this] \<open>\<not> reused\<close> show ?thesis by blast
            qed
          qed
        qed
      qed
    qed
  qed
  from this [OF assms] show ?thesis by simp
qed

lemma exchange_fresh_not_stale:
  "exchange net cd cfg c key raw False s = Some (r, s') \<Longrightarrow> r \<noteq> Inl Stale"
  by (auto simp: exchange_def finish_exchange_def Let_def dest: read_loop_not_stale
      split: prod.splits sum.splits option.splits if_splits)

lemma connect_fresh_not_stale: "connect_fresh net cd cfg t key raw s = Some (r, s') \<Longrightarrow> r \<noteq> Inl Stale"
  by (auto simp: connect_fresh_def split: prod.splits sum.splits dest: exchange_fresh_not_stale)

lemma perform_not_stale: "perform net cd uni cfg rq u s = Some (r, s') \<Longrightarrow> r \<noteq> Inl Stale"
  by (auto simp: perform_def Let_def split: prod.splits sum.splits option.splits failure.splits
      dest: connect_fresh_not_stale)

section \<open>The redirect loop\<close>

text \<open>
  Performing a request and following its redirects: after \<open>n\<close> of them the request at hand is
  \<open>rq\<close> for the URL \<open>u\<close>, in session \<open>s\<close>.
\<close>

definition follow_up :: "unicode \<Rightarrow> settings \<Rightarrow> req \<Rightarrow> latin \<Rightarrow> response \<Rightarrow> url_error + (ustr \<times> latin) option" where
  "follow_up uni cfg rq u r =
     (if s_follow_redirects cfg
      then next_redirect (u_upper uni) (r_method rq) u (status_code r) (get_header (resp_headers r) ''Location'')
      else Inr None)"

inductive hops :: "(req \<Rightarrow> latin \<Rightarrow> 'w session \<Rightarrow> ('x, 'w) answer) \<Rightarrow> unicode \<Rightarrow> settings \<Rightarrow> req \<Rightarrow> latin \<Rightarrow> 'w session
    \<Rightarrow> nat \<Rightarrow> req \<Rightarrow> latin \<Rightarrow> 'w session \<Rightarrow> bool"
  for perf uni cfg where
  hops_start: "hops perf uni cfg rq u s 0 rq u s"
| hops_follow: "perf rq u s = Some (Inr r, s1) \<Longrightarrow> follow_up uni cfg rq u r = Inr (Some (m, u1)) \<Longrightarrow>
    hops perf uni cfg (redirected uni rq m) u1 s1 n rq' u' s' \<Longrightarrow> hops perf uni cfg rq u s (Suc n) rq' u' s'"

text \<open>How the loop ends at a request, after \<open>n\<close> redirects of at most \<open>limit\<close>.\<close>

definition ends_with ::
    "(req \<Rightarrow> latin \<Rightarrow> 'w session \<Rightarrow> ('x, 'w) answer) \<Rightarrow> unicode \<Rightarrow> settings \<Rightarrow> bool \<Rightarrow> req \<Rightarrow> latin \<Rightarrow> 'w session
      \<Rightarrow> 'x failure + response \<Rightarrow> 'w session \<Rightarrow> bool" where
  "ends_with perf uni cfg at_limit rq u s result s' \<longleftrightarrow>
     (case perf rq u s of
        None \<Rightarrow> False
      | Some (Inl f, s1) \<Rightarrow> result = Inl f \<and> s' = s1
      | Some (Inr r, s1) \<Rightarrow> s' = s1 \<and>
          (case follow_up uni cfg rq u r of
             Inl e \<Rightarrow> result = Inl (BadRedirect e)
           | Inr None \<Rightarrow> result = Inr (r\<lparr>resp_url := u\<rparr>)
           | Inr (Some _) \<Rightarrow> at_limit \<and> result = Inl (TooManyRedirects u)))"

lemma request_loop_unfold:
  "request_loop perf uni cfg seen rq u s = (case perf rq u s of None \<Rightarrow> None
      | Some (Inl f, s) \<Rightarrow> Some (Inl f, s)
      | Some (Inr r, s) \<Rightarrow> (case follow_up uni cfg rq u r of
          Inl e \<Rightarrow> Some (Inl (BadRedirect e), s)
        | Inr None \<Rightarrow> Some (Inr (r\<lparr>resp_url := u\<rparr>), s)
        | Inr (Some (m, v)) \<Rightarrow> if s_max_redirects cfg \<le> seen then Some (Inl (TooManyRedirects u), s)
            else request_loop perf uni cfg (seen + 1) (redirected uni rq m) v s))"
  by (subst request_loop.simps) (auto simp: follow_up_def Let_def split: option.split sum.split prod.split)

lemma request_loop_hops:
  "request_loop perf uni cfg seen rq u s = Some (result, s') \<Longrightarrow>
    \<exists>n rq' u' s1. hops perf uni cfg rq u s n rq' u' s1
      \<and> n \<le> nat (s_max_redirects cfg - seen)
      \<and> ends_with perf uni cfg (n = nat (s_max_redirects cfg - seen)) rq' u' s1 result s'"
proof (induction perf uni cfg seen rq u s rule: request_loop.induct)
  case (1 perf uni cfg seen rq u s)
  note loop = "1.prems" [unfolded request_loop_unfold [of perf uni cfg seen]]
  show ?case
  proof (cases "\<exists>r s1 m v. perf rq u s = Some (Inr r, s1) \<and> follow_up uni cfg rq u r = Inr (Some (m, v))
      \<and> seen < s_max_redirects cfg")
    case True
    then obtain r s1 m v where h: "perf rq u s = Some (Inr r, s1)"
      "follow_up uni cfg rq u r = Inr (Some (m, v))" "seen < s_max_redirects cfg" by blast
    with loop have "request_loop perf uni cfg (seen + 1) (redirected uni rq m) v s1 = Some (result, s')" by simp
    moreover have "(if s_follow_redirects cfg then next_redirect (u_upper uni) (r_method rq) u
        (status_code (r\<lparr>resp_url := u\<rparr>)) (get_header (resp_headers (r\<lparr>resp_url := u\<rparr>)) ''Location'') else Inr None)
        = Inr (Some (m, v))"
      using h(2) by (simp add: follow_up_def split: if_splits)
    ultimately obtain n rq' u' s2 where "hops perf uni cfg (redirected uni rq m) v s1 n rq' u' s2"
      "n \<le> nat (s_max_redirects cfg - (seen + 1))"
      "ends_with perf uni cfg (n = nat (s_max_redirects cfg - (seen + 1))) rq' u' s2 result s'"
      using "1.IH" [OF h(1) refl refl refl _ refl refl refl] h(3) by fastforce
    moreover have "nat (s_max_redirects cfg - seen) = Suc (nat (s_max_redirects cfg - (seen + 1)))"
      using h(3) by simp
    ultimately show ?thesis
      using hops_follow [where perf = perf and uni = uni and cfg = cfg, OF h(1,2)]
      by (intro exI [of _ "Suc n"] exI [of _ rq'] exI [of _ u'] exI [of _ s2]) auto
  next
    case False
    then have "ends_with perf uni cfg (0 = nat (s_max_redirects cfg - seen)) rq u s result s'"
      using loop by (auto simp: ends_with_def split: option.splits prod.splits sum.splits if_splits)
    then show ?thesis
      using hops_start by (intro exI [of _ 0] exI [of _ rq] exI [of _ u] exI [of _ s]) auto
  qed
qed

section \<open>Termination\<close>

text \<open>Reading from \<open>w\<close> comes to an end: an error or an empty read after finitely many chunks.\<close>

inductive reads_end :: "('x, 'w) net \<Rightarrow> int \<Rightarrow> conn \<Rightarrow> 'w \<Rightarrow> bool" for net ms c where
  end_error: "n_read net ms c w = (Inl e, w') \<Longrightarrow> reads_end net ms c w"
| end_eof: "n_read net ms c w = (Inr [], w') \<Longrightarrow> reads_end net ms c w"
| end_chunk: "n_read net ms c w = (Inr chunk, w') \<Longrightarrow> reads_end net ms c w' \<Longrightarrow> reads_end net ms c w"

lemma read_loop_returns:
  "reads_end net ms c w \<Longrightarrow> read_loop net cd ms reused c p received w \<noteq> None"
proof (induction arbitrary: p received rule: reads_end.induct)
  case (end_error w e w')
  then show ?case by (subst read_loop.simps) simp
next
  case (end_eof w w')
  then show ?case by (subst read_loop.simps) (simp split: sum.split prod.split)
next
  case (end_chunk w chunk w')
  then show ?case by (subst read_loop.simps) (auto split: sum.split prod.split)
qed

lemma exchange_returns:
  assumes "\<And>w. reads_end net (s_timeout_ms cfg) c w"
  shows "exchange net cd cfg c key raw reused s \<noteq> None"
proof -
  obtain x w where x: "n_write net (s_timeout_ms cfg) c raw (world s) = (x, w)" by fastforce
  have "read_loop net cd (s_timeout_ms cfg) reused c new_parser False w \<noteq> None"
    using assms by (rule read_loop_returns)
  then show ?thesis
    using x by (cases x) (auto simp: exchange_def split: sum.split)
qed

lemma perform_returns:
  assumes "\<And>c w. reads_end net (s_timeout_ms cfg) c w"
  shows "perform net cd uni cfg rq u s \<noteq> None"
proof -
  have ex: "exchange net cd cfg c key raw reused s \<noteq> None" for c key raw reused s
    using exchange_returns [of net cfg c cd key raw reused s] assms by blast
  have fresh: "connect_fresh net cd cfg t key raw s \<noteq> None" for t key raw s
    using ex by (simp add: connect_fresh_def split: prod.split sum.split)
  show ?thesis
    using ex fresh
    by (auto simp: perform_def Let_def simp del: not_None_eq
        split: prod.split sum.split option.split failure.split)
qed

lemma request_loop_returns:
  "(\<And>rq u s. perf rq u s \<noteq> None) \<Longrightarrow> request_loop perf uni cfg seen rq u s \<noteq> None"
proof (induction perf uni cfg seen rq u s rule: request_loop.induct)
  case (1 perf uni cfg seen rq u s)
  obtain r s1 where p: "perf rq u s = Some (r, s1)" using "1.prems" [of rq u s] by auto
  show ?case
  proof (cases r)
    case (Inl f)
    with p show ?thesis by (simp add: request_loop_unfold)
  next
    case (Inr resp)
    show ?thesis
    proof (cases "\<exists>m v. follow_up uni cfg rq u resp = Inr (Some (m, v)) \<and> seen < s_max_redirects cfg")
      case True
      then obtain m v where f: "follow_up uni cfg rq u resp = Inr (Some (m, v))" "seen < s_max_redirects cfg"
        by blast
      then have "request_loop perf uni cfg (seen + 1) (redirected uni rq m) v s1 \<noteq> None"
        using "1.IH" [OF p [unfolded Inr] refl refl refl _ refl refl refl] "1.prems"
        by (fastforce simp: follow_up_def split: if_splits)
      with p Inr f show ?thesis by (subst request_loop_unfold) simp
    next
      case False
      with p Inr show ?thesis by (subst request_loop_unfold) (auto split: sum.split option.split)
    qed
  qed
qed

section \<open>Properties\<close>

lemma perform_served:
  assumes "parse_url u = Inr t"
    and "build_request (u_lower uni) (r_method rq) (lit (t_path t)) (lit (t_host t))
      (r_headers rq) (r_body rq) = Inr raw"
    and "idle (pool s) (t_host t, t_port t) = []"
    and "n_connect net cfg t (world s) = (Inr c, w0)"
    and "n_write net (s_timeout_ms cfg) c raw w0 = (Inr (), w1)"
    and "serves net (s_timeout_ms cfg) c w1 chunks w2"
    and "feed_list (feed cd) new_parser chunks = Inr q" "p_response q = Some r" "is_complete q" "p_buf q = []"
  shows "perform net cd uni cfg rq u s =
    Some (Inr (r\<lparr>resp_tls := Some (n_negotiated net c w2)\<rparr>),
      if reusable q r then \<lparr>pool = give_conn (t_host t, t_port t) c (pool s), world = w2\<rparr>
      else \<lparr>pool = pool s, world = n_close net c w2\<rparr>)"
proof -
  have "take_conn (t_host t, t_port t) (pool s) = (None, pool s)"
    using assms(3) by (auto simp: take_conn_def idle_def split: option.splits)
  moreover have "exchange net cd cfg c (t_host t, t_port t) raw False \<lparr>pool = pool s, world = w0\<rparr> =
      Some (finish_exchange net False c (t_host t, t_port t) q \<lparr>pool = pool s, world = w2\<rparr>)"
    using exchange_served [where s = "\<lparr>pool = pool s, world = w0\<rparr>", OF _ assms(6,7,9,10)] assms(5) by simp
  ultimately show ?thesis
    using assms(1,2,4,8)
    by (cases s) (simp add: perform_def connect_fresh_def finish_exchange_def Let_def)
qed

text \<open>
  Against a core that accepts the request and serves a response in any chunks, with nothing
  after it, a request without an idle connection returns that response, with the negotiated
  parameters, and the connection goes back to the pool exactly when it may be reused, and is
  closed otherwise.
\<close>

theorem perform_delivers:
  assumes "parse_url u = Inr t"
    and "build_request (u_lower uni) (r_method rq) (lit (t_path t)) (lit (t_host t))
      (r_headers rq) (r_body rq) = Inr raw"
    and "idle (pool s) (t_host t, t_port t) = []"
    and "n_connect net cfg t (world s) = (Inr c, w0)"
    and "n_write net (s_timeout_ms cfg) c raw w0 = (Inr (), w1)"
    and "serves net (s_timeout_ms cfg) c w1 chunks w2"
    and "feed_list (feed cd) new_parser chunks = Inr q" "p_response q = Some r" "is_complete q" "p_buf q = []"
  shows "perform net cd uni cfg rq u s =
    Some (Inr (r\<lparr>resp_tls := Some (n_negotiated net c w2)\<rparr>),
      if reusable q r then \<lparr>pool = give_conn (t_host t, t_port t) c (pool s), world = w2\<rparr>
      else \<lparr>pool = pool s, world = n_close net c w2\<rparr>)"
  by (rule perform_served [OF assms])

text \<open>
  C20: a request on a pooled connection that turns out dead, because writing fails, or reading
  fails or ends before a byte came, closes that connection and is performed once more on a fresh
  one, with the same bytes.
\<close>

theorem stale_connection_retried:
  assumes "parse_url u = Inr t"
    and "build_request (u_lower uni) (r_method rq) (lit (t_path t)) (lit (t_host t))
      (r_headers rq) (r_body rq) = Inr raw"
    and "take_conn (t_host t, t_port t) (pool s) = (Some c, p)"
    and "n_write net (s_timeout_ms cfg) c raw (world s) = (Inl e, w1) \<and> w2 = w1
      \<or> n_write net (s_timeout_ms cfg) c raw (world s) = (Inr (), w1)
        \<and> (n_read net (s_timeout_ms cfg) c w1 = (Inl e, w2) \<or> n_read net (s_timeout_ms cfg) c w1 = (Inr [], w2))"
  shows "perform net cd uni cfg rq u s =
    connect_fresh net cd cfg t (t_host t, t_port t) raw \<lparr>pool = p, world = n_close net c w2\<rparr>"
proof -
  have "\<not> is_complete new_parser" by (simp add: is_complete_def new_parser_def)
  then have "exchange net cd cfg c (t_host t, t_port t) raw True (s\<lparr>pool := p\<rparr>) =
      Some (Inl Stale, \<lparr>pool = p, world = w2\<rparr>)"
    using assms(4) by (cases s) (auto simp: exchange_def read_loop.simps [of net cd])
  then show ?thesis using assms(1-3) by (simp add: perform_def)
qed

text \<open>
  The internal exception for a stale connection never leaves a request: a request on a
  fresh connection does not raise it, and neither does the redirect loop.
\<close>

theorem stale_never_escapes:
  assumes "client_request net cd uni cfg rq u s = Some (Inl f, s')"
  shows "f \<noteq> Stale"
proof -
  obtain n rq' u' s1 where "ends_with (perform net cd uni cfg) uni cfg
      (n = nat (s_max_redirects cfg - 0)) rq' u' s1 (Inl f) s'"
    using request_loop_hops [OF assms [unfolded client_request_def]] by blast
  then show ?thesis
    using perform_not_stale [of net cd uni cfg rq' u' s1]
    by (auto simp: ends_with_def split: option.splits prod.splits sum.splits)
qed

text \<open>
  C15: a request that returns followed at most \<open>max_redirects\<close> redirects, each with the method
  and headers the redirect asks for; it ends with the first response that is not to be followed,
  under the URL it came from, with the first failure, or, after exactly \<open>max_redirects\<close>
  redirects, with \<open>TooManyRedirects\<close>.
\<close>

theorem request_follows_redirects:
  assumes "client_request net cd uni cfg rq u s = Some (result, s')"
  shows "\<exists>n rq' u' s1. hops (perform net cd uni cfg) uni cfg
      (rq\<lparr>r_method := ustr_upper (u_upper uni) (r_method rq)\<rparr>) u s n rq' u' s1
    \<and> n \<le> nat (s_max_redirects cfg)
    \<and> ends_with (perform net cd uni cfg) uni cfg (n = nat (s_max_redirects cfg)) rq' u' s1 result s'"
  using request_loop_hops [OF assms [unfolded client_request_def]] by simp

text \<open>
  C16: a request returns, with a response or an exception, on every core whose reads end: on each
  connection, an error or the end of the stream comes after finitely many chunks.
\<close>

theorem request_returns:
  assumes "\<And>c w. reads_end net (s_timeout_ms cfg) c w"
  shows "\<exists>result s'. client_request net cd uni cfg rq u s = Some (result, s')"
proof -
  have "client_request net cd uni cfg rq u s \<noteq> None"
    unfolding client_request_def by (rule request_loop_returns) (rule perform_returns [OF assms])
  then show ?thesis by auto
qed

text \<open>
  A connection that the server has closed can go back to the pool: when it ends inside a
  Content-Length body, the truncated response is returned as complete and the connection that
  just reported its end is pooled as reusable.
\<close>

theorem ended_connection_pooled:
  assumes "n_write net (s_timeout_ms cfg) c raw (world s) = (Inr (), w1)"
    and "serves net (s_timeout_ms cfg) c w1 chunks w2" "chunks \<noteq> []"
    and "n_read net (s_timeout_ms cfg) c w2 = (Inr [], w3)"
    and "feed_list (feed cd) new_parser chunks = Inr p" "\<not> is_complete p"
    and "feed_eof cd p = Inr q" "p_response q = Some r" "reusable q r"
  shows "exchange net cd cfg c key raw reused s =
    Some (Inr (r\<lparr>resp_tls := Some (n_negotiated net c w3)\<rparr>), \<lparr>pool = give_conn key c (pool s), world = w3\<rparr>)"
proof -
  have "open_until cd new_parser chunks p" by (rule open_until_incomplete [OF assms(5,6)])
  from read_loop_open [OF this assms(2), of reused False] assms(3)
  have "read_loop net cd (s_timeout_ms cfg) reused c new_parser False w1 =
      read_loop net cd (s_timeout_ms cfg) reused c p True w2" by simp
  also have "\<dots> = Some (Inr q, w3)"
    using assms(4,6,7) by (subst read_loop.simps) simp
  finally show ?thesis
    using assms(1,8,9) by (cases s) (simp add: exchange_def finish_exchange_def Let_def)
qed

text \<open>
  An informational response (1xx) is taken for the answer: the request returns it and the
  connection is pooled, with the final response still to be read from it, so that it becomes the
  answer of the next request on that connection.
\<close>

theorem interim_response_returned:
  assumes "head_ok w" "\<not> says_chunked w" "h_code w < 200" "version_text (h_major w) (h_minor w) = ''HTTP/1.1''"
    and "values_named (h_lines w) ''Connection'' = []"
    and "n_write net (s_timeout_ms cfg) c raw (world s) = (Inr (), w1)"
    and "serves net (s_timeout_ms cfg) c w1 chunks w2" "concat chunks = render_head w"
  shows "exchange net cd cfg c key raw reused s =
    Some (Inr ((parsed_response w [])\<lparr>resp_tls := Some (n_negotiated net c w2)\<rparr>),
      \<lparr>pool = give_conn key c (pool s), world = w2\<rparr>)"
proof -
  obtain q where q: "feed_list (feed cd) new_parser chunks = Inr q" "delivers q w [] []" "\<not> used_close_framing q"
    using bodiless_parsed [OF assms(1,2), of chunks "[]" cd] assms(3,8) by (auto simp: bodiless_def)
  then have r: "p_response q = Some (parsed_response w [])" "is_complete q" "p_buf q = []"
    by (simp_all add: delivers_def)
  have "get_header (headers_init (h_lines w)) ''Connection'' = None"
    using assms(5) unfolding headers_init_def by (simp add: hdr.lookup_items)
  then have "reusable q (parsed_response w [])"
    using q(3) assms(4) by (simp add: reusable_def parsed_response_def contains_Nil)
  then show ?thesis
    using exchange_served [OF assms(6,7) q(1) r(2,3), of key reused] r(1)
    by (cases s) (simp add: finish_exchange_def Let_def)
qed

section \<open>The properties on a scripted core\<close>

text \<open>
  A core with a script: the world is what is still to be read, an empty chunk being the end of
  the stream, and what was written. When the script is used up, reading times out.
\<close>

definition demo_negotiated :: negotiated where
  "demo_negotiated = \<lparr>neg_version = ''TLSv1.3'', neg_cipher = ''aes'', neg_group = ''x25519'',
     neg_group_code = 29, neg_alpn = [], neg_sni = ''h'', neg_peer_cert = []\<rparr>"

definition demo_net :: "(latin, bytes list \<times> bytes list) net" where
  "demo_net = \<lparr>n_connect = \<lambda>cfg t w. (Inr 5, w),
     n_write = \<lambda>ms c raw (script, sent). (Inr (), script, sent @ [raw]),
     n_read = \<lambda>ms c (script, sent). (case script of [] \<Rightarrow> (Inl ''timeout'', [], sent) | b # bs \<Rightarrow> (Inr b, bs, sent)),
     n_close = \<lambda>c w. w, n_negotiated = \<lambda>c w. demo_negotiated\<rparr>"

lemma demo_net_sel [simp]:
  "n_connect demo_net cfg t w = (Inr 5, w)"
  "n_write demo_net ms c raw (script, sent) = (Inr (), script, sent @ [raw])"
  "n_read demo_net ms c ([], sent) = (Inl ''timeout'', [], sent)"
  "n_read demo_net ms c (b # bs, sent) = (Inr b, bs, sent)"
  "n_close demo_net c w = w" "n_negotiated demo_net c w = demo_negotiated"
  by (simp_all add: demo_net_def)

definition demo_settings :: settings where
  "demo_settings = \<lparr>s_verify = True, s_cafile = [], s_timeout_ms = 30000, s_alpn = [''http/1.1''],
     s_groups = [29], s_extensions = [], s_follow_redirects = True, s_max_redirects = 10\<rparr>"

definition demo_unicode :: unicode where
  "demo_unicode = \<lparr>u_lower = \<lambda>s. s, u_upper = \<lambda>n. [Beyond n]\<rparr>"

definition demo_req :: "latin \<Rightarrow> req" where
  "demo_req m = \<lparr>r_method = lit m, r_headers = None, r_body = None\<rparr>"

lemma demo_reads_end: "reads_end demo_net ms c w"
proof -
  have "reads_end demo_net ms c (script, sent)" for script sent
  proof (induction script)
    case Nil
    show ?case by (rule end_error [of _ _ _ _ "''timeout''"]) simp
  next
    case (Cons b bs)
    show ?case by (rule end_chunk [OF _ Cons]) simp
  qed
  then show ?thesis by (cases w) simp
qed

definition demo_answer :: "bytes list" where
  "demo_answer = [''HTTP/1.1 200 OK'' @ crlf @ ''Content-Len'', ''gth: 2'' @ crlf @ crlf @ ''h'', ''i'']"

definition demo_request :: bytes where
  "demo_request = ''GET / HTTP/1.1'' @ crlf @ ''Host: h'' @ crlf @ crlf"

definition demo_target :: target where
  "demo_target = \<lparr>t_host = ''h'', t_port = 443, t_path = ''/''\<rparr>"

lemma demo_target_sel [simp]: "t_host demo_target = ''h''" "t_port demo_target = 443"
  by (simp_all add: demo_target_def)

lemma demo_build:
  "parse_url ''https://h'' = Inr demo_target"
  "build_request (u_lower demo_unicode) (r_method (demo_req ''GET'')) (lit (t_path demo_target))
     (lit (t_host demo_target)) (r_headers (demo_req ''GET'')) (r_body (demo_req ''GET'')) = Inr demo_request"
  by code_simp+

lemma perform_delivers_witness:
  "\<exists>r. content r = ''hi'' \<and> perform demo_net demo_codec demo_unicode demo_settings (demo_req ''GET'') ''https://h''
      \<lparr>pool = [], world = (demo_answer, [])\<rparr> =
    Some (Inr (r\<lparr>resp_tls := Some demo_negotiated\<rparr>), \<lparr>pool = [((''h'', 443), [5])], world = ([], [demo_request])\<rparr>)"
proof -
  let ?f = "feed_list (feed demo_codec) new_parser demo_answer"
  have "case ?f of Inl e \<Rightarrow> False | Inr q \<Rightarrow> is_complete q \<and> p_buf q = []
      \<and> (case p_response q of None \<Rightarrow> False | Some r \<Rightarrow> content r = ''hi'' \<and> reusable q r)"
    by code_simp
  then obtain q r where q: "?f = Inr q" "is_complete q" "p_buf q = []" "p_response q = Some r"
    "content r = ''hi''" "reusable q r"
    by (auto split: sum.splits option.splits)
  have served: "serves demo_net (s_timeout_ms demo_settings) 5 (demo_answer, [demo_request]) demo_answer ([], [demo_request])"
    by (simp add: demo_answer_def)
  show ?thesis
    using perform_delivers [OF demo_build _ _ _ served q(1,4,2,3), of "\<lparr>pool = [], world = (demo_answer, [])\<rparr>"] q(5,6)
    by (auto simp: idle_def give_conn_def)
qed

lemma stale_connection_retried_witness:
  "perform demo_net demo_codec demo_unicode demo_settings (demo_req ''GET'') ''https://h''
      \<lparr>pool = [((''h'', 443), [4])], world = ([] # demo_answer, [])\<rparr> =
    connect_fresh demo_net demo_codec demo_settings demo_target (''h'', 443)
      demo_request \<lparr>pool = [((''h'', 443), [])], world = (demo_answer, [demo_request])\<rparr>"
  using stale_connection_retried [OF demo_build, of
      "\<lparr>pool = [((''h'', 443), [4])], world = ([] # demo_answer, [])\<rparr>" 4 "[((''h'', 443), [])]" demo_net demo_settings
      "[]" "([] # demo_answer, [demo_request])" "(demo_answer, [demo_request])" demo_codec]
  by (simp add: take_conn_def)

lemma stale_never_escapes_witness:
  "BadTarget (NotHttps ''http'') \<noteq> (Stale :: latin failure)"
proof (rule stale_never_escapes)
  have "parse_url ''http://h'' = Inl (NotHttps ''http'')" by code_simp
  then show "client_request demo_net demo_codec demo_unicode demo_settings (demo_req ''GET'') ''http://h''
      \<lparr>pool = [], world = ([], [])\<rparr> = Some (Inl (BadTarget (NotHttps ''http'')), \<lparr>pool = [], world = ([], [])\<rparr>)"
    by (simp add: client_request_def request_loop_unfold perform_def)
qed

lemma request_returns_witness:
  "\<exists>result s'. client_request demo_net demo_codec demo_unicode demo_settings (demo_req ''GET'') ''https://h''
     \<lparr>pool = [], world = (demo_answer, [])\<rparr> = Some (result, s')"
  by (rule request_returns) (rule demo_reads_end)

lemma request_follows_redirects_witness:
  "\<exists>result s' n rq' u' s1. hops (perform demo_net demo_codec demo_unicode demo_settings) demo_unicode demo_settings
      (demo_req ''GET''\<lparr>r_method := ustr_upper (u_upper demo_unicode) (r_method (demo_req ''GET''))\<rparr>) ''https://h''
      \<lparr>pool = [], world = (demo_answer, [])\<rparr> n rq' u' s1
    \<and> n \<le> nat (s_max_redirects demo_settings)
    \<and> ends_with (perform demo_net demo_codec demo_unicode demo_settings) demo_unicode demo_settings
        (n = nat (s_max_redirects demo_settings)) rq' u' s1 result s'"
proof -
  have "client_request demo_net demo_codec demo_unicode demo_settings (demo_req ''GET'') ''https://h''
      \<lparr>pool = [], world = (demo_answer, [])\<rparr> \<noteq> None"
    unfolding client_request_def
    by (rule request_loop_returns) (rule perform_returns [OF demo_reads_end])
  then obtain result s' where "client_request demo_net demo_codec demo_unicode demo_settings (demo_req ''GET'')
      ''https://h'' \<lparr>pool = [], world = (demo_answer, [])\<rparr> = Some (result, s')"
    by auto
  from request_follows_redirects [OF this] show ?thesis by blast
qed

definition cut_answer :: "bytes list" where
  "cut_answer = [''HTTP/1.1 200 OK'' @ crlf @ ''Content-Length: 9'' @ crlf @ crlf @ ''par'', ''t'']"

lemma ended_connection_pooled_witness:
  "\<exists>r. content r = ''part'' \<and> exchange demo_net demo_codec demo_settings 5 (''h'', 443) demo_request False
      \<lparr>pool = [], world = (cut_answer @ [[]], [])\<rparr> =
    Some (Inr (r\<lparr>resp_tls := Some demo_negotiated\<rparr>), \<lparr>pool = [((''h'', 443), [5])], world = ([], [demo_request])\<rparr>)"
proof -
  let ?f = "feed_list (feed demo_codec) new_parser cut_answer"
  have "case ?f of Inl e \<Rightarrow> False | Inr p \<Rightarrow> \<not> is_complete p
      \<and> (case feed_eof demo_codec p of Inl e \<Rightarrow> False | Inr q \<Rightarrow>
          (case p_response q of None \<Rightarrow> False | Some r \<Rightarrow> content r = ''part'' \<and> reusable q r))"
    by code_simp
  then obtain p q r where q: "?f = Inr p" "\<not> is_complete p" "feed_eof demo_codec p = Inr q"
    "p_response q = Some r" "reusable q r" and r: "content r = ''part''"
    by (auto split: sum.splits option.splits)
  have served: "serves demo_net (s_timeout_ms demo_settings) 5 (cut_answer @ [[]], [demo_request]) cut_answer ([[]], [demo_request])"
    by (simp add: cut_answer_def)
  show ?thesis
    using ended_connection_pooled [OF _ served _ _ q, of demo_request "\<lparr>pool = [], world = (cut_answer @ [[]], [])\<rparr>"
        "([], [demo_request])" "(''h'', 443)" False] r
    by (auto simp: give_conn_def cut_answer_def)
qed

lemma interim_response_returned_witness:
  "exchange demo_net demo_codec demo_settings 5 (''h'', 443) demo_request False
      \<lparr>pool = [], world = ([''HTTP/1.1 103 OK'' @ crlf, crlf, ''HTTP/1.1 200 OK''], [])\<rparr> =
    Some (Inr ((parsed_response (demo_head 103 []) [])\<lparr>resp_tls := Some demo_negotiated\<rparr>),
      \<lparr>pool = [((''h'', 443), [5])], world = ([''HTTP/1.1 200 OK''], [demo_request])\<rparr>)"
proof -
  let ?w = "demo_head 103 []" and ?chunks = "[''HTTP/1.1 103 OK'' @ crlf, crlf]"
  have h: "head_ok ?w" "\<not> says_chunked ?w" "h_code ?w < 200"
    "version_text (h_major ?w) (h_minor ?w) = ''HTTP/1.1''" "values_named (h_lines ?w) ''Connection'' = []"
    by code_simp+
  have head: "concat ?chunks = render_head ?w" by code_simp
  have served: "serves demo_net (s_timeout_ms demo_settings) 5 (?chunks @ [''HTTP/1.1 200 OK''], [demo_request])
      ?chunks ([''HTTP/1.1 200 OK''], [demo_request])"
    by simp
  show ?thesis
    using interim_response_returned [OF h _ served head, of demo_request
        "\<lparr>pool = [], world = (?chunks @ [''HTTP/1.1 200 OK''], [])\<rparr>" demo_codec "(''h'', 443)" False]
    by (simp add: give_conn_def)
qed

end
