(* ===== verification/Client_Secure.thy ===== *)
theory Client_Secure
  imports Client_Props
begin

text \<open>
  What a client relies on for the identity of servers, as the interface \<open>secure_net\<close>: a new
  connection is good for its host and port, and whatever is done to other connections or to it, it
  stays good. Then a client that starts with an empty pool talks to good connections alone,
  through redirects and over the connections that it keeps.
\<close>

section \<open>Requests of one client\<close>

text \<open>One after the other, with what each returned; \<open>None\<close> when one of them does not return.\<close>

fun client_requests ::
    "('x, 'w) net \<Rightarrow> codec \<Rightarrow> unicode \<Rightarrow> settings \<Rightarrow> (req \<times> latin) list \<Rightarrow> 'w session
      \<Rightarrow> (('x failure + response) list \<times> 'w session) option" where
  "client_requests net cd uni cfg [] s = Some ([], s)"
| "client_requests net cd uni cfg ((rq, u) # rest) s =
     (case client_request net cd uni cfg rq u s of
        None \<Rightarrow> None
      | Some (r, s) \<Rightarrow> map_option (\<lambda>(rs, s). (r # rs, s)) (client_requests net cd uni cfg rest s))"

section \<open>The interface\<close>

locale secure_net =
  fixes net :: "('x, 'w) net"
    and cfg :: settings
    and good :: "'w \<Rightarrow> key \<Rightarrow> conn \<Rightarrow> bool"
  assumes connect_good: "n_connect net cfg t w = (Inr c, w') \<Longrightarrow> good w' (t_host t, t_port t) c"
    and connect_keeps: "n_connect net cfg t w = (r, w') \<Longrightarrow> good w key c \<Longrightarrow> good w' key c"
    and write_keeps: "n_write net ms d raw w = (r', w') \<Longrightarrow> good w key c \<Longrightarrow> good w' key c"
    and read_keeps: "n_read net ms d w = (r'', w') \<Longrightarrow> good w key c \<Longrightarrow> good w' key c"
    and close_keeps: "good w key c \<Longrightarrow> good (n_close net d w) key c"
begin

definition pool_good :: "'w session \<Rightarrow> bool" where
  "pool_good s \<longleftrightarrow> (\<forall>key. \<forall>c \<in> set (idle (pool s) key). good (world s) key c)"

text \<open>The parameters in a response are those of a connection that was good for its URL.\<close>

definition from_good :: "latin \<Rightarrow> response \<Rightarrow> bool" where
  "from_good u resp \<longleftrightarrow> (\<exists>t c w. parse_url u = Inr t \<and> good w (t_host t, t_port t) c
     \<and> resp_tls resp = Some (n_negotiated net c w))"

lemma read_loop_keeps:
  assumes "read_loop net cd ms reused d p received w = Some (r, w')" "good w key c"
  shows "good w' key c"
proof -
  have "net' = net \<longrightarrow> good w key c \<longrightarrow> good (snd rw) key c"
    if "read_loop net' cd ms reused d p received w = Some rw" for net' cd ms reused d p received w rw
  proof (rule read_loop.raw_induct [where P = "\<lambda>net' cd ms reused d p received w rw.
        net' = net \<longrightarrow> good w key c \<longrightarrow> good (snd rw) key c", OF _ that], goal_cases)
    case (1 f net' cd ms reused d p received w rw)
    note IH = 1(1) and eq = 1(2)
    show ?case
    proof (intro impI)
      assume n: "net' = net" and g: "good w key c"
      obtain x w1 where x: "n_read net ms d w = (x, w1)" by fastforce
      note g1 = read_keeps [OF x g]
      consider (complete) "is_complete p" | (settled) "\<not> is_complete p" "x = Inr [] \<or> (\<exists>e. x = Inl e)"
        | (fed) b where "\<not> is_complete p" "x = Inr b" "b \<noteq> []" by (cases x) auto
      then show "good (snd rw) key c"
      proof cases
        case complete
        with eq g show ?thesis by auto
      next
        case settled
        with eq x g1 n show ?thesis by (auto split: sum.splits prod.splits if_splits)
      next
        case (fed b)
        show ?thesis
        proof (cases "feed cd p b")
          case (Inl e)
          with eq fed x g1 n show ?thesis by (cases e) auto
        next
          case (Inr q)
          with eq fed x n have "f net cd ms reused d q True w1 = Some rw" by simp
          from IH [OF this] g1 show ?thesis by blast
        qed
      qed
    qed
  qed
  from this [OF assms(1)] assms(2) show ?thesis by simp
qed

lemma exchange_good:
  assumes "exchange net cd cfg' c key raw reused s = Some (r, s')" "pool_good s" "good (world s) key c"
  shows "pool_good s' \<and> good (world s') key c
    \<and> (\<forall>resp. r = Inr resp \<longrightarrow> (\<exists>w. good w key c \<and> resp_tls resp = Some (n_negotiated net c w)))"
proof -
  obtain r1 w1 where w: "n_write net (s_timeout_ms cfg') c raw (world s) = (r1, w1)" by fastforce
  have keep: "pool_good (s\<lparr>world := w\<rparr>)" if "\<And>k d. good (world s) k d \<Longrightarrow> good w k d" for w
    using assms(2) that by (auto simp: pool_good_def)
  show ?thesis
  proof (cases r1)
    case (Inl e)
    with assms(1) w have "s' = s\<lparr>world := w1\<rparr>" "\<exists>f. r = Inl f" by (auto simp: exchange_def)
    with keep [of w1] write_keeps [OF w] assms(3) show ?thesis by auto
  next
    case (Inr u)
    obtain x where x: "read_loop net cd (s_timeout_ms cfg') reused c new_parser False w1 = Some x"
      using assms(1) w Inr by (auto simp: exchange_def split: option.splits)
    obtain r2 w2 where x2: "x = (r2, w2)" by fastforce
    note l = read_loop_keeps [OF x [unfolded x2] write_keeps [OF w]]
    show ?thesis
    proof (cases r2)
      case (Inl f)
      with assms(1) w \<open>r1 = Inr u\<close> x x2 have "s' = s\<lparr>world := w2\<rparr>" "r = Inl f" by (auto simp: exchange_def)
      with keep [of w2] l assms(3) show ?thesis by auto
    next
      case (Inr q)
      let ?s = "s\<lparr>world := w2\<rparr>"
      have f: "finish_exchange net reused c key q ?s = (r, s')"
        using assms(1) w \<open>r1 = Inr u\<close> x x2 Inr by (simp add: exchange_def)
      have p: "pool_good ?s" "good w2 key c" using keep [of w2] l assms(3) by auto
      then have "pool_good (?s\<lparr>pool := give_conn key c (pool ?s)\<rparr>)"
        by (auto simp: pool_good_def give_conn_def idle_def dict_get_set split: option.splits if_splits)
      moreover have "pool_good (?s\<lparr>world := n_close net c w2\<rparr>)" "good (n_close net c w2) key c"
        using p close_keeps by (auto simp: pool_good_def)
      ultimately show ?thesis
        using f p by (auto simp: finish_exchange_def Let_def split: option.splits if_splits)
    qed
  qed
qed

lemma connect_fresh_good:
  assumes "connect_fresh net cd cfg t (t_host t, t_port t) raw s = Some (r, s')" "pool_good s"
  shows "pool_good s' \<and> (\<forall>resp. r = Inr resp \<longrightarrow> (\<exists>c w. good w (t_host t, t_port t) c
    \<and> resp_tls resp = Some (n_negotiated net c w)))"
proof -
  obtain r1 w1 where c: "n_connect net cfg t (world s) = (r1, w1)" by fastforce
  have p: "pool_good (s\<lparr>world := w1\<rparr>)"
    using assms(2) connect_keeps [OF c] by (auto simp: pool_good_def)
  show ?thesis
  proof (cases r1)
    case (Inl e)
    with assms(1) c p show ?thesis by (auto simp: connect_fresh_def)
  next
    case (Inr d)
    with assms(1) c have e: "exchange net cd cfg d (t_host t, t_port t) raw False (s\<lparr>world := w1\<rparr>) = Some (r, s')"
      by (simp add: connect_fresh_def)
    have "good (world (s\<lparr>world := w1\<rparr>)) (t_host t, t_port t) d"
      using connect_good [OF c [unfolded Inr]] by simp
    from exchange_good [OF e p this] show ?thesis by blast
  qed
qed

lemma take_conn_idle:
  "take_conn key p = (x, p') \<Longrightarrow> set (idle p' k) \<subseteq> set (idle p k) \<and> (\<forall>c. x = Some c \<longrightarrow> c \<in> set (idle p key))"
  by (auto simp: take_conn_def idle_def dict_get_set split: option.splits if_splits dest: in_set_butlastD)

lemma perform_good:
  assumes "perform net cd uni cfg rq u s = Some (r, s')" "pool_good s"
  shows "pool_good s' \<and> (\<forall>resp. r = Inr resp \<longrightarrow> from_good u resp)"
proof (cases "parse_url u")
  case (Inl e)
  with assms show ?thesis by (auto simp: perform_def)
next
  case (Inr t)
  let ?key = "(t_host t, t_port t)"
  obtain b where b: "build_request (u_lower uni) (r_method rq) (lit (t_path t)) (lit (t_host t)) (r_headers rq) (r_body rq) = b"
    by simp
  obtain x p where x: "take_conn ?key (pool s) = (x, p)" by fastforce
  have p: "pool_good (s\<lparr>pool := p\<rparr>)"
    using assms(2) take_conn_idle [OF x] by (fastforce simp: pool_good_def)
  show ?thesis
  proof (cases b)
    case (Inl e)
    with assms \<open>parse_url u = Inr t\<close> b show ?thesis by (auto simp: perform_def Let_def)
  next
    case raw: (Inr raw)
    show ?thesis
    proof (cases x)
      case None
      with assms(1) Inr b raw x have "connect_fresh net cd cfg t ?key raw (s\<lparr>pool := p\<rparr>) = Some (r, s')"
        by (simp add: perform_def Let_def)
      from connect_fresh_good [OF this p] Inr show ?thesis by (auto simp: from_good_def)
    next
      case (Some c)
      have "good (world (s\<lparr>pool := p\<rparr>)) ?key c"
        using assms(2) take_conn_idle [OF x] Some by (auto simp: pool_good_def)
      note ex = exchange_good [OF _ p this]
      obtain y where y: "exchange net cd cfg c ?key raw True (s\<lparr>pool := p\<rparr>) = Some y"
        using assms(1) Inr b raw x Some by (auto simp: perform_def Let_def split: option.splits)
      obtain r1 s1 where y1: "y = (r1, s1)" by fastforce
      note g = ex [OF y [unfolded y1]]
      show ?thesis
      proof (cases "r1 = Inl Stale")
        case True
        let ?s = "s1\<lparr>world := n_close net c (world s1)\<rparr>"
        have "connect_fresh net cd cfg t ?key raw ?s = Some (r, s')"
          using assms(1) Inr b raw x Some y y1 True by (simp add: perform_def Let_def)
        moreover have "pool_good ?s" using g close_keeps by (auto simp: pool_good_def)
        ultimately show ?thesis using connect_fresh_good Inr by (auto simp: from_good_def)
      next
        case False
        then have "r = r1" "s' = s1"
          using assms(1) Inr b raw x Some y y1
          by (auto simp: perform_def Let_def split: sum.splits failure.splits)
        with g Inr show ?thesis by (auto simp: from_good_def)
      qed
    qed
  qed
qed

lemma hops_good:
  assumes "hops (perform net cd uni cfg) uni cfg rq u s n rq' u' s'" "pool_good s"
  shows "pool_good s'"
  using assms by (induction rule: hops.induct) (blast dest: perform_good)+

lemma ends_good:
  assumes "ends_with (perform net cd uni cfg) uni cfg at_limit rq u s r s'" "pool_good s"
  shows "pool_good s' \<and> (\<forall>resp. r = Inr resp \<longrightarrow> from_good (resp_url resp) resp)"
proof -
  from assms(1) obtain x s1 where x1: "perform net cd uni cfg rq u s = Some (x, s1)"
    by (auto simp: ends_with_def split: option.splits)
  with assms(1) have "s1 = s'" by (cases x) (auto simp: ends_with_def)
  with x1 have x: "perform net cd uni cfg rq u s = Some (x, s')" by simp
  note g = perform_good [OF x assms(2)]
  have "\<exists>q. x = Inr q \<and> resp = q\<lparr>resp_url := u\<rparr>" if "r = Inr resp" for resp
    using assms(1) x that by (auto simp: ends_with_def split: option.splits sum.splits prod.splits)
  with g show ?thesis by (fastforce simp: from_good_def)
qed

lemma client_request_good:
  "client_request net cd uni cfg rq u s = Some (r, s') \<Longrightarrow> pool_good s \<Longrightarrow>
    pool_good s' \<and> (\<forall>resp. r = Inr resp \<longrightarrow> from_good (resp_url resp) resp)"
  unfolding client_request_def by (blast dest: request_loop_hops hops_good ends_good)

lemma client_requests_good:
  "client_requests net cd uni cfg rqs s = Some (rs, s') \<Longrightarrow> pool_good s \<Longrightarrow>
    Inr resp \<in> set rs \<Longrightarrow> from_good (resp_url resp) resp"
  by (induction rqs arbitrary: s rs) (fastforce dest: client_request_good split: option.splits)+

lemma empty_pool_good: "pool s = [] \<Longrightarrow> pool_good s"
  by (simp add: pool_good_def idle_def)

end

end
