(* ===== verification/Core_Client.thy ===== *)
theory Core_Client
  imports Core_Handshake Client_Secure
begin

text \<open>
  The blocking client over the native core: the connections that a client opens, each with its own
  handshake, reads and writes in \<open>_core.cpp\<close>, as the \<open>net\<close> of the model of the client. It meets the
  interface \<open>secure_net\<close>, so that every response of a client that verifies comes from a server
  that the certificate check let in for that URL.
\<close>

section \<open>The connections of a client\<close>

text \<open>
  What is outside for each connection, by its number: what constructors throw, what Fizz reports
  when it is given an address and its setup, how each write fares and what comes over the network
  because of it, and how many of the events that are due the loop handles before each call.
\<close>

datatype write_outcome = NotGood | WriteFails bool latin | Written

record 'c outside =
  ou_chain :: "latin \<Rightarrow> 'c verifier option"
  ou_throws :: "conn \<Rightarrow> throws"
  ou_events :: "conn \<Rightarrow> key \<Rightarrow> 'c fizz_setup option \<Rightarrow> 'c life_event list"
  ou_writes :: "conn \<Rightarrow> (write_outcome \<times> 'c life_event list) list"
  ou_early :: "conn \<Rightarrow> nat list"

record 'c client_conn =
  cn_core :: "'c core_full"
  cn_events :: "'c life_event list"
  cn_early :: "nat list"
  cn_writes :: "(write_outcome \<times> 'c life_event list) list"

record 'c client_world =
  cw_next :: nat
  cw_conns :: "conn \<Rightarrow> 'c client_conn"

definition no_connections :: "'c client_world" where
  "no_connections = \<lparr>cw_next = 0, cw_conns = \<lambda>k. \<lparr>cn_core = core_new, cn_events = [], cn_early = [], cn_writes = []\<rparr>\<rparr>"

definition put_conn :: "conn \<Rightarrow> 'c client_conn \<Rightarrow> 'c client_world \<Rightarrow> 'c client_world" where
  "put_conn k n w = w\<lparr>cw_conns := (cw_conns w)(k := n)\<rparr>"

section \<open>Blocking calls\<close>

text \<open>
  Before a call reaches the loop, the loop has handled some of what came; then the caller waits
  for its callback while the loop goes on.
\<close>

definition loop_handles :: "'c life_event list \<Rightarrow> 'c core_full \<Rightarrow> 'c core_full" where
  "loop_handles es c = foldl (\<lambda>c e. fst (life_step e c)) c es"

definition conn_until_call :: "'c client_conn \<Rightarrow> 'c client_conn" where
  "conn_until_call n =
     (let m = (case cn_early n of [] \<Rightarrow> 0 | m # _ \<Rightarrow> m) in
      n\<lparr>cn_core := loop_handles (take m (cn_events n)) (cn_core n), cn_events := drop m (cn_events n),
        cn_early := tl (cn_early n)\<rparr>)"

fun await_verdict :: "'c life_event list \<Rightarrow> 'c core_full \<times> effect list \<Rightarrow> effect option \<times> 'c core_full \<times> 'c life_event list" where
  "await_verdict es (c, out) =
     (case verdicts out of
        v # _ \<Rightarrow> (Some v, c, es)
      | [] \<Rightarrow> (case es of [] \<Rightarrow> (None, c, []) | e # es \<Rightarrow> await_verdict es (life_step e c)))"

fun answers_of :: "effect list \<Rightarrow> answers" where
  "answers_of [] = []"
| "answers_of (Answers out # rest) = out @ answers_of rest"
| "answers_of (_ # rest) = answers_of rest"

fun await_answer :: "'c life_event list \<Rightarrow> 'c core_full \<times> effect list \<Rightarrow> core_answer option \<times> 'c core_full \<times> 'c life_event list" where
  "await_answer es (c, out) =
     (case answers_of out of
        (p, a) # _ \<Rightarrow> (Some a, c, es)
      | [] \<Rightarrow> (case es of [] \<Rightarrow> (None, c, []) | e # es \<Rightarrow> await_answer es (life_step e c)))"

text \<open>What they raise: an error of the handshake, or one of reading and writing.\<close>

datatype core_raised = HandshakeRaised tls_error | IoRaised core_failure

fun raised_as :: "core_failure + 'a \<Rightarrow> core_raised + 'a" where
  "raised_as (Inl e) = Inl (IoRaised e)"
| "raised_as (Inr a) = Inr a"

text \<open>\<open>_connect\<close>: the host is the name to ask for and to check, too.\<close>

definition connect_request :: "settings \<Rightarrow> target \<Rightarrow> request" where
  "connect_request cfg t =
     \<lparr>q_sni = t_host t, q_alpns = s_alpn cfg, q_groups = s_groups cfg, q_verify = s_verify cfg, q_ca_file = s_cafile cfg,
      q_timeout_ms = nat (s_timeout_ms cfg), q_extensions = map (\<lambda>(n, d). (nat n, d)) (s_extensions cfg)\<rparr>"

definition client_connect ::
    "'c outside \<Rightarrow> settings \<Rightarrow> target \<Rightarrow> 'c client_world \<Rightarrow> (core_raised + conn) \<times> 'c client_world" where
  "client_connect ou cfg t w =
     (let k = cw_next w;
          (c, out) = connect_to (ou_chain ou) (ou_throws ou k) (connect_request cfg t) core_new;
          (v, c, es) = await_verdict (ou_events ou k (t_host t, t_port t) (cf_setup c)) (c, out);
          w = put_conn k \<lparr>cn_core = c, cn_events = es, cn_early = ou_early ou k, cn_writes = ou_writes ou k\<rparr> (w\<lparr>cw_next := k + 1\<rparr>) in
      (case v of
         None \<Rightarrow> Inl (IoRaised NeverAnswered)
       | Some (HandshakeFailed e) \<Rightarrow> Inl (HandshakeRaised e)
       | Some _ \<Rightarrow> Inr k, w))"

text \<open>
  \<open>write\<close>, with \<open>writeSuccess\<close> and \<open>writeErr\<close>; what comes because of a write, such as the answer to a
  request, is due from then on. Events between a write and its callback are among those before the
  next call.
\<close>

fun write_answers :: "write_outcome \<Rightarrow> core_conn \<Rightarrow> answers" where
  "write_answers NotGood c = snd (core_write False 0 c)"
| "write_answers (WriteFails timed_out msg) c = snd (core_write True 0 c) @ write_err 0 timed_out msg"
| "write_answers Written c = snd (core_write True 0 c) @ write_success 0"

definition client_write :: "int \<Rightarrow> conn \<Rightarrow> bytes \<Rightarrow> 'c client_world \<Rightarrow> (core_raised + unit) \<times> 'c client_world" where
  "client_write ms k raw w =
     (let n = conn_until_call (cw_conns w k) in
      case cn_writes n of
        [] \<Rightarrow> (Inl (IoRaised NeverAnswered), put_conn k n w)
      | (o1, es) # os \<Rightarrow>
          (case write_answers o1 (cf_conn (cn_core n)) of
             (p, Rejected e) # _ \<Rightarrow> Inl (IoRaised (Failed e))
           | _ \<Rightarrow> Inr (),
           put_conn k (n\<lparr>cn_events := cn_events n @ es, cn_writes := os\<rparr>) w))"

definition client_read :: "int \<Rightarrow> conn \<Rightarrow> 'c client_world \<Rightarrow> (core_raised + bytes) \<times> 'c client_world" where
  "client_read ms k w =
     (let n = conn_until_call (cw_conns w k);
          (a, c, es) = await_answer (cn_events n) (life_step (Reading (ReadCall (nat ms) 0)) (cn_core n)) in
      (case a of None \<Rightarrow> Inl (IoRaised NeverAnswered) | Some a \<Rightarrow> raised_as (answer_result a),
       put_conn k (n\<lparr>cn_core := c, cn_events := es\<rparr>) w))"

definition conn_close :: "conn \<Rightarrow> 'c client_world \<Rightarrow> 'c client_world" where
  "conn_close k w = (let n = conn_until_call (cw_conns w k) in put_conn k (n\<lparr>cn_core := fst (full_close (cn_core n))\<rparr>) w)"

definition client_net :: "'c outside \<Rightarrow> (core_raised, 'c client_world) net" where
  "client_net ou = \<lparr>n_connect = client_connect ou, n_write = client_write, n_read = client_read,
     n_close = conn_close, n_negotiated = \<lambda>k w. cf_neg (cn_core (cw_conns w k))\<rparr>"

section \<open>What a connection keeps\<close>

lemma life_step_settled:
  "life_step e c = (c', out) \<Longrightarrow> \<not> cf_promise c \<Longrightarrow> \<not> cf_promise c' \<and> cf_neg c' = cf_neg c"
  by (cases e) (auto simp: close_handle_def full_close_def Let_def split: prod.splits if_splits)

lemma loop_handles_settled:
  "\<not> cf_promise c \<Longrightarrow> \<not> cf_promise (loop_handles es c) \<and> cf_neg (loop_handles es c) = cf_neg c"
proof (induction es arbitrary: c)
  case (Cons e es)
  have "loop_handles (e # es) c = loop_handles es (fst (life_step e c))" by (simp add: loop_handles_def)
  with Cons life_step_settled [OF prod.collapse [symmetric, of "life_step e c"]] show ?case by simp
qed (simp add: loop_handles_def)

lemma conn_until_call_settled:
  "\<not> cf_promise (cn_core n) \<Longrightarrow> \<not> cf_promise (cn_core (conn_until_call n))
    \<and> cf_neg (cn_core (conn_until_call n)) = cf_neg (cn_core n)"
  by (simp add: conn_until_call_def Let_def loop_handles_settled)

lemma life_step_pending:
  assumes "life_step e c = (c', out)" "cf_promise c"
  shows "verdicts out = [] \<and> cf_promise c' \<and> cf_neg c' = cf_neg c
    \<or> (\<exists>x. verdicts out = [HandshakeFailed x])
    \<or> verdicts out = [HandshakeDone] \<and> \<not> cf_promise c'
      \<and> (\<exists>certs st. e = Succeeds certs st \<and> cf_neg c' = capture_negotiated st (cf_neg c))"
  using assms
  by (cases e) (auto simp: handshake_success_def handshake_error_def connect_err_def close_handle_def full_close_def Let_def
      split: prod.splits if_splits option.splits)

lemma await_answer_settled:
  "await_answer es (c, out) = (a, c', es') \<Longrightarrow> \<not> cf_promise c \<Longrightarrow> \<not> cf_promise c' \<and> cf_neg c' = cf_neg c"
proof (induction es arbitrary: c out)
  case Nil
  then show ?case by (auto split: list.splits prod.splits)
next
  case (Cons e es)
  obtain c1 o1 where one: "life_step e c = (c1, o1)" by fastforce
  with Cons life_step_settled [OF one] show ?case by (cases "answers_of out") (auto split: prod.splits)
qed

lemma await_verdict_done:
  assumes "await_verdict es (c, out) = (Some v, c', es')" "\<forall>x. v \<noteq> HandshakeFailed x" "verdicts out = []" "cf_promise c"
  shows "\<not> cf_promise c' \<and> (\<exists>certs st. Succeeds certs st \<in> set es \<and> cf_neg c' = capture_negotiated st (cf_neg c))"
  using assms
proof (induction es arbitrary: c out)
  case Nil
  then show ?case by simp
next
  case (Cons e es)
  obtain c1 o1 where one: "life_step e c = (c1, o1)" by fastforce
  have next_await: "await_verdict es (c1, o1) = (Some v, c', es')" using Cons.prems(1,3) one by simp
  from life_step_pending [OF one Cons.prems(4)] show ?case
  proof (elim disjE conjE exE)
    assume "verdicts o1 = []" "cf_promise c1" "cf_neg c1 = cf_neg c"
    with Cons.IH [OF next_await Cons.prems(2)] show ?thesis by auto
  next
    fix x
    assume "verdicts o1 = [HandshakeFailed x]"
    with next_await Cons.prems(2) show ?thesis by (cases es) auto
  next
    fix certs st
    assume "verdicts o1 = [HandshakeDone]" "\<not> cf_promise c1" "e = Succeeds certs st"
      "cf_neg c1 = capture_negotiated st (cf_neg c)"
    with next_await show ?thesis by (cases es) auto
  qed
qed

lemma connect_to_outcome:
  assumes "connect_to make_chain th q core_new = (c, out)"
  shows "(\<exists>x. verdicts out = [HandshakeFailed x])
    \<or> verdicts out = [] \<and> cf_promise c \<and> cf_neg c = no_params
      \<and> (\<exists>su. build_setup make_chain q = Inr su \<and> cf_setup c = Some su)"
  using assms by (auto simp: connect_to_def Let_def core_new_def split: sum.splits option.splits)

section \<open>The interface met\<close>

text \<open>The parameters of a handshake that succeeded, set up for an address under these settings.\<close>

definition handshaken :: "'c outside \<Rightarrow> settings \<Rightarrow> key \<Rightarrow> conn \<Rightarrow> negotiated \<Rightarrow> bool" where
  "handshaken ou cfg key k neg \<longleftrightarrow> (\<exists>t su certs st. (t_host t, t_port t) = key
     \<and> build_setup (ou_chain ou) (connect_request cfg t) = Inr su
     \<and> Succeeds certs st \<in> set (ou_events ou k key (Some su))
     \<and> neg = capture_negotiated st no_params)"

definition conn_for :: "'c outside \<Rightarrow> settings \<Rightarrow> 'c client_world \<Rightarrow> key \<Rightarrow> conn \<Rightarrow> bool" where
  "conn_for ou cfg w key k \<longleftrightarrow> k < cw_next w \<and> \<not> cf_promise (cn_core (cw_conns w k))
     \<and> handshaken ou cfg key k (cf_neg (cn_core (cw_conns w k)))"

lemma conn_for_put:
  "conn_for ou cfg w key k \<Longrightarrow> \<not> cf_promise (cn_core (cw_conns w d)) \<longrightarrow> \<not> cf_promise (cn_core n)
    \<and> cf_neg (cn_core n) = cf_neg (cn_core (cw_conns w d)) \<Longrightarrow> conn_for ou cfg (put_conn d n w) key k"
  by (auto simp: conn_for_def put_conn_def)

lemma client_connect_keeps:
  "client_connect ou cfg t w = (r, w') \<Longrightarrow> conn_for ou cfg w key k \<Longrightarrow> conn_for ou cfg w' key k"
  by (auto simp: client_connect_def Let_def conn_for_def put_conn_def split: prod.splits)

lemma client_connect_for:
  assumes "client_connect ou cfg t w = (Inr k, w')"
  shows "conn_for ou cfg w' (t_host t, t_port t) k"
proof -
  let ?q = "connect_request cfg t" and ?k = "cw_next w"
  obtain c out where c: "connect_to (ou_chain ou) (ou_throws ou ?k) ?q core_new = (c, out)" by fastforce
  obtain v c' es where v: "await_verdict (ou_events ou ?k (t_host t, t_port t) (cf_setup c)) (c, out) = (v, c', es)"
    by (metis prod_cases3)
  from assms c v obtain x where x: "v = Some x" "\<forall>e. x \<noteq> HandshakeFailed e" "k = ?k"
    and w': "w' = put_conn ?k \<lparr>cn_core = c', cn_events = es, cn_early = ou_early ou ?k, cn_writes = ou_writes ou ?k\<rparr> (w\<lparr>cw_next := ?k + 1\<rparr>)"
    by (auto simp: client_connect_def Let_def split: option.splits effect.splits)
  from connect_to_outcome [OF c] show ?thesis
  proof (elim disjE exE conjE)
    fix e
    assume "verdicts out = [HandshakeFailed e]"
    with v x show ?thesis by (auto split: list.splits)
  next
    fix su
    assume "verdicts out = []" "cf_promise c" "cf_neg c = no_params"
      and su: "build_setup (ou_chain ou) ?q = Inr su" "cf_setup c = Some su"
    with await_verdict_done [OF v [unfolded x(1)] x(2)] obtain certs st where
      "Succeeds certs st \<in> set (ou_events ou ?k (t_host t, t_port t) (Some su))" "\<not> cf_promise c'"
      "cf_neg c' = capture_negotiated st no_params" by auto
    with su(1) w' x(3) show ?thesis by (auto simp: conn_for_def put_conn_def handshaken_def)
  qed
qed

lemma client_write_keeps:
  "client_write ms d raw w = (r, w') \<Longrightarrow> conn_for ou cfg w key k \<Longrightarrow> conn_for ou cfg w' key k"
  by (auto simp: client_write_def Let_def conn_until_call_settled intro!: conn_for_put split: list.splits)

lemma client_read_keeps:
  assumes "client_read ms d w = (r, w')" "conn_for ou cfg w key k"
  shows "conn_for ou cfg w' key k"
proof -
  let ?n = "conn_until_call (cw_conns w d)"
  obtain c1 o1 where one: "life_step (Reading (ReadCall (nat ms) 0)) (cn_core ?n) = (c1, o1)" by fastforce
  obtain a c es where a: "await_answer (cn_events ?n) (c1, o1) = (a, c, es)" by (metis prod_cases3)
  have "w' = put_conn d (?n\<lparr>cn_core := c, cn_events := es\<rparr>) w"
    using assms(1) unfolding client_read_def Let_def one a by simp
  moreover have "\<not> cf_promise (cn_core (cw_conns w d)) \<longrightarrow> \<not> cf_promise c \<and> cf_neg c = cf_neg (cn_core (cw_conns w d))"
    using life_step_settled [OF one] await_answer_settled [OF a] conn_until_call_settled [of "cw_conns w d"] by auto
  ultimately show ?thesis using conn_for_put [OF assms(2), of d] by simp
qed

lemma full_close_settled: "cf_promise (fst (full_close c)) = cf_promise c \<and> cf_neg (fst (full_close c)) = cf_neg c"
  by (simp add: full_close_def close_handle_def Let_def)

lemma conn_close_keeps: "conn_for ou cfg w key k \<Longrightarrow> conn_for ou cfg (conn_close d w) key k"
  unfolding conn_close_def Let_def
  by (rule conn_for_put) (simp_all add: conn_until_call_settled full_close_settled)

interpretation client_core: secure_net "client_net ou" cfg "conn_for ou cfg" for ou cfg
proof unfold_locales
  show "n_connect (client_net ou) cfg t w = (Inr c, w') \<Longrightarrow> conn_for ou cfg w' (t_host t, t_port t) c" for t w c w'
    by (simp add: client_net_def client_connect_for)
  show "n_connect (client_net ou) cfg t w = (r, w') \<Longrightarrow> conn_for ou cfg w key c \<Longrightarrow> conn_for ou cfg w' key c"
    for t w r w' key c by (simp add: client_net_def client_connect_keeps)
  show "n_write (client_net ou) ms d raw w = (r, w') \<Longrightarrow> conn_for ou cfg w key c \<Longrightarrow> conn_for ou cfg w' key c"
    for ms d raw w r w' key c by (simp add: client_net_def client_write_keeps)
  show "n_read (client_net ou) ms d w = (r, w') \<Longrightarrow> conn_for ou cfg w key c \<Longrightarrow> conn_for ou cfg w' key c"
    for ms d w r w' key c by (simp add: client_net_def client_read_keeps)
  show "conn_for ou cfg w key c \<Longrightarrow> conn_for ou cfg (n_close (client_net ou) d w) key c" for w key c d
    by (simp add: client_net_def conn_close_keeps)
qed

section \<open>Properties\<close>

text \<open>
  C7: over the native core, a client that verifies and starts without connections returns only
  responses of servers that are certified for the URL they answer: whatever its requests were,
  through redirects and over connections that it kept, the parameters in every response are those
  of a handshake for the host and port of the response's URL, in which the chain verifier for the
  configured roots accepted the server's chain and OpenSSL matched its leaf with that host, given
  that Fizz finishes a handshake only when the verifier it was handed agrees.
\<close>

theorem responses_certified:
  assumes "client_requests (client_net ou) cd uni cfg rqs \<lparr>pool = [], world = w\<rparr> = Some (rs, s')"
    and "Inr resp \<in> set rs" "s_verify cfg"
    and "\<forall>k key su. fizz_verifies lib (su_verifier su) (ou_events ou k key (Some su))"
  shows "\<exists>t chain k su certs st. parse_url (resp_url resp) = Inr t \<and> ou_chain ou (s_cafile cfg) = Some chain
    \<and> Succeeds certs st \<in> set (ou_events ou k (t_host t, t_port t) (Some su))
    \<and> certified lib chain (t_host t) certs
    \<and> resp_tls resp = Some (capture_negotiated st no_params)"
proof -
  have "client_core.pool_good ou cfg \<lparr>pool = [], world = w\<rparr>" by (rule client_core.empty_pool_good) simp
  from client_core.client_requests_good [OF assms(1) this assms(2)] obtain t k w0
    where t: "parse_url (resp_url resp) = Inr t" "conn_for ou cfg w0 (t_host t, t_port t) k"
      "resp_tls resp = Some (cf_neg (cn_core (cw_conns w0 k)))"
    unfolding client_core.from_good_def by (auto simp: client_net_def)
  then obtain t1 su certs st where h: "t_host t1 = t_host t" "build_setup (ou_chain ou) (connect_request cfg t1) = Inr su"
    "Succeeds certs st \<in> set (ou_events ou k (t_host t, t_port t) (Some su))"
    "resp_tls resp = Some (capture_negotiated st no_params)"
    by (auto simp: conn_for_def handshaken_def)
  from h(2) assms(3) obtain chain where chain: "ou_chain ou (s_cafile cfg) = Some chain"
    "su_verifier su = Hostname chain (t_host t)"
    by (auto simp: build_setup_def connect_request_def h(1) Let_def split: option.splits)
  with assms(4) h(3) have "certified lib chain (t_host t) certs"
    by (fastforce simp: fizz_verifies_def simp flip: hostname_verify_iff)
  with t(1) h(3,4) chain(1) show ?thesis by blast
qed

section \<open>The property at concrete requests\<close>

text \<open>
  Every server shows the certificate of host \<open>h\<close>, Fizz asks the verifier, and the answer follows the
  request.
\<close>

definition demo_events :: "key \<Rightarrow> latin fizz_setup option \<Rightarrow> latin life_event list" where
  "demo_events key su =
     (case su of
        None \<Rightarrow> []
      | Some su \<Rightarrow> (case run_check demo_certs (su_verifier su) [''h''] of
            Inl e \<Rightarrow> [ConnectFails (fe_msg e) True]
          | Inr _ \<Rightarrow> [Succeeds [''h''] demo_client_state]))"

definition demo_data :: "nat \<Rightarrow> latin life_event list" where
  "demo_data n = map (Reading \<circ> DataIn \<circ> Some) (drop n demo_answer)"

definition demo_outside :: "latin outside" where
  "demo_outside = \<lparr>ou_chain = demo_chain, ou_throws = \<lambda>k. demo_throws, ou_events = \<lambda>k. demo_events,
     ou_writes = \<lambda>k. [(Written, demo_data 0)], ou_early = \<lambda>k. []\<rparr>"

lemma demo_outside_verifies: "fizz_verifies demo_certs (su_verifier su) (ou_events demo_outside k key (Some su))"
  by (auto simp: fizz_verifies_def demo_outside_def demo_events_def split: sum.splits)

definition demo_conn :: "latin life_event list \<Rightarrow> (write_outcome \<times> latin life_event list) list \<Rightarrow> latin client_world" where
  "demo_conn es os = put_conn 0
     \<lparr>cn_core = core_new\<lparr>cf_conn := core_established core_init, cf_setup := Some \<lparr>su_alpns = Some [''http/1.1''],
          su_groups = Some [29], su_shares = Some [29], su_verifier = Hostname (the (demo_chain [])) ''h'', su_extensions = None\<rparr>,
          cf_neg := capture_negotiated demo_client_state no_params\<rparr>,
      cn_events = es, cn_early = [], cn_writes = os\<rparr> (no_connections\<lparr>cw_next := 1\<rparr>)"

lemma demo_connects:
  "client_connect demo_outside demo_settings demo_target no_connections = (Inr 0, demo_conn [] [(Written, demo_data 0)])"
  by (simp add: client_connect_def demo_outside_def demo_events_def demo_throws_def connect_to_def connect_request_def
      build_setup_def demo_settings_def demo_chain_def hostname_verify_def demo_certs_def handshake_success_def
      core_new_def core_init_def core_established_def demo_conn_def no_connections_def put_conn_def Let_def)

lemma demo_writes: "client_write ms 0 raw (demo_conn [] [(Written, es)]) = (Inr (), demo_conn es [])"
  by (simp add: client_write_def demo_conn_def put_conn_def conn_until_call_def loop_handles_def core_new_def
      core_established_def core_init_def core_write_def write_success_def Let_def)

lemma demo_served: "serves (client_net demo_outside) ms 0 (demo_conn (demo_data 0) []) demo_answer (demo_conn [] [])"
  by (simp add: client_net_def client_read_def demo_conn_def demo_data_def put_conn_def demo_answer_def conn_until_call_def
      loop_handles_def core_new_def core_established_def core_init_def core_defs Let_def)

lemma responses_certified_witness:
  "\<exists>resp s' t chain k su certs st. client_requests (client_net demo_outside) demo_codec demo_unicode demo_settings
      [(demo_req ''GET'', ''https://h'')] \<lparr>pool = [], world = no_connections\<rparr> = Some ([Inr resp], s')
    \<and> parse_url (resp_url resp) = Inr t \<and> ou_chain demo_outside (s_cafile demo_settings) = Some chain
    \<and> Succeeds certs st \<in> set (ou_events demo_outside k (t_host t, t_port t) (Some su))
    \<and> certified demo_certs chain (t_host t) certs
    \<and> resp_tls resp = Some (capture_negotiated st no_params)"
proof -
  let ?net = "client_net demo_outside" and ?s = "\<lparr>pool = [], world = no_connections :: latin client_world\<rparr>"
  let ?f = "feed_list (feed demo_codec) new_parser demo_answer"
  have "case ?f of Inl e \<Rightarrow> False | Inr q \<Rightarrow> is_complete q \<and> p_buf q = []
      \<and> (case p_response q of None \<Rightarrow> False | Some r \<Rightarrow> status_code r = 200)"
    by code_simp
  then obtain q r where q: "?f = Inr q" "is_complete q" "p_buf q = []" "p_response q = Some r" "status_code r = 200"
    by (auto split: sum.splits option.splits)
  have "r_method (demo_req ''GET'')  = ustr_upper (u_upper demo_unicode) (r_method (demo_req ''GET''))" by code_simp
  then have rq: "demo_req ''GET''\<lparr>r_method := ustr_upper (u_upper demo_unicode) (r_method (demo_req ''GET''))\<rparr> = demo_req ''GET''"
    by simp
  obtain x s1 where "perform ?net demo_codec demo_unicode demo_settings (demo_req ''GET'') ''https://h'' ?s = Some (Inr x, s1)"
      "status_code x = 200"
    using perform_served [OF demo_build _ _ _ demo_served q(1,4,2,3), of ?s] demo_connects demo_writes q(5)
    by (simp add: client_net_def idle_def)
  moreover have "follow_up demo_unicode demo_settings (demo_req ''GET'') ''https://h'' x = Inr None" if "status_code x = 200" for x
    using that by (simp add: follow_up_def next_redirect_def REDIRECT_CODES_def)
  ultimately have run: "client_requests ?net demo_codec demo_unicode demo_settings [(demo_req ''GET'', ''https://h'')] ?s
      = Some ([Inr (x\<lparr>resp_url := ''https://h''\<rparr>)], s1)"
    by (simp add: client_request_def rq request_loop_unfold)
  have "\<forall>k key su. fizz_verifies demo_certs (su_verifier su) (ou_events demo_outside k key (Some su))"
    using demo_outside_verifies by blast
  from responses_certified [OF run _ _ this] run show ?thesis by (fastforce simp: demo_settings_def)
qed

end
