(* ===== verification/Core_Session.thy ===== *)
theory Core_Session
  imports Core_Client
begin

text \<open>
  Requests on one connection, from the constructor of the connection in the core to the last
  response: the client, its pool, the parser and the core together, with a server that answers in
  any of the framings that keep a connection open. What a session of many requests does is stated
  in the root theory.
\<close>

section \<open>What a server answers\<close>

text \<open>The bytes of a response with this head that decodes to \<open>out\<close>, and tells where it ends.\<close>

definition answer_of :: "codec \<Rightarrow> head \<Rightarrow> bytes \<Rightarrow> bytes \<Rightarrow> bool" where
  "answer_of cd w out raw \<longleftrightarrow> head_ok w \<and>
     (if says_chunked w then
        \<exists>chunks ext trailers. list_all chunk_ok chunks \<and> ext_ok ext \<and> list_all line_ok trailers
          \<and> decompress cd (headers_init (h_lines w)) (concat (map snd chunks)) = Inr out
          \<and> raw = render_head w @ concat (map render_chunk chunks) @ render_last ext trailers
      else if bodiless w then out = [] \<and> raw = render_head w
      else \<exists>body. values_named (h_lines w) ''Content-Length'' = [str_of_nat (length body)]
          \<and> length body < 10 ^ int_max_str_digits
          \<and> decompress cd (headers_init (h_lines w)) body = Inr out \<and> raw = render_head w @ body)"

lemma answer_fed:
  assumes "answer_of cd w out (concat pieces)"
  shows "\<exists>q. feed_list (feed cd) new_parser pieces = Inr q \<and> delivers q w out [] \<and> \<not> used_close_framing q"
proof (cases "says_chunked w")
  case True
  with assms obtain chunks ext trailers where c: "head_ok w" "list_all chunk_ok chunks" "ext_ok ext" "list_all line_ok trailers"
    "decompress cd (headers_init (h_lines w)) (concat (map snd chunks)) = Inr out"
    "concat pieces = render_head w @ concat (map render_chunk chunks) @ render_last ext trailers @ []"
    by (auto simp: answer_of_def)
  from chunked_fed [OF c(1) True c(2-6)] show ?thesis .
next
  case plain: False
  show ?thesis
  proof (cases "bodiless w")
    case True
    with assms plain have "head_ok w" "out = []" "concat pieces = render_head w @ []" by (auto simp: answer_of_def)
    with bodiless_parsed [OF _ plain True] show ?thesis by simp
  next
    case False
    with assms plain obtain body where b: "head_ok w" "values_named (h_lines w) ''Content-Length'' = [str_of_nat (length body)]"
      "length body < 10 ^ int_max_str_digits" "decompress cd (headers_init (h_lines w)) body = Inr out"
      "concat pieces = render_head w @ body @ []"
      by (auto simp: answer_of_def)
    from content_length_fed [OF b(1) plain False b(2-5)] show ?thesis .
  qed
qed

section \<open>One exchange on a connection of the core\<close>

text \<open>The world with connection \<open>k\<close>, with these events due, this schedule and these writes to come.\<close>

definition with_conn ::
    "conn \<Rightarrow> 'c core_full \<Rightarrow> 'c life_event list \<Rightarrow> nat list \<Rightarrow> (write_outcome \<times> 'c life_event list) list
      \<Rightarrow> 'c client_world \<Rightarrow> 'c client_world" where
  "with_conn k c es early os w = put_conn k \<lparr>cn_core = c, cn_events = es, cn_early = early, cn_writes = os\<rparr> w"

definition delivered_in :: "bytes list \<Rightarrow> 'c life_event list" where
  "delivered_in pieces = map (Reading \<circ> DataIn \<circ> Some) pieces"

lemma delivered_in_simps [simp]:
  "delivered_in [] = []" "delivered_in (b # bs) = Reading (DataIn (Some b)) # delivered_in bs"
  "delivered_in (xs @ ys) = delivered_in xs @ delivered_in ys"
  "take n (delivered_in xs) = delivered_in (take n xs)" "drop n (delivered_in xs) = delivered_in (drop n xs)"
  "length (delivered_in xs) = length xs"
  by (simp_all add: delivered_in_def take_map drop_map)

lemma with_conn_conns [simp]:
  "cw_conns (with_conn k c es early os w) k = \<lparr>cn_core = c, cn_events = es, cn_early = early, cn_writes = os\<rparr>"
  by (simp add: with_conn_def put_conn_def)

lemma put_with_conn [simp]:
  "put_conn k \<lparr>cn_core = c, cn_events = es, cn_early = early, cn_writes = os\<rparr> (with_conn k c' es' early' os' w)
    = with_conn k c es early os w"
  by (simp add: with_conn_def put_conn_def)

text \<open>The core with no read parked and these bytes in its buffer.\<close>

definition holding :: "bytes list \<Rightarrow> 'c core_full \<Rightarrow> 'c core_full" where
  "holding bufs c = c\<lparr>cf_conn := idle_core bufs False\<rparr>"

lemma holding_simps [simp]:
  "holding b (holding a c) = holding b c" "cf_neg (holding a c) = cf_neg c" "cf_conn (holding a c) = idle_core a False"
  by (simp_all add: holding_def)

lemma holding_nothing: "cf_conn c = core_established core_init \<Longrightarrow> holding [] c = c"
  by (cases c) (simp add: holding_def established_idle)

text \<open>What may follow the last response: the end of the connection, in its forms.\<close>

fun ends_quietly :: "'c life_event \<Rightarrow> bool" where
  "ends_quietly (Reading EofIn) = True"
| "ends_quietly (Reading (ErrIn what)) = True"
| "ends_quietly TransportCloses = True"
| "ends_quietly _ = False"

lemma loop_handles_simps:
  "loop_handles [] c = c" "loop_handles (e # es) c = loop_handles es (fst (life_step e c))"
  "loop_handles (xs @ ys) c = loop_handles ys (loop_handles xs c)"
  by (simp_all add: loop_handles_def)

lemma loop_data: "loop_handles (delivered_in bs) (holding bufs c) = holding (bufs @ bs) c"
proof (induction bs arbitrary: bufs)
  case (Cons b bs)
  have "fst (life_step (Reading (DataIn (Some b))) (holding bufs c)) = holding (bufs @ [b]) c"
    using idle_takes_data [of b bufs False] by (simp add: holding_def del: core_step.simps)
  with Cons show ?case by (simp add: loop_handles_simps del: life_step.simps)
qed (simp add: loop_handles_simps)

lemma loop_quiet:
  "\<forall>e \<in> set es. ends_quietly e \<Longrightarrow> cc_buffer (cf_conn (loop_handles es c)) = cc_buffer (cf_conn c)
    \<and> cf_neg (loop_handles es c) = cf_neg c"
proof (induction es arbitrary: c)
  case (Cons e es)
  have "cc_buffer (cf_conn (fst (life_step e c))) = cc_buffer (cf_conn c) \<and> cf_neg (fst (life_step e c)) = cf_neg c"
    using Cons.prems
    by (cases e rule: ends_quietly.cases) (auto simp: core_defs close_handle_def Let_def split: option.splits)
  with Cons show ?case by (simp add: loop_handles_simps)
qed (simp add: loop_handles_simps)

lemma write_on_conn:
  assumes "cf_conn c = core_established core_init"
  shows "client_write ms k raw (with_conn k c [] early ((Written, es) # os) w) = (Inr (), with_conn k c es (tl early) os w)"
  using assms
  by (simp add: client_write_def conn_until_call_def loop_handles_simps core_write_def core_established_def core_init_def
      write_success_def Let_def)

text \<open>A read finds what was delivered before it, in one piece; or it waits for the next piece.\<close>

lemma read_buffered:
  assumes "cc_buffer (cf_conn c) = bufs" "bufs \<noteq> []"
    and "conn_until_call \<lparr>cn_core = c0, cn_events = es0, cn_early = early, cn_writes = os\<rparr>
      = \<lparr>cn_core = c, cn_events = es, cn_early = early', cn_writes = os\<rparr>"
  shows "client_read ms k (with_conn k c0 es0 early os w)
    = (Inr (concat bufs), with_conn k (c\<lparr>cf_conn := (cf_conn c)\<lparr>cc_buffer := []\<rparr>\<rparr>) es early' os w)"
  using assms by (cases es) (simp_all add: client_read_def core_read_def fulfill_read_def Let_def)

lemma read_awaited:
  assumes "conn_until_call \<lparr>cn_core = holding [] c, cn_events = es0, cn_early = early, cn_writes = os\<rparr>
      = \<lparr>cn_core = holding [] c, cn_events = Reading (DataIn (Some b)) # es, cn_early = early', cn_writes = os\<rparr>"
  shows "client_read ms k (with_conn k (holding [] c) es0 early os w) = (Inr b, with_conn k (holding [] c) es early' os w)"
  using assms by (simp add: client_read_def holding_def idle_core_defs core_defs Let_def)

lemma conn_serves:
  assumes "[] \<notin> set bufs" "[] \<notin> set bs" "\<forall>e \<in> set late. ends_quietly e"
  shows "\<exists>pieces c' es' early'. concat pieces = concat bufs @ concat bs \<and> cf_neg c' = cf_neg c
    \<and> (late = [] \<longrightarrow> c' = holding [] c \<and> es' = [])
    \<and> serves (client_net ou) ms k (with_conn k (holding bufs c) (delivered_in bs @ late) early os w) pieces
        (with_conn k c' es' early' os w)"
  using assms(1,2)
proof (induction "length (concat bufs @ concat bs)" arbitrary: bufs bs early rule: less_induct)
  case less
  let ?n = "case early of [] \<Rightarrow> 0 | n # _ \<Rightarrow> n" and ?w = "with_conn k (holding bufs c) (delivered_in bs @ late) early os w"
  let ?read = "client_read ms k ?w"
  show ?case
  proof (cases "bufs @ bs = []")
    case True
    then show ?thesis by (intro exI [of _ "[]"] exI [of _ "holding [] c"] exI [of _ late] exI [of _ early]) simp
  next
    case some: False
    have split: "concat bs = concat (take ?n bs) @ concat (drop ?n bs)" by (simp flip: concat_append)
    have step: ?thesis
      if r: "?read = (Inr chunk, with_conn k (holding [] c) (delivered_in bs' @ late) (tl early) os w)" and "chunk \<noteq> []"
        "concat bufs @ concat bs = chunk @ concat bs'" "[] \<notin> set bs'" for chunk bs'
    proof -
      have "length (concat [] @ concat bs') < length (concat bufs @ concat bs)" using that(2,3) by simp
      from less.hyps [OF this _ that(4), of "tl early"] obtain pieces c' es' early' where
        "concat pieces = concat bs'" "cf_neg c' = cf_neg c" "late = [] \<longrightarrow> c' = holding [] c \<and> es' = []"
        "serves (client_net ou) ms k (with_conn k (holding [] c) (delivered_in bs' @ late) (tl early) os w) pieces
          (with_conn k c' es' early' os w)" by auto
      with that(2,3) r show ?thesis
        by (intro exI [of _ "chunk # pieces"] exI [of _ c'] exI [of _ es'] exI [of _ early'])
          (simp add: client_net_def)
    qed
    show ?thesis
    proof (cases "?n \<le> length bs")
      case True
      have until: "conn_until_call \<lparr>cn_core = holding bufs c, cn_events = delivered_in bs @ late, cn_early = early, cn_writes = os\<rparr>
          = \<lparr>cn_core = holding (bufs @ take ?n bs) c, cn_events = delivered_in (drop ?n bs) @ late, cn_early = tl early, cn_writes = os\<rparr>"
        using True by (simp add: conn_until_call_def Let_def loop_data)
      show ?thesis
      proof (cases "bufs @ take ?n bs = []")
        case False
        have "concat (bufs @ take ?n bs) \<noteq> []"
          using False less.prems by (intro some_bytes) (auto dest: in_set_takeD)
        moreover have "(holding (bufs @ take ?n bs) c)\<lparr>cf_conn := (cf_conn (holding (bufs @ take ?n bs) c))\<lparr>cc_buffer := []\<rparr>\<rparr> = holding [] c"
          by (simp add: holding_def idle_core_def)
        moreover have "cc_buffer (cf_conn (holding (bufs @ take ?n bs) c)) = bufs @ take ?n bs"
          by (simp add: idle_core_def)
        ultimately show ?thesis
          using read_buffered [OF _ False until, of ms k w] less.prems split
          by (intro step [where chunk = "concat (bufs @ take ?n bs)" and bs' = "drop ?n bs"]) (auto dest: in_set_dropD)
      next
        case empty: True
        with some True obtain b bs' where bs: "bs = b # bs'" "bufs = []" "?n = 0" by (cases bs) auto
        with until have u: "conn_until_call \<lparr>cn_core = holding [] c, cn_events = delivered_in bs @ late, cn_early = early, cn_writes = os\<rparr>
          = \<lparr>cn_core = holding [] c, cn_events = Reading (DataIn (Some b)) # delivered_in bs' @ late, cn_early = tl early, cn_writes = os\<rparr>"
          by simp
        from read_awaited [OF u] bs less.prems show ?thesis
          by (intro step [where chunk = b and bs' = bs']) auto
      qed
    next
      case False
      let ?m = "?n - length bs"
      let ?c = "loop_handles (take ?m late) (holding (bufs @ bs) c)"
      have until: "conn_until_call \<lparr>cn_core = holding bufs c, cn_events = delivered_in bs @ late, cn_early = early, cn_writes = os\<rparr>
          = \<lparr>cn_core = ?c, cn_events = drop ?m late, cn_early = tl early, cn_writes = os\<rparr>"
        using False by (simp add: conn_until_call_def Let_def loop_data loop_handles_simps)
      have q: "cc_buffer (cf_conn ?c) = bufs @ bs \<and> cf_neg ?c = cf_neg c"
        using loop_quiet [of "take ?m late" "holding (bufs @ bs) c"] assms(3) by (auto dest: in_set_takeD simp: idle_core_def)
      have none: "late = [] \<Longrightarrow> ?c\<lparr>cf_conn := (cf_conn ?c)\<lparr>cc_buffer := []\<rparr>\<rparr> = holding [] c"
        by (simp add: loop_handles_simps holding_def idle_core_def)
      have "concat (bufs @ bs) \<noteq> []" using some less.prems by (intro some_bytes) auto
      with read_buffered [OF conjunct1 [OF q] some until, of ms k w] q none show ?thesis
        by (intro exI [of _ "[concat (bufs @ bs)]"] exI [of _ "?c\<lparr>cf_conn := (cf_conn ?c)\<lparr>cc_buffer := []\<rparr>\<rparr>"]
            exI [of _ "drop ?m late"] exI [of _ "tl early"]) (simp add: client_net_def)
    qed
  qed
qed

section \<open>A request and its answer\<close>

text \<open>A request with its URL, the head and the decoded body of its answer, and how the bytes arrive.\<close>

record served =
  sv_req :: req
  sv_url :: latin
  sv_head :: head
  sv_body :: bytes
  sv_pieces :: "bytes list"

definition keeps_open :: "response \<Rightarrow> bool" where
  "keeps_open r \<longleftrightarrow> http_version r = ''HTTP/1.1''
     \<and> \<not> contains ''close'' (lower (case get_header (resp_headers r) ''Connection'' of None \<Rightarrow> [] | Some v \<Rightarrow> v))"

definition upper_req :: "unicode \<Rightarrow> req \<Rightarrow> req" where
  "upper_req uni rq = rq\<lparr>r_method := ustr_upper (u_upper uni) (r_method rq)\<rparr>"

text \<open>
  The request is well formed and for this address; its answer is no redirect to follow, and keeps
  the connection open.
\<close>

definition served_ok :: "codec \<Rightarrow> unicode \<Rightarrow> settings \<Rightarrow> key \<Rightarrow> served \<Rightarrow> bool" where
  "served_ok cd uni cfg key x \<longleftrightarrow>
     (\<exists>t raw. parse_url (sv_url x) = Inr t \<and> (t_host t, t_port t) = key
        \<and> build_request (u_lower uni) (r_method (upper_req uni (sv_req x))) (lit (t_path t)) (lit (t_host t))
            (r_headers (sv_req x)) (r_body (sv_req x)) = Inr raw)
     \<and> answer_of cd (sv_head x) (sv_body x) (concat (sv_pieces x)) \<and> [] \<notin> set (sv_pieces x)
     \<and> keeps_open (parsed_response (sv_head x) (sv_body x))
     \<and> (s_follow_redirects cfg \<longrightarrow> int (h_code (sv_head x)) \<notin> set REDIRECT_CODES)"

text \<open>What the caller is given.\<close>

definition served_response :: "negotiated \<Rightarrow> served \<Rightarrow> response" where
  "served_response neg x = (parsed_response (sv_head x) (sv_body x))\<lparr>resp_tls := Some neg, resp_url := sv_url x\<rparr>"

lemma served_exchange:
  assumes "cf_conn c = core_established core_init" "served_ok cd uni cfg key x" "\<forall>e \<in> set late. ends_quietly e"
  shows "\<exists>c' es' early'. exchange (client_net ou) cd cfg k key raw reused
      \<lparr>pool = p, world = with_conn k c [] early ((Written, delivered_in (sv_pieces x) @ late) # os) w\<rparr>
    = Some (Inr ((parsed_response (sv_head x) (sv_body x))\<lparr>resp_tls := Some (cf_neg c)\<rparr>),
        \<lparr>pool = give_conn key k p, world = with_conn k c' es' early' os w\<rparr>)
    \<and> (late = [] \<longrightarrow> c' = c \<and> es' = [])"
proof -
  from assms(2) have x: "answer_of cd (sv_head x) (sv_body x) (concat (sv_pieces x))" "[] \<notin> set (sv_pieces x)"
    "keeps_open (parsed_response (sv_head x) (sv_body x))" by (simp_all add: served_ok_def)
  note c = holding_nothing [OF assms(1)]
  let ?s = "\<lparr>pool = p, world = with_conn k c [] early ((Written, delivered_in (sv_pieces x) @ late) # os) w\<rparr>"
  let ?w = "with_conn k c (delivered_in (sv_pieces x) @ late) (tl early) os w"
  have sent: "n_write (client_net ou) (s_timeout_ms cfg) k raw (world ?s) = (Inr (), ?w)"
    using write_on_conn [OF assms(1)] by (simp add: client_net_def)
  from conn_serves [of "[]" "sv_pieces x" late c ou "s_timeout_ms cfg" k "tl early" os w] x(2) assms(3)
  obtain pieces c' es' early' where reads: "concat pieces = concat (sv_pieces x)" "cf_neg c' = cf_neg c"
    "late = [] \<longrightarrow> c' = c \<and> es' = []"
    "serves (client_net ou) (s_timeout_ms cfg) k ?w pieces (with_conn k c' es' early' os w)" by (auto simp: c)
  from answer_fed [of cd _ _ pieces] x(1) reads(1) obtain q where q: "feed_list (feed cd) new_parser pieces = Inr q"
    "is_complete q" "p_buf q = []" "p_response q = Some (parsed_response (sv_head x) (sv_body x))"
    "\<not> used_close_framing q" by (auto simp: delivers_def)
  have "reusable q (parsed_response (sv_head x) (sv_body x))"
    using x(3) q(5) by (simp add: reusable_def keeps_open_def)
  then have "exchange (client_net ou) cd cfg k key raw reused ?s
    = Some (Inr ((parsed_response (sv_head x) (sv_body x))\<lparr>resp_tls := Some (cf_neg c)\<rparr>),
        \<lparr>pool = give_conn key k p, world = with_conn k c' es' early' os w\<rparr>)"
    using exchange_served [OF sent reads(4) q(1-3), of key reused] q(4) reads(2)
    by (simp add: finish_exchange_def client_net_def)
  with reads(3) show ?thesis by blast
qed

lemma one_idle: "take_conn key [(key, [k])] = (Some k, [(key, [])])" "give_conn key k [(key, [])] = [(key, [k])]"
  "take_conn key [] = (None, [])" "give_conn key k [] = [(key, [k])]"
  by (simp_all add: take_conn_def give_conn_def)

lemma request_ends:
  assumes "perform net cd uni cfg (upper_req uni (sv_req x)) (sv_url x) s
      = Some (Inr ((parsed_response (sv_head x) (sv_body x))\<lparr>resp_tls := Some neg\<rparr>), s')"
    and "served_ok cd uni cfg key x"
  shows "client_request net cd uni cfg (sv_req x) (sv_url x) s = Some (Inr (served_response neg x), s')"
proof -
  have "follow_up uni cfg (upper_req uni (sv_req x)) (sv_url x)
      ((parsed_response (sv_head x) (sv_body x))\<lparr>resp_tls := Some neg\<rparr>) = Inr None"
    using assms(2) by (auto simp: follow_up_def served_ok_def next_redirect_def parsed_response_def)
  with assms(1) show ?thesis
    by (simp add: client_request_def request_loop_unfold served_response_def flip: upper_req_def)
qed

lemma request_on_idle:
  assumes "cf_conn c = core_established core_init" "served_ok cd uni cfg key x" "\<forall>e \<in> set late. ends_quietly e"
  shows "\<exists>c' es' early'. client_request (client_net ou) cd uni cfg (sv_req x) (sv_url x)
      \<lparr>pool = [(key, [k])], world = with_conn k c [] early ((Written, delivered_in (sv_pieces x) @ late) # os) w\<rparr>
    = Some (Inr (served_response (cf_neg c) x), \<lparr>pool = [(key, [k])], world = with_conn k c' es' early' os w\<rparr>)
    \<and> (late = [] \<longrightarrow> c' = c \<and> es' = [])"
proof -
  let ?s = "\<lparr>pool = [(key, [k])], world = with_conn k c [] early ((Written, delivered_in (sv_pieces x) @ late) # os) w\<rparr>"
  from assms(2) obtain t raw where "parse_url (sv_url x) = Inr t" "key = (t_host t, t_port t)"
    "build_request (u_lower uni) (r_method (upper_req uni (sv_req x))) (lit (t_path t)) (lit (t_host t))
      (r_headers (sv_req x)) (r_body (sv_req x)) = Inr raw" by (auto simp: served_ok_def)
  with served_exchange [OF assms, of ou k raw True "[(key, [])]" early os w] obtain c' es' early' where
    "perform (client_net ou) cd uni cfg (upper_req uni (sv_req x)) (sv_url x) ?s
      = Some (Inr ((parsed_response (sv_head x) (sv_body x))\<lparr>resp_tls := Some (cf_neg c)\<rparr>),
          \<lparr>pool = [(key, [k])], world = with_conn k c' es' early' os w\<rparr>)" "late = [] \<longrightarrow> c' = c \<and> es' = []"
    by (auto simp: perform_def Let_def one_idle upper_req_def)
  with request_ends [OF _ assms(2)] show ?thesis by blast
qed

text \<open>What comes because of the writes of these requests: each answer, and \<open>late\<close> after the last.\<close>

fun replies :: "served list \<Rightarrow> 'c life_event list \<Rightarrow> (write_outcome \<times> 'c life_event list) list" where
  "replies [] late = []"
| "replies [x] late = [(Written, delivered_in (sv_pieces x) @ late)]"
| "replies (x # y # xs) late = (Written, delivered_in (sv_pieces x) @ []) # replies (y # xs) late"

lemma requests_on_idle:
  assumes "cf_conn c = core_established core_init" "\<forall>x \<in> set xs. served_ok cd uni cfg key x" "\<forall>e \<in> set late. ends_quietly e"
  shows "\<exists>c' es' early'. client_requests (client_net ou) cd uni cfg (map (\<lambda>x. (sv_req x, sv_url x)) xs)
      \<lparr>pool = [(key, [k])], world = with_conn k c [] early (replies xs late @ os) w\<rparr>
    = Some (map (\<lambda>x. Inr (served_response (cf_neg c) x)) xs, \<lparr>pool = [(key, [k])], world = with_conn k c' es' early' os w\<rparr>)
    \<and> (late = [] \<longrightarrow> c' = c \<and> es' = [])"
  using assms(2,3)
proof (induction xs late arbitrary: early rule: replies.induct)
  case (1 late)
  then show ?case by auto
next
  case (2 x late)
  then obtain c' es' early' where
    "client_request (client_net ou) cd uni cfg (sv_req x) (sv_url x)
        \<lparr>pool = [(key, [k])], world = with_conn k c [] early ((Written, delivered_in (sv_pieces x) @ late) # os) w\<rparr>
      = Some (Inr (served_response (cf_neg c) x), \<lparr>pool = [(key, [k])], world = with_conn k c' es' early' os w\<rparr>)"
    "late = [] \<longrightarrow> c' = c \<and> es' = []"
    using request_on_idle [OF assms(1), of cd uni cfg key x late ou k early os w] by auto
  then show ?case by (intro exI [of _ c'] exI [of _ es'] exI [of _ early']) simp
next
  case (3 x y xs late)
  let ?os = "replies (y # xs) late @ os"
  from "3.prems" request_on_idle [OF assms(1), of cd uni cfg key x "[]" ou k early ?os w] obtain early' where
    "client_request (client_net ou) cd uni cfg (sv_req x) (sv_url x)
        \<lparr>pool = [(key, [k])], world = with_conn k c [] early ((Written, delivered_in (sv_pieces x) @ []) # ?os) w\<rparr>
      = Some (Inr (served_response (cf_neg c) x), \<lparr>pool = [(key, [k])], world = with_conn k c [] early' ?os w\<rparr>)" by auto
  moreover from "3.prems" "3.IH" [of early'] obtain c' es' early'' where
    "client_requests (client_net ou) cd uni cfg (map (\<lambda>x. (sv_req x, sv_url x)) (y # xs))
        \<lparr>pool = [(key, [k])], world = with_conn k c [] early' ?os w\<rparr>
      = Some (map (\<lambda>x. Inr (served_response (cf_neg c) x)) (y # xs), \<lparr>pool = [(key, [k])], world = with_conn k c' es' early'' os w\<rparr>)"
    "late = [] \<longrightarrow> c' = c \<and> es' = []" by auto
  ultimately show ?case by auto
qed

section \<open>The first request\<close>

definition established :: "'c fizz_setup \<Rightarrow> client_state \<Rightarrow> 'c core_full" where
  "established su st = core_new\<lparr>cf_conn := core_established core_init, cf_setup := Some su,
     cf_neg := capture_negotiated st no_params\<rparr>"

lemma established_sel [simp]:
  "cf_conn (established su st) = core_established core_init" "cf_neg (established su st) = capture_negotiated st no_params"
  by (simp_all add: established_def)

text \<open>A connection that opens: nothing throws, and Fizz reports success.\<close>

definition opens :: "'c outside \<Rightarrow> settings \<Rightarrow> target \<Rightarrow> conn \<Rightarrow> 'c fizz_setup \<Rightarrow> 'c list \<Rightarrow> client_state \<Rightarrow> bool" where
  "opens ou cfg t k su certs st \<longleftrightarrow>
     th_client (ou_throws ou k) = None \<and> th_connect (ou_throws ou k) = None
     \<and> build_setup (ou_chain ou) (connect_request cfg t) = Inr su
     \<and> ou_events ou k (t_host t, t_port t) (Some su) = [Succeeds certs st]"

lemma connect_opens:
  assumes "opens ou cfg t (cw_next w) su certs st" "t_host t' = t_host t" "t_port t' = t_port t"
  shows "client_connect ou cfg t' w
    = (Inr (cw_next w), with_conn (cw_next w) (established su st) [] (ou_early ou (cw_next w)) (ou_writes ou (cw_next w))
        (w\<lparr>cw_next := cw_next w + 1\<rparr>))"
proof -
  have q: "connect_request cfg t' = connect_request cfg t" using assms(2) by (simp add: connect_request_def)
  show ?thesis
    using assms unfolding client_connect_def q
    by (simp add: opens_def connect_to_def Let_def handshake_success_def with_conn_def established_def core_new_def
        core_established_def core_init_def)
qed

lemma request_opens:
  assumes "opens ou cfg t (cw_next w) su certs st" "served_ok cd uni cfg (t_host t, t_port t) x"
    and "ou_writes ou (cw_next w) = (Written, delivered_in (sv_pieces x) @ late) # os" "\<forall>e \<in> set late. ends_quietly e"
  shows "\<exists>c' es' early'. client_request (client_net ou) cd uni cfg (sv_req x) (sv_url x) \<lparr>pool = [], world = w\<rparr>
    = Some (Inr (served_response (capture_negotiated st no_params) x), \<lparr>pool = [((t_host t, t_port t), [cw_next w])],
        world = with_conn (cw_next w) c' es' early' os (w\<lparr>cw_next := cw_next w + 1\<rparr>)\<rparr>)
    \<and> (late = [] \<longrightarrow> c' = established su st \<and> es' = [])"
proof -
  let ?k = "cw_next w" and ?key = "(t_host t, t_port t)"
  from assms(2) obtain t' raw where r: "parse_url (sv_url x) = Inr t'" "t_host t' = t_host t" "t_port t' = t_port t"
    "build_request (u_lower uni) (r_method (upper_req uni (sv_req x))) (lit (t_path t')) (lit (t_host t'))
      (r_headers (sv_req x)) (r_body (sv_req x)) = Inr raw" by (auto simp: served_ok_def)
  have c: "n_connect (client_net ou) cfg t' w = (Inr ?k, with_conn ?k (established su st) [] (ou_early ou ?k)
      ((Written, delivered_in (sv_pieces x) @ late) # os) (w\<lparr>cw_next := ?k + 1\<rparr>))"
    using connect_opens [OF assms(1) r(2,3)] assms(3) by (simp add: client_net_def)
  have e: "cf_conn (established su st) = core_established core_init" by simp
  from served_exchange [OF e assms(2,4), of ou ?k raw False "[]" "ou_early ou ?k" os "w\<lparr>cw_next := ?k + 1\<rparr>"] r c
  obtain c' es' early' where "perform (client_net ou) cd uni cfg (upper_req uni (sv_req x)) (sv_url x) \<lparr>pool = [], world = w\<rparr>
      = Some (Inr ((parsed_response (sv_head x) (sv_body x))\<lparr>resp_tls := Some (capture_negotiated st no_params)\<rparr>),
        \<lparr>pool = [(?key, [?k])], world = with_conn ?k c' es' early' os (w\<lparr>cw_next := ?k + 1\<rparr>)\<rparr>)"
      "late = [] \<longrightarrow> c' = established su st \<and> es' = []"
    by (auto simp: perform_def connect_fresh_def Let_def one_idle upper_req_def)
  with request_ends [OF _ assms(2)] show ?thesis by blast
qed

section \<open>A concrete session\<close>

text \<open>A compressed answer with a Content-Length, then a chunked one to another path.\<close>

definition demo_first :: served where
  "demo_first = \<lparr>sv_req = demo_req ''GET'', sv_url = ''https://h'',
     sv_head = demo_head 200 [(''Content-Length'', ''3''), (''content-encoding'', ''GZip'')], sv_body = ''text'',
     sv_pieces = [''HTTP/1.1 200 OK'' @ crlf @ ''Content-Le'', ''ngth: 3'' @ crlf @ ''content-encoding: GZip'' @ [CR], LF # crlf @ ''z'', ''ip'']\<rparr>"

definition demo_second :: served where
  "demo_second = \<lparr>sv_req = demo_req ''GET'', sv_url = ''https://h/x'',
     sv_head = demo_head 404 [(''transfer-encoding'', ''Chunked'')], sv_body = ''abcde'',
     sv_pieces = [''HTTP/1.1 404 OK'' @ crlf @ ''transfer-encoding: Chunked'', crlf @ crlf @ ''3;x=y'' @ crlf @ ''abc'' @ [CR],
       LF # ''2'' @ crlf, ''de'' @ crlf @ ''0'' @ crlf @ ''T: v'', crlf @ crlf]\<rparr>"

lemma demo_answers:
  "answer_of demo_codec (sv_head demo_first) (sv_body demo_first) (concat (sv_pieces demo_first))"
  "answer_of demo_codec (sv_head demo_second) (sv_body demo_second) (concat (sv_pieces demo_second))"
proof -
  let ?w = "sv_head demo_first" and ?v = "sv_head demo_second"
  have "head_ok ?w" "\<not> says_chunked ?w" "\<not> bodiless ?w"
    "values_named (h_lines ?w) ''Content-Length'' = [str_of_nat (length ''zip'')]"
    "decompress demo_codec (headers_init (h_lines ?w)) ''zip'' = Inr (sv_body demo_first)"
    "concat (sv_pieces demo_first) = render_head ?w @ ''zip''"
    by code_simp+
  moreover have "length ''zip'' < 10 ^ int_max_str_digits" by (rule small_decimal) simp
  ultimately show "answer_of demo_codec ?w (sv_body demo_first) (concat (sv_pieces demo_first))"
    unfolding answer_of_def by auto
  have v: "head_ok ?v" "says_chunked ?v" "list_all chunk_ok [('';x=y'', ''abc''), ([], ''de'')]" "ext_ok []" "list_all line_ok [''T: v'']"
    "decompress demo_codec (headers_init (h_lines ?v)) (concat (map snd [('';x=y'', ''abc''), ([], ''de'')])) = Inr (sv_body demo_second)"
    "concat (sv_pieces demo_second) = render_head ?v @ concat (map render_chunk [('';x=y'', ''abc''), ([], ''de'')]) @ render_last [] [''T: v'']"
    by code_simp+
  show "answer_of demo_codec ?v (sv_body demo_second) (concat (sv_pieces demo_second))"
    unfolding answer_of_def using v(1,2)
    by (simp only: if_True simp_thms) (intro exI conjI, rule v(3), rule v(4), rule v(5), rule v(6), rule v(7))
qed

lemma demo_requests:
  "case parse_url (sv_url x) of Inl e \<Rightarrow> False | Inr t \<Rightarrow> t_host t = ''h'' \<and> t_port t = 443 \<and>
     (case build_request (u_lower demo_unicode) (r_method (upper_req demo_unicode (sv_req x))) (lit (t_path t)) (lit (t_host t))
        (r_headers (sv_req x)) (r_body (sv_req x)) of Inl e \<Rightarrow> False | Inr raw \<Rightarrow> True)"
  if "x \<in> {demo_first, demo_second}"
proof -
  have "case parse_url (sv_url demo_first) of Inl e \<Rightarrow> False | Inr t \<Rightarrow> t_host t = ''h'' \<and> t_port t = 443 \<and>
     (case build_request (u_lower demo_unicode) (r_method (upper_req demo_unicode (sv_req demo_first))) (lit (t_path t)) (lit (t_host t))
        (r_headers (sv_req demo_first)) (r_body (sv_req demo_first)) of Inl e \<Rightarrow> False | Inr raw \<Rightarrow> True)"
    "case parse_url (sv_url demo_second) of Inl e \<Rightarrow> False | Inr t \<Rightarrow> t_host t = ''h'' \<and> t_port t = 443 \<and>
     (case build_request (u_lower demo_unicode) (r_method (upper_req demo_unicode (sv_req demo_second))) (lit (t_path t)) (lit (t_host t))
        (r_headers (sv_req demo_second)) (r_body (sv_req demo_second)) of Inl e \<Rightarrow> False | Inr raw \<Rightarrow> True)"
    by code_simp+
  with that show ?thesis by auto
qed

lemma demo_served_ok:
  assumes "x \<in> {demo_first, demo_second}"
  shows "served_ok demo_codec demo_unicode demo_settings (''h'', 443) x"
proof -
  have "[] \<notin> set (sv_pieces demo_first) \<and> keeps_open (parsed_response (sv_head demo_first) (sv_body demo_first))"
    "[] \<notin> set (sv_pieces demo_second) \<and> keeps_open (parsed_response (sv_head demo_second) (sv_body demo_second))"
    "int (h_code (sv_head demo_first)) \<notin> set REDIRECT_CODES" "int (h_code (sv_head demo_second)) \<notin> set REDIRECT_CODES"
    by code_simp+
  with demo_answers demo_requests [OF assms] assms show ?thesis
    by (auto simp: served_ok_def split: sum.splits)
qed

text \<open>The server closes after the second answer.\<close>

definition demo_server :: "latin outside" where
  "demo_server = \<lparr>ou_chain = demo_chain, ou_throws = \<lambda>k. demo_throws,
     ou_events = \<lambda>k key su. [Succeeds [''h''] demo_client_state],
     ou_writes = \<lambda>k. replies [demo_first, demo_second] [Reading EofIn], ou_early = \<lambda>k. [0, 2, 0, 1, 0, 9]\<rparr>"

end
