(* ===== verification/Client_Tasks.thy ===== *)
theory Client_Tasks
  imports Client_Props
begin

text \<open>
  Many requests of one client at the same time: each is a task that runs from one call of the core
  to the next, as threads with a \<open>Client\<close> and tasks with an \<open>AsyncClient\<close> do, and tasks
  interleave in any order. One task alone is \<open>perform\<close>; together they share nothing but the pool,
  given that a connection that the core makes is a new one, which is the interface \<open>fresh_net\<close>.
\<close>

section \<open>One request, step by step\<close>

text \<open>Where \<open>_perform\<close> stands: before it, and before \<open>connect\<close>, \<open>write\<close> or \<open>read\<close>.\<close>

datatype 'x task =
    Asked req latin
  | Dialling target bytes
  | Sending conn target bytes bool
  | Receiving conn target bytes bool parser bool
  | Finished "'x failure + response"
  | Dropped

datatype wire_op = Opened | Wrote bytes | Got bytes

text \<open>\<open>except _Stale\<close>: close the pooled connection and connect; other results are final.\<close>

definition task_end ::
    "('x, 'w) net \<Rightarrow> conn \<Rightarrow> target \<Rightarrow> bytes \<Rightarrow> bool \<Rightarrow> 'x failure + response \<Rightarrow> 'w session \<Rightarrow> 'x task \<times> 'w session" where
  "task_end net c t raw reused r s =
     (case r of
        Inl Stale \<Rightarrow> (if reused then (Dialling t raw, s\<lparr>world := n_close net c (world s)\<rparr>) else (Finished r, s))
      | _ \<Rightarrow> (Finished r, s))"

text \<open>What follows the loop of \<open>_exchange\<close>, which ends with an exception or a parser.\<close>

definition loop_end ::
    "('x, 'w) net \<Rightarrow> conn \<Rightarrow> target \<Rightarrow> bytes \<Rightarrow> bool \<Rightarrow> 'x failure + parser \<Rightarrow> 'w session \<Rightarrow> 'x task \<times> 'w session" where
  "loop_end net c t raw reused x s =
     (case x of
        Inl f \<Rightarrow> task_end net c t raw reused (Inl f) s
      | Inr q \<Rightarrow> (let (r, s) = finish_exchange net reused c (t_host t, t_port t) q s in task_end net c t raw reused r s))"

definition task_ask ::
    "unicode \<Rightarrow> req \<Rightarrow> latin \<Rightarrow> 'w session \<Rightarrow> 'x task \<times> 'w session \<times> (conn \<times> wire_op) list" where
  "task_ask uni rq u s =
     (case parse_url u of
        Inl e \<Rightarrow> (Finished (Inl (BadTarget e)), s, [])
      | Inr t \<Rightarrow>
          (case build_request (u_lower uni) (r_method rq) (lit (t_path t)) (lit (t_host t)) (r_headers rq) (r_body rq) of
             Inl e \<Rightarrow> (Finished (Inl (BadRequest e)), s, [])
           | Inr raw \<Rightarrow>
               (case take_conn (t_host t, t_port t) (pool s) of
                  (None, p) \<Rightarrow> (Dialling t raw, s\<lparr>pool := p\<rparr>, [])
                | (Some c, p) \<Rightarrow> (Sending c t raw True, s\<lparr>pool := p\<rparr>, []))))"

definition task_dial ::
    "('x, 'w) net \<Rightarrow> settings \<Rightarrow> target \<Rightarrow> bytes \<Rightarrow> 'w session \<Rightarrow> 'x task \<times> 'w session \<times> (conn \<times> wire_op) list" where
  "task_dial net cfg t raw s =
     (case n_connect net cfg t (world s) of
        (Inl e, w) \<Rightarrow> (Finished (Inl (NetError e)), s\<lparr>world := w\<rparr>, [])
      | (Inr c, w) \<Rightarrow> (Sending c t raw False, s\<lparr>world := w\<rparr>, [(c, Opened)]))"

definition task_send ::
    "('x, 'w) net \<Rightarrow> settings \<Rightarrow> conn \<Rightarrow> target \<Rightarrow> bytes \<Rightarrow> bool \<Rightarrow> 'w session
      \<Rightarrow> 'x task \<times> 'w session \<times> (conn \<times> wire_op) list" where
  "task_send net cfg c t raw reused s =
     (case n_write net (s_timeout_ms cfg) c raw (world s) of
        (Inl e, w) \<Rightarrow>
          (let (k, s) = task_end net c t raw reused (Inl (if reused then Stale else NetError e)) (s\<lparr>world := w\<rparr>) in
           (k, s, [(c, Wrote raw)]))
      | (Inr _, w) \<Rightarrow> (Receiving c t raw reused new_parser False, s\<lparr>world := w\<rparr>, [(c, Wrote raw)]))"

text \<open>One turn of the loop of \<open>_exchange\<close>.\<close>

definition task_receive ::
    "('x, 'w) net \<Rightarrow> codec \<Rightarrow> settings \<Rightarrow> conn \<Rightarrow> target \<Rightarrow> bytes \<Rightarrow> bool \<Rightarrow> parser \<Rightarrow> bool \<Rightarrow> 'w session
      \<Rightarrow> 'x task \<times> 'w session \<times> (conn \<times> wire_op) list" where
  "task_receive net cd cfg c t raw reused p received s =
     (if is_complete p then (let (k, s) = loop_end net c t raw reused (Inr p) s in (k, s, []))
      else case n_read net (s_timeout_ms cfg) c (world s) of
          (Inl e, w) \<Rightarrow>
            (let (k, s) = loop_end net c t raw reused (Inl (if reused \<and> \<not> received then Stale else NetError e)) (s\<lparr>world := w\<rparr>) in
             (k, s, []))
        | (Inr chunk, w) \<Rightarrow>
            (let s = s\<lparr>world := w\<rparr>;
                 (k, s) =
                   (if chunk = [] then
                      (if reused \<and> \<not> received then loop_end net c t raw reused (Inl Stale) s
                       else case feed_eof cd p of
                           Inl (e, q) \<Rightarrow> loop_end net c t raw reused (Inl (ParserRaised e)) s
                         | Inr q \<Rightarrow> loop_end net c t raw reused (Inr q) s)
                    else case feed cd p chunk of
                        Inl (e, q) \<Rightarrow> loop_end net c t raw reused (Inl (ParserRaised e)) s
                      | Inr q \<Rightarrow> (Receiving c t raw reused q True, s)) in
             (k, s, [(c, Got chunk)])))"

fun task_step ::
    "('x, 'w) net \<Rightarrow> codec \<Rightarrow> unicode \<Rightarrow> settings \<Rightarrow> 'x task \<Rightarrow> 'w session
      \<Rightarrow> 'x task \<times> 'w session \<times> (conn \<times> wire_op) list" where
  "task_step net cd uni cfg (Asked rq u) s = task_ask uni rq u s"
| "task_step net cd uni cfg (Dialling t raw) s = task_dial net cfg t raw s"
| "task_step net cd uni cfg (Sending c t raw reused) s = task_send net cfg c t raw reused s"
| "task_step net cd uni cfg (Receiving c t raw reused p received) s = task_receive net cd cfg c t raw reused p received s"
| "task_step net cd uni cfg (Finished r) s = (Finished r, s, [])"
| "task_step net cd uni cfg Dropped s = (Dropped, s, [])"

section \<open>A task alone\<close>

fun task_run :: "('x, 'w) net \<Rightarrow> codec \<Rightarrow> unicode \<Rightarrow> settings \<Rightarrow> nat \<Rightarrow> 'x task \<times> 'w session \<Rightarrow> 'x task \<times> 'w session" where
  "task_run net cd uni cfg 0 ks = ks"
| "task_run net cd uni cfg (Suc n) (k, s) = (let (k, s, ops) = task_step net cd uni cfg k s in task_run net cd uni cfg n (k, s))"

definition leads_to :: "('x, 'w) net \<Rightarrow> codec \<Rightarrow> unicode \<Rightarrow> settings \<Rightarrow> 'x task \<times> 'w session \<Rightarrow> 'x task \<times> 'w session \<Rightarrow> bool" where
  "leads_to net cd uni cfg a b \<longleftrightarrow> (\<exists>n. task_run net cd uni cfg n a = b)"

lemma leads_to_refl: "leads_to net cd uni cfg a a"
  unfolding leads_to_def by (rule exI [of _ 0]) simp

lemma leads_to_step:
  "task_step net cd uni cfg k s = (k1, s1, ops) \<Longrightarrow> leads_to net cd uni cfg (k1, s1) b \<Longrightarrow> leads_to net cd uni cfg (k, s) b"
  unfolding leads_to_def by (elim exE, rule_tac x = "Suc n" in exI) simp

lemma task_run_add: "task_run net cd uni cfg (m + n) a = task_run net cd uni cfg n (task_run net cd uni cfg m a)"
  by (induction m arbitrary: a) (auto split: prod.split)

lemma leads_to_trans: "leads_to net cd uni cfg a b \<Longrightarrow> leads_to net cd uni cfg b c \<Longrightarrow> leads_to net cd uni cfg a c"
  unfolding leads_to_def using task_run_add by metis

lemma loop_leads:
  assumes "read_loop net cd (s_timeout_ms cfg) reused c p received (world s) = Some (x, w)"
  shows "leads_to net cd uni cfg (Receiving c t raw reused p received, s) (loop_end net c t raw reused x (s\<lparr>world := w\<rparr>))"
proof -
  have "net' = net \<longrightarrow> ms = s_timeout_ms cfg \<longrightarrow> (\<forall>s. world s = w0 \<longrightarrow>
      leads_to net cd' uni cfg (Receiving c t raw reused p received, s) (loop_end net c t raw reused (fst xw) (s\<lparr>world := snd xw\<rparr>)))"
    if "read_loop net' cd' ms reused c p received w0 = Some xw" for net' cd' ms reused c p received w0 xw
  proof (rule read_loop.raw_induct [where P = "\<lambda>net' cd' ms reused c p received w0 xw. net' = net \<longrightarrow> ms = s_timeout_ms cfg \<longrightarrow>
        (\<forall>s. world s = w0 \<longrightarrow> leads_to net cd' uni cfg (Receiving c t raw reused p received, s)
          (loop_end net c t raw reused (fst xw) (s\<lparr>world := snd xw\<rparr>)))", OF _ that], goal_cases)
    case (1 f net' cd' ms reused c p received w0 xw)
    note IH = 1(1) and eq = 1(2)
    show ?case
    proof (intro impI allI)
      fix s :: "'b session"
      assume n: "net' = net" "ms = s_timeout_ms cfg" "world s = w0"
      let ?fin = "\<lambda>x s. loop_end net c t raw reused x s"
      have final: "leads_to net cd' uni cfg (Receiving c t raw reused p received, s) e"
        if "task_receive net cd' cfg c t raw reused p received s = (fst e, snd e, ops)" for e ops
        using leads_to_step [OF _ leads_to_refl, of net cd' uni cfg _ s "fst e" "snd e"] that by simp
      show "leads_to net cd' uni cfg (Receiving c t raw reused p received, s) (?fin (fst xw) (s\<lparr>world := snd xw\<rparr>))"
      proof (cases "is_complete p")
        case True
        with eq n have "xw = (Inr p, world s)" by auto
        with True show ?thesis by (intro final) (simp add: task_receive_def split: prod.split)
      next
        case False
        obtain y w1 where y: "n_read net ms c w0 = (y, w1)" by fastforce
        consider e where "y = Inl e" | "y = Inr []" | b where "y = Inr b" "b \<noteq> []" by (cases y) auto
        then show ?thesis
        proof cases
          case (1 e)
          with eq False y n show ?thesis by (intro final) (auto simp: task_receive_def split: prod.split)
        next
          case 2
          with eq False y n show ?thesis
            by (intro final) (auto simp: task_receive_def Let_def split: prod.splits sum.splits if_splits)
        next
          case (3 b)
          show ?thesis
          proof (cases "feed cd' p b")
            case (Inl e)
            with eq False y 3 n show ?thesis
              by (cases e) (intro final, auto simp: task_receive_def Let_def split: prod.split)
          next
            case (Inr q)
            with eq False y 3 n have "f net cd' ms reused c q True w1 = Some xw" by simp
            note ih = IH [OF this, rule_format, OF refl n(2), of "s\<lparr>world := w1\<rparr>"]
            have "leads_to net cd' uni cfg (Receiving c t raw reused q True, s\<lparr>world := w1\<rparr>)
              (?fin (fst xw) (s\<lparr>world := snd xw\<rparr>))" using ih by simp
            moreover have "task_step net cd' uni cfg (Receiving c t raw reused p received) s
                = (Receiving c t raw reused q True, s\<lparr>world := w1\<rparr>, [(c, Got b)])"
              using False y 3 n Inr by (simp add: task_receive_def)
            ultimately show ?thesis by (blast intro: leads_to_step)
          qed
        qed
      qed
    qed
  qed
  from this [OF assms] show ?thesis by simp
qed

lemma sending_leads:
  assumes "exchange net cd cfg c (t_host t, t_port t) raw reused s = Some (r, s')"
  shows "leads_to net cd uni cfg (Sending c t raw reused, s) (task_end net c t raw reused r s')"
proof -
  obtain r1 w1 where sent: "n_write net (s_timeout_ms cfg) c raw (world s) = (r1, w1)" by fastforce
  show ?thesis
  proof (cases r1)
    case (Inl e)
    obtain k s1 where e: "task_end net c t raw reused r s' = (k, s1)" by fastforce
    from Inl assms sent e have "task_step net cd uni cfg (Sending c t raw reused) s = (k, s1, [(c, Wrote raw)])"
      by (auto simp: exchange_def task_send_def)
    with e show ?thesis by (metis leads_to_step leads_to_refl)
  next
    case (Inr u)
    obtain x w2 where x: "read_loop net cd (s_timeout_ms cfg) reused c new_parser False w1 = Some (x, w2)"
      using assms sent Inr by (auto simp: exchange_def split: option.splits)
    have "task_step net cd uni cfg (Sending c t raw reused) s
        = (Receiving c t raw reused new_parser False, s\<lparr>world := w1\<rparr>, [(c, Wrote raw)])"
      using sent Inr by (simp add: task_send_def)
    moreover have "leads_to net cd uni cfg (Receiving c t raw reused new_parser False, s\<lparr>world := w1\<rparr>)
        (loop_end net c t raw reused x (s\<lparr>world := w2\<rparr>))"
      using loop_leads [of net cd cfg reused c new_parser False "s\<lparr>world := w1\<rparr>" x w2] x by simp
    moreover have "loop_end net c t raw reused x (s\<lparr>world := w2\<rparr>) = task_end net c t raw reused r s'"
      using assms sent Inr x by (cases x) (auto simp: exchange_def loop_end_def Let_def split: prod.split)
    ultimately show ?thesis by (metis leads_to_step)
  qed
qed

lemma dialling_leads:
  assumes "connect_fresh net cd cfg t (t_host t, t_port t) raw s = Some (r, s')"
  shows "leads_to net cd uni cfg (Dialling t raw, s) (Finished r, s')"
proof -
  obtain r1 w1 where c: "n_connect net cfg t (world s) = (r1, w1)" by fastforce
  show ?thesis
  proof (cases r1)
    case (Inl e)
    with assms c have "task_step net cd uni cfg (Dialling t raw) s = (Finished r, s', [])"
      by (auto simp: connect_fresh_def task_dial_def)
    then show ?thesis by (metis leads_to_step leads_to_refl)
  next
    case (Inr d)
    with assms c have "exchange net cd cfg d (t_host t, t_port t) raw False (s\<lparr>world := w1\<rparr>) = Some (r, s')"
      by (simp add: connect_fresh_def)
    from sending_leads [OF this, of uni]
    have "leads_to net cd uni cfg (Sending d t raw False, s\<lparr>world := w1\<rparr>) (Finished r, s')"
      by (auto simp: task_end_def split: sum.splits failure.splits)
    moreover have "task_step net cd uni cfg (Dialling t raw) s = (Sending d t raw False, s\<lparr>world := w1\<rparr>, [(d, Opened)])"
      using c Inr by (simp add: task_dial_def)
    ultimately show ?thesis by (blast intro: leads_to_step)
  qed
qed

lemma asked_leads:
  assumes "perform net cd uni cfg rq u s = Some (r, s')"
  shows "leads_to net cd uni cfg (Asked rq u, s) (Finished r, s')"
proof (cases "parse_url u")
  case (Inl e)
  with assms have "task_step net cd uni cfg (Asked rq u) s = (Finished r, s', [])"
    by (auto simp: perform_def task_ask_def)
  then show ?thesis by (metis leads_to_step leads_to_refl)
next
  case t: (Inr t)
  obtain b where b: "build_request (u_lower uni) (r_method rq) (lit (t_path t)) (lit (t_host t)) (r_headers rq) (r_body rq) = b"
    by simp
  obtain x p where x: "take_conn (t_host t, t_port t) (pool s) = (x, p)" by fastforce
  show ?thesis
  proof (cases b)
    case (Inl e)
    with assms t b have "task_step net cd uni cfg (Asked rq u) s = (Finished r, s', [])"
      by (auto simp: perform_def task_ask_def Let_def)
    then show ?thesis by (metis leads_to_step leads_to_refl)
  next
    case raw: (Inr raw)
    show ?thesis
    proof (cases x)
      case None
      with assms t b raw x have "connect_fresh net cd cfg t (t_host t, t_port t) raw (s\<lparr>pool := p\<rparr>) = Some (r, s')"
        "task_step net cd uni cfg (Asked rq u) s = (Dialling t raw, s\<lparr>pool := p\<rparr>, [])"
        by (simp_all add: perform_def task_ask_def Let_def)
      then show ?thesis by (blast intro: leads_to_step dialling_leads)
    next
      case (Some c)
      obtain r1 s1 where y: "exchange net cd cfg c (t_host t, t_port t) raw True (s\<lparr>pool := p\<rparr>) = Some (r1, s1)"
        using assms t b raw x Some by (auto simp: perform_def Let_def split: option.splits)
      have "leads_to net cd uni cfg (task_end net c t raw True r1 s1) (Finished r, s')"
      proof (cases "r1 = Inl Stale")
        case True
        with assms t b raw x Some y have "connect_fresh net cd cfg t (t_host t, t_port t) raw
            (s1\<lparr>world := n_close net c (world s1)\<rparr>) = Some (r, s')"
          by (simp add: perform_def Let_def)
        with True show ?thesis by (simp add: task_end_def dialling_leads)
      next
        case False
        with assms t b raw x Some y have "r = r1" "s' = s1"
          by (auto simp: perform_def Let_def split: sum.splits failure.splits)
        with False show ?thesis by (auto simp: task_end_def leads_to_refl split: sum.splits failure.splits)
      qed
      moreover have "task_step net cd uni cfg (Asked rq u) s = (Sending c t raw True, s\<lparr>pool := p\<rparr>, [])"
        using t b raw x Some by (simp add: task_ask_def)
      ultimately show ?thesis
        using sending_leads [OF y, of uni] by (blast intro: leads_to_step leads_to_trans)
    qed
  qed
qed

section \<open>Tasks together\<close>

text \<open>The client with its tasks, and for each connection who wrote and read what.\<close>

record ('x, 'w) clients =
  cl_session :: "'w session"
  cl_tasks :: "'x task list"
  cl_trace :: "(nat \<times> conn \<times> wire_op) list"

text \<open>A schedule: a new request, a turn of a task, the cancellation of a task, \<open>close\<close>.\<close>

datatype choice = Spawn req latin | Turn nat | Cancel nat | CloseAll

fun advance ::
    "('x, 'w) net \<Rightarrow> codec \<Rightarrow> unicode \<Rightarrow> settings \<Rightarrow> choice \<Rightarrow> ('x, 'w) clients \<Rightarrow> ('x, 'w) clients" where
  "advance net cd uni cfg (Spawn rq u) S = S\<lparr>cl_tasks := cl_tasks S @ [Asked rq u]\<rparr>"
| "advance net cd uni cfg (Turn i) S =
     (if i < length (cl_tasks S)
      then let (k, s, ops) = task_step net cd uni cfg (cl_tasks S ! i) (cl_session S) in
           \<lparr>cl_session = s, cl_tasks = (cl_tasks S)[i := k], cl_trace = cl_trace S @ map (Pair i) ops\<rparr>
      else S)"
| "advance net cd uni cfg (Cancel i) S = S\<lparr>cl_tasks := (cl_tasks S)[i := Dropped]\<rparr>"
| "advance net cd uni cfg CloseAll S = S\<lparr>cl_session := client_close net (cl_session S)\<rparr>"

definition schedule_run ::
    "('x, 'w) net \<Rightarrow> codec \<Rightarrow> unicode \<Rightarrow> settings \<Rightarrow> choice list \<Rightarrow> ('x, 'w) clients \<Rightarrow> ('x, 'w) clients" where
  "schedule_run net cd uni cfg choices S = fold (advance net cd uni cfg) choices S"

definition no_tasks :: "'w \<Rightarrow> ('x, 'w) clients" where
  "no_tasks w = \<lparr>cl_session = \<lparr>pool = [], world = w\<rparr>, cl_tasks = [], cl_trace = []\<rparr>"

text \<open>The connection that a task holds.\<close>

fun holds :: "'x task \<Rightarrow> conn list" where
  "holds (Sending c t raw reused) = [c]"
| "holds (Receiving c t raw reused p received) = [c]"
| "holds _ = []"

definition in_hands :: "'x task list \<Rightarrow> conn list" where
  "in_hands ks = concat (map holds ks)"

lemma in_hands_split:
  assumes "i < length ks"
  shows "\<exists>R. mset (in_hands ks) = mset (holds (ks ! i)) + R \<and> (\<forall>k. mset (in_hands (ks[i := k])) = mset (holds k) + R)"
proof -
  let ?R = "mset (in_hands (take i ks)) + mset (in_hands (drop (Suc i) ks))"
  have "mset (in_hands (take i ks @ k # drop (Suc i) ks)) = mset (holds k) + ?R" for k
    by (simp add: in_hands_def)
  with id_take_nth_drop [OF assms] upd_conv_take_nth_drop [OF assms] show ?thesis by metis
qed

text \<open>Who wrote last on each connection, and whether reads are by that task.\<close>

fun writers :: "(conn \<Rightarrow> nat option) \<Rightarrow> (nat \<times> conn \<times> wire_op) list \<Rightarrow> conn \<Rightarrow> nat option" where
  "writers f [] = f"
| "writers f ((i, c, Wrote raw) # tr) = writers (f(c := Some i)) tr"
| "writers f ((i, c, Opened) # tr) = writers (f(c := None)) tr"
| "writers f ((i, c, Got b) # tr) = writers f tr"

fun read_by_writer :: "(conn \<Rightarrow> nat option) \<Rightarrow> (nat \<times> conn \<times> wire_op) list \<Rightarrow> bool" where
  "read_by_writer f [] \<longleftrightarrow> True"
| "read_by_writer f ((i, c, Wrote raw) # tr) \<longleftrightarrow> read_by_writer (f(c := Some i)) tr"
| "read_by_writer f ((i, c, Opened) # tr) \<longleftrightarrow> read_by_writer (f(c := None)) tr"
| "read_by_writer f ((i, c, Got b) # tr) \<longleftrightarrow> f c = Some i \<and> read_by_writer f tr"

lemma writers_append: "writers f (xs @ ys) = writers (writers f xs) ys"
  by (induction f xs rule: writers.induct) (simp_all del: fun_upd_apply)

lemma read_by_writer_append: "read_by_writer f (xs @ ys) \<longleftrightarrow> read_by_writer f xs \<and> read_by_writer (writers f xs) ys"
  by (induction f xs rule: writers.induct) (simp_all del: fun_upd_apply)

section \<open>The interface\<close>

locale fresh_net =
  fixes net :: "('x, 'w) net"
    and cfg :: settings
    and made :: "'w \<Rightarrow> conn set"
  assumes connect_new: "n_connect net cfg t w = (Inr c, w') \<Longrightarrow> c \<notin> made w \<and> insert c (made w) \<subseteq> made w'"
    and connect_made: "n_connect net cfg t w = (r, w') \<Longrightarrow> made w \<subseteq> made w'"
    and write_made: "n_write net ms d raw w = (r', w') \<Longrightarrow> made w \<subseteq> made w'"
    and read_made: "n_read net ms d w = (r'', w') \<Longrightarrow> made w \<subseteq> made w'"
    and close_made: "made w \<subseteq> made (n_close net d w)"
begin

text \<open>Every connection in the pool or in a hand is there once, and was made.\<close>

definition exclusive :: "'w session \<Rightarrow> conn multiset \<Rightarrow> bool" where
  "exclusive s H \<longleftrightarrow> pool_wf (pool s) \<and> once (made (world s)) (pool_mset (pool s) + H)"

lemma exclusive_world: "exclusive s H \<Longrightarrow> made (world s) \<subseteq> made w \<Longrightarrow> exclusive (s\<lparr>world := w\<rparr>) H"
  by (auto simp: exclusive_def once_def)

lemma exclusive_less: "exclusive s (H + R) \<Longrightarrow> exclusive s R"
  by (auto simp: exclusive_def intro: once_sub)

lemma exclusive_give: "exclusive s ({#c#} + R) \<Longrightarrow> exclusive (s\<lparr>pool := give_conn key c (pool s)\<rparr>) R"
  by (simp add: exclusive_def sync_pool.wf_give sync_pool.give_conns)

lemma exclusive_take:
  assumes "exclusive s R" "take_conn key (pool s) = (x, p)"
  shows "exclusive (s\<lparr>pool := p\<rparr>) (mset (case x of None \<Rightarrow> [] | Some c \<Rightarrow> [c]) + R)"
proof -
  have wf: "pool_wf (pool s)" using assms(1) by (simp add: exclusive_def)
  show ?thesis
  proof (cases x)
    case None
    with assms(2) have "p = pool s" by (auto simp: take_conn_def split: option.splits if_splits)
    with assms(1) None show ?thesis by simp
  next
    case (Some c)
    with sync_pool.take_conns [OF wf] sync_pool.wf_take [OF wf, of key] assms show ?thesis
      by (auto simp: exclusive_def)
  qed
qed

lemma task_end_exclusive:
  "task_end net c t raw reused r s = (k, s') \<Longrightarrow> exclusive s ({#c#} + R) \<or> exclusive s R \<Longrightarrow> exclusive s' (mset (holds k) + R)"
  using exclusive_less [of s "{#c#}" R] exclusive_world [of s R, OF _ close_made]
  by (auto simp: task_end_def split: sum.splits failure.splits if_splits)

lemma loop_end_exclusive:
  assumes "loop_end net c t raw reused x s = (k, s')" "exclusive s ({#c#} + R)"
  shows "exclusive s' (mset (holds k) + R)"
proof (cases x)
  case (Inl f)
  with assms task_end_exclusive show ?thesis by (auto simp: loop_end_def)
next
  case (Inr q)
  let ?key = "(t_host t, t_port t)"
  obtain r s1 where f: "finish_exchange net reused c ?key q s = (r, s1)" by fastforce
  with assms(1) Inr have e: "task_end net c t raw reused r s1 = (k, s')" by (simp add: loop_end_def)
  have "exclusive (s\<lparr>world := n_close net c (world s)\<rparr>) ({#c#} + R)"
    using assms(2) close_made by (rule exclusive_world)
  with f exclusive_give [OF assms(2)] assms(2) have "exclusive s1 ({#c#} + R) \<or> exclusive s1 R"
    by (auto simp: finish_exchange_def Let_def split: option.splits if_splits)
  from task_end_exclusive [OF e this] show ?thesis .
qed

lemma task_step_exclusive:
  assumes "task_step net cd uni cfg k s = (k', s', ops)" "exclusive s (mset (holds k) + R)"
  shows "exclusive s' (mset (holds k') + R)"
proof (cases k)
  case (Asked rq u)
  with assms exclusive_take [of s R] show ?thesis
    by (fastforce simp: task_ask_def split: sum.splits prod.splits option.splits)
next
  case (Dialling t raw)
  obtain x w where c: "n_connect net cfg t (world s) = (x, w)" by fastforce
  have old: "exclusive s R" using assms(2) Dialling by simp
  show ?thesis
  proof (cases x)
    case (Inl e)
    with assms(1) Dialling c exclusive_world [OF old connect_made [OF c]] show ?thesis by (auto simp: task_dial_def)
  next
    case (Inr d)
    from connect_new [OF c [unfolded Inr]] old
    have "exclusive (s\<lparr>world := w\<rparr>) ({#d#} + R)"
      using once_new [of "made (world s)" "pool_mset (pool s) + R" d] by (auto simp: exclusive_def once_def)
    with Inr assms(1) Dialling c show ?thesis by (auto simp: task_dial_def)
  qed
next
  case (Sending c t raw reused)
  obtain x w where x: "n_write net (s_timeout_ms cfg) c raw (world s) = (x, w)" by fastforce
  have "exclusive (s\<lparr>world := w\<rparr>) ({#c#} + R)" using exclusive_world [OF assms(2) write_made [OF x]] Sending by simp
  with assms(1) Sending x show ?thesis
    by (cases x) (auto simp: task_send_def intro: task_end_exclusive split: prod.splits)
next
  case (Receiving c t raw reused p received)
  obtain x w where x: "n_read net (s_timeout_ms cfg) c (world s) = (x, w)" by fastforce
  have old: "exclusive s ({#c#} + R)" using assms(2) Receiving by simp
  have "exclusive (s\<lparr>world := w\<rparr>) ({#c#} + R)" using exclusive_world [OF old read_made [OF x]] .
  with old assms(1) Receiving x show ?thesis
    by (cases x) (auto simp: task_receive_def Let_def intro: loop_end_exclusive split: prod.splits sum.splits if_splits)
qed (use assms in auto)

lemma hands_apart:
  assumes "exclusive s (mset (in_hands ks))" "i < length ks" "j < length ks" "i \<noteq> j" "c \<in> set (holds (ks ! i))"
  shows "c \<notin> set (holds (ks ! j))"
proof
  assume "c \<in> set (holds (ks ! j))"
  obtain R where R: "mset (in_hands ks) = mset (holds (ks ! i)) + R" "\<forall>k. mset (in_hands (ks[i := k])) = mset (holds k) + R"
    using in_hands_split [OF assms(2)] by blast
  have "ks[i := Dropped] ! j = ks ! j" "j < length (ks[i := Dropped])" using assms(3,4) by simp_all
  with \<open>c \<in> set (holds (ks ! j))\<close> have "c \<in> set (in_hands (ks[i := Dropped]))"
    unfolding in_hands_def by (metis UN_I nth_mem set_concat set_map image_eqI)
  then have "c \<in># R" using R(2) by (metis holds.simps(6) mset.simps(1) add_0 set_mset_mset)
  moreover have "c \<in># mset (holds (ks ! i))" using assms(5) by simp
  ultimately have "0 < count R c" "0 < count (mset (holds (ks ! i))) c" by (simp_all only: count_greater_zero_iff)
  then have "count (mset (in_hands ks)) c \<ge> 2" unfolding R(1) count_union by linarith
  moreover have "count (mset (in_hands ks)) c \<le> 1"
    using assms(1) unfolding exclusive_def once_def count_union by (meson add_leE)
  ultimately show False by simp
qed

text \<open>Reads are by who wrote last, and a task that reads wrote last on its connection.\<close>

definition turns_ok :: "('x, 'w) clients \<Rightarrow> bool" where
  "turns_ok S \<longleftrightarrow> exclusive (cl_session S) (mset (in_hands (cl_tasks S))) \<and> read_by_writer (\<lambda>c. None) (cl_trace S)
     \<and> (\<forall>i < length (cl_tasks S). \<forall>c t raw reused p received.
          cl_tasks S ! i = Receiving c t raw reused p received \<longrightarrow> writers (\<lambda>c. None) (cl_trace S) c = Some i)"

lemma task_end_not_receiving: "task_end net c t raw reused r s = (k, s') \<Longrightarrow> k \<noteq> Receiving d t' raw' reused' p received"
  by (auto simp: task_end_def split: sum.splits failure.splits if_splits)

lemma loop_end_not_receiving: "loop_end net c t raw reused x s = (k, s') \<Longrightarrow> k \<noteq> Receiving d t' raw' reused' p received"
  by (auto simp: loop_end_def split: sum.splits prod.splits dest: task_end_not_receiving)

text \<open>What a step does on the wire: it opens the connection that it then holds, or uses the one it holds.\<close>

lemma task_step_ops:
  assumes "task_step net cd uni cfg k s = (k', s', ops)"
  shows "(\<exists>c. ops = [(c, Opened)] \<and> holds k = [] \<and> holds k' = [c]
        \<and> (\<forall>d t raw reused p received. k' \<noteq> Receiving d t raw reused p received))
    \<or> (\<exists>c raw. ops = [(c, Wrote raw)] \<and> holds k = [c]
        \<and> (\<forall>d t raw reused p received. k' = Receiving d t raw reused p received \<longrightarrow> d = c))
    \<or> (\<exists>c t raw reused p received. k = Receiving c t raw reused p received \<and> (ops = [] \<or> (\<exists>b. ops = [(c, Got b)]))
        \<and> (\<forall>d t raw reused p received. k' = Receiving d t raw reused p received \<longrightarrow> d = c))
    \<or> (ops = [] \<and> (\<forall>d t raw reused p received. k' \<noteq> Receiving d t raw reused p received))"
proof (cases k)
  case (Receiving c t raw reused p received)
  with assms show ?thesis
    by (auto simp: task_receive_def Let_def split: prod.splits sum.splits if_splits dest: loop_end_not_receiving)
next
  case (Sending c t raw reused)
  with assms show ?thesis
    by (auto simp: task_send_def split: prod.splits sum.splits dest: task_end_not_receiving)
qed (use assms in \<open>auto simp: task_ask_def task_dial_def split: prod.splits sum.splits option.splits\<close>)

lemma turn_ok:
  assumes "turns_ok S" "i < length (cl_tasks S)"
    and step: "task_step net cd uni cfg (cl_tasks S ! i) (cl_session S) = (k, s, ops)"
  shows "turns_ok \<lparr>cl_session = s, cl_tasks = (cl_tasks S)[i := k], cl_trace = cl_trace S @ map (Pair i) ops\<rparr>"
proof -
  let ?ks = "cl_tasks S" and ?f = "writers (\<lambda>c. None) (cl_trace S)"
  have ex: "exclusive (cl_session S) (mset (in_hands ?ks))" using assms(1) by (simp add: turns_ok_def)
  obtain R where R: "mset (in_hands ?ks) = mset (holds (?ks ! i)) + R" "\<forall>k. mset (in_hands (?ks[i := k])) = mset (holds k) + R"
    using in_hands_split [OF assms(2)] by blast
  have ex': "exclusive s (mset (in_hands (?ks[i := k])))"
    using task_step_exclusive [OF step] ex R by simp
  have reads: "?f c = Some j" if "j < length ?ks" "?ks ! j = Receiving c t raw reused p received" for j c t raw reused p received
    using assms(1) that by (auto simp: turns_ok_def)
  have other: "c \<notin> fst ` set ops" if "j < length ?ks" "j \<noteq> i" "c \<in> set (holds (?ks ! j))" for j c
    using task_step_ops [OF step] hands_apart [OF ex that(1) assms(2) that(2,3)]
      hands_apart [OF ex', of j i c] that assms(2) by fastforce
  have tail: "writers ?f (map (Pair i) ops) c = (if c \<in> fst ` set ops then writers ?f (map (Pair i) ops) c else ?f c)" for c
    using task_step_ops [OF step] by auto
  have "read_by_writer ?f (map (Pair i) ops)"
    using task_step_ops [OF step] reads [OF assms(2)] by auto
  moreover have "writers ?f (map (Pair i) ops) c = Some j"
    if "j < length ?ks" "?ks[i := k] ! j = Receiving c t raw reused p received" for j c t raw reused p received
  proof (cases "j = i")
    case True
    with that task_step_ops [OF step] reads [OF assms(2)] show ?thesis by auto
  next
    case False
    with that have "?ks ! j = Receiving c t raw reused p received" by simp
    with reads [OF that(1)] other [OF that(1) False, of c] tail [of c] show ?thesis by simp
  qed
  ultimately show ?thesis
    using ex' assms(1) by (auto simp: turns_ok_def writers_append read_by_writer_append)
qed

lemma closed_made: "made w \<subseteq> made (foldl (\<lambda>w c. n_close net c w) w cs)"
proof (induction cs arbitrary: w)
  case (Cons c cs)
  then show ?case using close_made by (metis foldl_Cons order_trans)
qed simp

lemma advance_ok: "turns_ok S \<Longrightarrow> turns_ok (advance net cd uni cfg x S)"
proof (cases x)
  case (Spawn rq u)
  assume "turns_ok S"
  with Spawn show ?thesis by (auto simp: turns_ok_def in_hands_def nth_append split: if_splits)
next
  case (Turn i)
  assume "turns_ok S"
  with Turn turn_ok [of S i] show ?thesis by (auto split: prod.split)
next
  case (Cancel i)
  assume ok: "turns_ok S"
  show ?thesis
  proof (cases "i < length (cl_tasks S)")
    case True
    then obtain R where R: "mset (in_hands (cl_tasks S)) = mset (holds (cl_tasks S ! i)) + R"
      "\<forall>k. mset (in_hands ((cl_tasks S)[i := k])) = mset (holds k) + R"
      using in_hands_split by blast
    with ok have "exclusive (cl_session S) (mset (in_hands ((cl_tasks S)[i := Dropped])))"
      using exclusive_less [of "cl_session S" "mset (holds (cl_tasks S ! i))" R] by (simp add: turns_ok_def)
    with ok Cancel True show ?thesis by (auto simp: turns_ok_def nth_list_update split: if_splits)
  next
    case False
    then have "(cl_tasks S)[i := Dropped] = cl_tasks S" by (simp add: list_update_beyond)
    with ok Cancel show ?thesis by (simp add: turns_ok_def)
  qed
next
  case CloseAll
  assume ok: "turns_ok S"
  then have "exclusive ((cl_session S)\<lparr>pool := []\<rparr>) (mset (in_hands (cl_tasks S)))"
    by (auto simp: turns_ok_def exclusive_def pool_wf_def intro: once_sub)
  from exclusive_world [OF this, of "foldl (\<lambda>w c. n_close net c w) (world (cl_session S)) (pooled_conns (pool (cl_session S)))"]
  have "exclusive (client_close net (cl_session S)) (mset (in_hands (cl_tasks S)))"
    using closed_made by (simp add: client_close_def exclusive_def)
  moreover note ok
  ultimately show ?thesis using CloseAll by (simp add: turns_ok_def)
qed

lemma schedule_ok: "turns_ok S \<Longrightarrow> turns_ok (schedule_run net cd uni cfg choices S)"
  unfolding schedule_run_def by (induction choices arbitrary: S) (simp_all add: advance_ok)

lemma start_ok: "turns_ok (no_tasks w)"
  by (simp add: turns_ok_def no_tasks_def in_hands_def exclusive_def pool_wf_def once_def)

lemma turns_distinct: "turns_ok S \<Longrightarrow> distinct (pooled_conns (pool (cl_session S)) @ in_hands (cl_tasks S))"
  by (rule once_distinct [of "made (world (cl_session S))"]) (simp add: turns_ok_def exclusive_def pool_mset_def)

end

section \<open>Properties\<close>

lemma one_task_runs:
  "\<exists>tr'. schedule_run net cd uni cfg (replicate n (Turn 0)) \<lparr>cl_session = s, cl_tasks = [k], cl_trace = tr\<rparr>
    = (let (k, s) = task_run net cd uni cfg n (k, s) in \<lparr>cl_session = s, cl_tasks = [k], cl_trace = tr'\<rparr>)"
proof (induction n arbitrary: k s tr)
  case 0
  show ?case by (simp add: schedule_run_def)
next
  case (Suc n)
  obtain k1 s1 ops where one: "task_step net cd uni cfg k s = (k1, s1, ops)" by (metis prod_cases3)
  then have "schedule_run net cd uni cfg (replicate (Suc n) (Turn 0)) \<lparr>cl_session = s, cl_tasks = [k], cl_trace = tr\<rparr>
      = schedule_run net cd uni cfg (replicate n (Turn 0)) \<lparr>cl_session = s1, cl_tasks = [k1], cl_trace = tr @ map (Pair 0) ops\<rparr>"
    by (simp add: schedule_run_def)
  with Suc.IH [of s1 k1 "tr @ map (Pair 0) ops"] one show ?case by simp
qed

text \<open>
  A request that is under way when the client is closed puts its connection into the pool
  afterwards, where nothing closes it.
\<close>

lemma close_misses_requests:
  assumes "cl_tasks S = [Receiving c t raw reused q received]" "is_complete q" "p_response q = Some r" "reusable q r"
  shows "pool (cl_session (schedule_run net cd uni cfg [CloseAll, Turn 0] S)) = [((t_host t, t_port t), [c])]"
  using assms
  by (simp add: schedule_run_def task_receive_def loop_end_def finish_exchange_def task_end_def client_close_def
      give_conn_def Let_def)

text \<open>
  C22: the tasks are the requests of the client: a single task that takes turn after turn ends
  with the result of \<open>perform\<close> and leaves the pool and the world as \<open>perform\<close> does, the retry on
  a fresh connection included.
\<close>

theorem request_alone:
  assumes "perform net cd uni cfg rq u s = Some (r, s')"
  shows "\<exists>n tr. schedule_run net cd uni cfg (Spawn rq u # replicate n (Turn 0)) \<lparr>cl_session = s, cl_tasks = [], cl_trace = []\<rparr>
    = \<lparr>cl_session = s', cl_tasks = [Finished r], cl_trace = tr\<rparr>"
proof -
  from asked_leads [OF assms] obtain n where "task_run net cd uni cfg n (Asked rq u, s) = (Finished r, s')"
    by (auto simp: leads_to_def)
  with one_task_runs [of net cd uni cfg n s "Asked rq u" "[]"] show ?thesis
    by (auto simp: schedule_run_def)
qed

lemma request_alone_witness:
  "\<exists>n tr r s'. schedule_run demo_net demo_codec demo_unicode demo_settings
      (Spawn (demo_req ''GET'') ''https://h'' # replicate n (Turn 0))
      \<lparr>cl_session = \<lparr>pool = [((''h'', 443), [4])], world = ([] # demo_answer, [])\<rparr>, cl_tasks = [], cl_trace = []\<rparr>
    = \<lparr>cl_session = s', cl_tasks = [Finished r], cl_trace = tr\<rparr>"
proof -
  obtain r s' where "perform demo_net demo_codec demo_unicode demo_settings (demo_req ''GET'') ''https://h''
      \<lparr>pool = [((''h'', 443), [4])], world = ([] # demo_answer, [])\<rparr> = Some (r, s')"
    using perform_returns [OF demo_reads_end] by fastforce
  from request_alone [OF this] show ?thesis by blast
qed

end
