(* ===== verification/Core_Tasks.thy ===== *)
theory Core_Tasks
  imports Core_Session Client_Tasks
begin

text \<open>
  Concurrent requests of one client over the native core, whose connections are new objects: the
  interface \<open>fresh_net\<close> for the \<open>net\<close> of \<open>Core_Client\<close>.
\<close>

section \<open>Connections of the core are new\<close>

definition made_conns :: "'c client_world \<Rightarrow> conn set" where
  "made_conns w = {k. k < cw_next w}"

lemma made_put [simp]: "made_conns (put_conn k n w) = made_conns w"
  by (simp add: made_conns_def put_conn_def)

lemma connect_next: "client_connect ou cfg t w = (r, w') \<Longrightarrow> cw_next w' = cw_next w + 1 \<and> (\<forall>k. r = Inr k \<longrightarrow> k = cw_next w)"
  by (auto simp: client_connect_def Let_def put_conn_def split: prod.splits option.splits effect.splits)

interpretation core_fresh: fresh_net "client_net ou" cfg made_conns for ou cfg
proof unfold_locales
  show "n_connect (client_net ou) cfg t w = (Inr c, w') \<Longrightarrow> c \<notin> made_conns w \<and> insert c (made_conns w) \<subseteq> made_conns w'" for t w c w'
    by (auto simp: client_net_def made_conns_def dest: connect_next)
  show "n_connect (client_net ou) cfg t w = (r, w') \<Longrightarrow> made_conns w \<subseteq> made_conns w'" for t w r w'
    by (auto simp: client_net_def made_conns_def dest: connect_next)
  show "n_write (client_net ou) ms d raw w = (r, w') \<Longrightarrow> made_conns w \<subseteq> made_conns w'" for ms d raw w r w'
    by (auto simp: client_net_def client_write_def Let_def split: list.splits)
  show "n_read (client_net ou) ms d w = (r, w') \<Longrightarrow> made_conns w \<subseteq> made_conns w'" for ms d w r w'
    by (auto simp: client_net_def client_read_def Let_def split: prod.splits)
  show "made_conns w \<subseteq> made_conns (n_close (client_net ou) d w)" for w d
    by (simp add: client_net_def conn_close_def Let_def)
qed

section \<open>Properties\<close>

text \<open>
  C21: requests that run at the same time do not get into each other's way: in any schedule of
  any number of requests, their cancellations and \<open>close\<close>, no connection is pooled twice, held by
  two requests, or pooled while held, and every byte that is read from a connection is read by
  the request that wrote last on it.
\<close>

theorem requests_keep_apart:
  "let S = schedule_run (client_net ou) cd uni cfg choices (no_tasks w) in
     distinct (pooled_conns (pool (cl_session S)) @ in_hands (cl_tasks S)) \<and> read_by_writer (\<lambda>c. None) (cl_trace S)"
proof -
  have "core_fresh.turns_ok (schedule_run (client_net ou) cd uni cfg choices (no_tasks w))"
    by (rule core_fresh.schedule_ok) (rule core_fresh.start_ok)
  then show ?thesis
    using core_fresh.turns_distinct unfolding Let_def core_fresh.turns_ok_def by blast
qed

end
