(* ===== verification/Hello.thy ===== *)
theory Hello
  imports Core_Client Probe
begin

text \<open>
  The extensions a caller asks for, from the arguments of \<open>Client\<close> or a \<open>TlsConfig\<close> through
  \<open>normalize_extensions\<close> and the setup of the core to the ClientHello that Fizz sends.
\<close>

definition managed_types :: "nat set" where
  "managed_types = nat ` set FIZZ_MANAGED_EXTENSIONS"

definition wire_extensions :: "(int \<times> bytes) list \<Rightarrow> (nat \<times> bytes) list" where
  "wire_extensions items = map (\<lambda>(n, d). (nat n, d)) items"

text \<open>What a ClientHello should be: Fizz's own extensions, then the caller's, no type twice.\<close>

definition hello_ok :: "(nat \<times> bytes) list \<Rightarrow> (int \<times> bytes) list \<Rightarrow> (nat \<times> bytes) list \<Rightarrow> bool" where
  "hello_ok fizz items hello \<longleftrightarrow>
     distinct (map fst hello)
     \<and> filter (\<lambda>(n, d). n \<in> managed_types) hello = fizz
     \<and> filter (\<lambda>(n, d). n \<notin> managed_types) hello = wire_extensions items
     \<and> (\<forall>(n, d) \<in> set (wire_extensions items). n < 2 ^ 16 \<and> length d < 2 ^ 16)"

lemma managed_nonneg: "n \<in> set FIZZ_MANAGED_EXTENSIONS \<Longrightarrow> 0 \<le> n"
  by (auto simp: FIZZ_MANAGED_EXTENSIONS_def)

lemma wire_unmanaged:
  assumes "extension_ok (n, d)"
  shows "nat n \<notin> managed_types" "nat n < 2 ^ 16" "length d < 2 ^ 16"
  using assms managed_nonneg by (auto simp: extension_ok_def managed_types_def eq_nat_nat_iff)

lemma wire_all:
  assumes "list_all extension_ok items" "x \<in> set (wire_extensions items)"
  shows "fst x \<notin> managed_types \<and> fst x < 2 ^ 16 \<and> length (snd x) < 2 ^ 16"
proof -
  from assms(2) obtain n d where nd: "(n, d) \<in> set items" "x = (nat n, d)" by (auto simp: wire_extensions_def)
  with assms(1) have "extension_ok (n, d)" by (auto simp: list_all_iff)
  with wire_unmanaged nd(2) show ?thesis by simp
qed

lemma wire_distinct:
  assumes "list_all extension_ok items" "distinct (map fst items)"
  shows "distinct (map fst (wire_extensions items))"
proof -
  have "map fst (wire_extensions items) = map nat (map fst items)" by (auto simp: wire_extensions_def)
  moreover have "inj_on nat (set (map fst items))"
    using assms(1) by (intro inj_on_inverseI [of _ int]) (auto simp: list_all_iff extension_ok_def)
  ultimately show ?thesis using assms(2) by (simp only: distinct_map)
qed

lemma hello_of_request:
  assumes "normalize_extensions (Some items) = Inr exts" "build_setup make_chain q = Inr su" "q_extensions q = wire_extensions exts"
    and "distinct (map fst fizz)" "set (map fst fizz) \<subseteq> managed_types"
  shows "hello_ok fizz items (client_hello_extensions su fizz)"
proof -
  have items: "exts = items" "list_all extension_ok items" "distinct (map fst items)"
    using assms(1) check_extensions_Inr [of "[]" items exts] by (auto simp: normalize_extensions_def)
  have "client_hello_extensions su fizz = fizz @ wire_extensions items"
    using assms(2,3) items(1) by (auto simp: build_setup_def client_hello_extensions_def Let_def split: if_splits option.splits)
  moreover have w: "\<forall>x \<in> set (wire_extensions items). fst x \<notin> managed_types \<and> fst x < 2 ^ 16 \<and> length (snd x) < 2 ^ 16"
    using wire_all [OF items(2)] by blast
  moreover have f: "\<forall>x \<in> set fizz. fst x \<in> managed_types" using assms(5) by auto
  moreover have "distinct (map fst (fizz @ wire_extensions items))"
  proof -
    have "set (map fst fizz) \<inter> set (map fst (wire_extensions items)) = {}" using w f by force
    then show ?thesis using assms(4) wire_distinct [OF items(2,3)] by (simp only: map_append distinct_append)
  qed
  ultimately show ?thesis
    by (auto simp: hello_ok_def split_beta filter_id_conv filter_empty_conv)
qed

text \<open>A TLS socket and the asynchronous handshake.\<close>

lemma socket_hello:
  assumes "normalized_extensions cfg = Inr exts" "build_setup make_chain (core_request name cfg ca ms exts) = Inr su"
    and "distinct (map fst fizz)" "set (map fst fizz) \<subseteq> managed_types"
  shows "hello_ok fizz (c_extensions cfg) (client_hello_extensions su fizz)"
  using assms
  by (intro hello_of_request [OF _ assms(2)]) (simp_all add: normalized_extensions_def core_request_def wire_extensions_def)

text \<open>
  C32: the extensions a client was made with are in the ClientHello of each of its connections,
  all of them, in order and unchanged, after those that Fizz writes; provided that Fizz writes none
  of a type that the code does not list as Fizz's own, no type is there twice.
\<close>

theorem client_hello:
  assumes "client_init mul ca gs verify cafile timeout alpn groups (Some items) follow max_redirects = Inr cfg"
    and "build_setup make_chain (connect_request cfg t) = Inr su"
    and "distinct (map fst fizz)" "set (map fst fizz) \<subseteq> managed_types"
  shows "hello_ok fizz items (client_hello_extensions su fizz)"
proof -
  have "normalize_extensions (Some items) = Inr (s_extensions cfg)"
    using assms(1) by (auto simp: client_init_def split: sum.splits)
  then show ?thesis
    by (rule hello_of_request [OF _ assms(2) _ assms(3,4)]) (simp add: connect_request_def wire_extensions_def)
qed

lemma client_hello_witness:
  "\<exists>cfg su. client_init (\<lambda>r. Fin (r * 1000)) ''ca'' [29] True None None None None (Some [(21, ''pad''), (4660, [])]) True 10 = Inr cfg
    \<and> build_setup demo_chain (connect_request cfg demo_target) = Inr su
    \<and> client_hello_extensions su [(0, ''h''), (43, [])] = [(0, ''h''), (43, []), (21, ''pad''), (4660, [])]
    \<and> hello_ok [(0, ''h''), (43, [])] [(21, ''pad''), (4660, [])] (client_hello_extensions su [(0, ''h''), (43, [])])"
proof -
  let ?init = "client_init (\<lambda>r. Fin (r * 1000)) ''ca'' [29] True None None None None (Some [(21, ''pad''), (4660, [])]) True 10"
  define cfg where "cfg = \<lparr>s_verify = True, s_cafile = ''ca'', s_timeout_ms = 0, s_alpn = [''http/1.1''], s_groups = [29],
    s_extensions = [(21, ''pad''), (4660, [])], s_follow_redirects = True, s_max_redirects = 10\<rparr>"
  have init: "?init = Inr cfg"
    by (simp add: client_init_def timeout_to_ms_def normalize_extensions_def FIZZ_MANAGED_EXTENSIONS_def cfg_def)
  obtain su where su: "build_setup demo_chain (connect_request cfg demo_target) = Inr su"
    by (simp add: build_setup_def connect_request_def cfg_def demo_chain_def Let_def)
  have "0 \<in> managed_types" "43 \<in> managed_types" by (auto simp: managed_types_def FIZZ_MANAGED_EXTENSIONS_def image_iff)
  then have "hello_ok [(0, ''h''), (43, [])] [(21, ''pad''), (4660, [])] (client_hello_extensions su [(0, ''h''), (43, [])])"
    by (intro client_hello [OF init su]) simp_all
  moreover have "client_hello_extensions su [(0, ''h''), (43, [])] = [(0, ''h''), (43, []), (21, ''pad''), (4660, [])]"
    using su by (auto simp: build_setup_def connect_request_def cfg_def client_hello_extensions_def Let_def split: option.splits)
  ultimately show ?thesis using init su by blast
qed

section \<open>The examples\<close>

text \<open>\<open>examples/pq_marker.py\<close>: a client with one extension of a private type, and else the defaults.\<close>

definition MARKER :: "int \<times> bytes" where
  "MARKER = (0xFE5A, ''hello from fizzpy'')"

definition marker_client :: "(rat \<Rightarrow> pyfloat) \<Rightarrow> latin \<Rightarrow> nat list \<Rightarrow> init_error + settings" where
  "marker_client mul ca gs = client_init mul ca gs True None (Some (Fin 30)) None None (Some [MARKER]) True 10"

lemma marker_sent:
  assumes "marker_client mul ca gs = Inr cfg" "build_setup make_chain (connect_request cfg t) = Inr su"
    and "distinct (map fst fizz)" "set (map fst fizz) \<subseteq> managed_types"
  shows "hello_ok fizz [MARKER] (client_hello_extensions su fizz)"
proof -
  have "normalize_extensions (Some [MARKER]) = Inr (s_extensions cfg)"
    using assms(1) by (auto simp: marker_client_def client_init_def split: sum.splits)
  then show ?thesis
    by (rule hello_of_request [OF _ assms(2) _ assms(3,4)]) (simp add: connect_request_def wire_extensions_def)
qed

text \<open>
  \<open>examples/httpx_transport.py\<close> and \<open>examples/requests_adapter.py\<close>: a configuration with one group.
  The ClientHello then offers it alone, with a key share for it.
\<close>

definition pq_only_config :: "nat list \<Rightarrow> tls_config" where
  "pq_only_config gs = (default_config gs)\<lparr>c_groups := [x25519_mlkem768]\<rparr>"

lemma pq_only_offer:
  assumes "build_setup make_chain (core_request name (pq_only_config gs) ca ms exts) = Inr su"
  shows "su_groups su = Some [x25519_mlkem768] \<and> su_shares su = Some [x25519_mlkem768]"
  using assms by (auto simp: build_setup_def core_request_def pq_only_config_def Let_def split: if_splits option.splits)

end
