(* ===== verification/Wheel_Smoke.thy ===== *)
theory Wheel_Smoke
  imports Core_Handshake
begin

text \<open>
  \<open>scripts/wheel_smoke.py\<close>, with which every wheel is tested: it wraps a socket whose peer hangs up
  and expects an SSL error, as a sign that the socket was duplicated and adopted. The script is
  modelled from its call of \<open>wrap_socket\<close> on; over the core of \<open>Core_Handshake\<close> the sign is a
  proof.
\<close>

datatype smoke_end = AssertionFailed | HandshakeSucceeded | Uncaught "tls_error option" | Misconfigured | SmokePassed

definition smoke :: "bool \<Rightarrow> tls_error option wrap_error + tls_socket \<Rightarrow> smoke_end" where
  "smoke pq result =
     (if \<not> pq then AssertionFailed
      else case result of
          Inr _ \<Rightarrow> HandshakeSucceeded
        | Inl (WrapRaised (Some e)) \<Rightarrow> if t_ssl e then SmokePassed else Uncaught (Some e)
        | Inl (WrapRaised None) \<Rightarrow> Uncaught None
        | Inl _ \<Rightarrow> Misconfigured)"

definition smoke_config :: "nat list \<Rightarrow> tls_config" where
  "smoke_config default_groups = (default_config default_groups)\<lparr>c_verify := False, c_timeout := Some (Fin 10)\<rparr>"

definition smoke_main ::
    "(rat \<Rightarrow> pyfloat) \<Rightarrow> latin \<Rightarrow> nat list \<Rightarrow> bool \<Rightarrow> (tls_error option, 'o) os_core \<Rightarrow> 'o \<Rightarrow> handles \<Rightarrow> smoke_end" where
  "smoke_main mul default_ca default_groups pq os client hs =
     smoke pq (fst (wrap_socket mul default_ca default_groups os client ''localhost'' (Some (smoke_config default_groups)) hs))"

lemma make_tls_error_ssl: "t_ssl (make_tls_error msg cert alert)"
  by (simp add: make_tls_error_def Let_def)

lemma connection_error_not_ssl: "\<not> t_ssl (connection_error msg)"
  by (simp add: connection_error_def)

text \<open>Without verification, a handshake that Fizz fails is an SSL error exactly when nothing threw before.\<close>

lemma failed_handshake:
  assumes "\<not> q_verify q"
  shows "\<exists>e. handshake_over_core make_chain th (\<lambda>su. Fails exn # es) h q = Inl (Some e)
    \<and> (t_ssl e \<longleftrightarrow> th_socket th = None \<and> th_client th = None \<and> th_connect th = None)"
proof -
  obtain c out where w: "wrap_fd make_chain th h q core_new = (c, out)" by fastforce
  obtain c' outs where l: "life (Fails exn # es) c = (c', outs)" by fastforce
  note own = wrap_fd_owner [OF w] life_owner [OF l conjunct1 [OF wrap_fd_owner [OF w]]]
  show ?thesis
  proof (cases "th_socket th = None \<and> th_client th = None \<and> th_connect th = None")
    case True
    then have "out = []" "cf_promise c" using w assms by (auto simp: wrap_fd_def build_setup_def core_new_def Let_def)
    then obtain rest where "outs = HandshakeFailed (make_tls_error (hx_msg exn) (hx_verification exn) (or_else (hx_alert exn) [])) # rest"
      using l by (auto simp: handshake_error_def split: prod.splits)
    with True w l \<open>out = []\<close> show ?thesis
      by (simp add: handshake_over_core_def make_tls_error_ssl del: life.simps)
  next
    case False
    then obtain what where "verdicts out = [HandshakeFailed (connection_error (''wrap failed: '' @ what))]"
      using w assms by (auto simp: wrap_fd_def build_setup_def core_new_def Let_def split: option.splits)
    moreover from this own have "verdicts outs = []" by simp
    ultimately show ?thesis
      using False w l by (auto simp: handshake_over_core_def connection_error_not_ssl simp del: life.simps)
  qed
qed

text \<open>
  The test of a wheel passes exactly when the wheel has post-quantum key exchange and the
  platform could duplicate the socket and the core adopt it: a handshake that the peer ends is an
  SSL error then, and an error of the system otherwise.
\<close>

theorem smoke_tells_adoption:
  assumes "timeout_ms mul (smoke_config default_groups) = Inr ms"
    and "\<forall>x e. dup client hs = Inl x \<longrightarrow> x = Some e \<longrightarrow> \<not> t_ssl e"
  shows "smoke_main mul default_ca default_groups pq (core_os make_chain th (\<lambda>su. Fails exn # es) dup) client hs = SmokePassed
    \<longleftrightarrow> pq \<and> (\<exists>h. dup client hs = Inr h) \<and> th_socket th = None \<and> th_client th = None \<and> th_connect th = None"
proof (cases "dup client hs")
  case (Inl x)
  with assms(2) show ?thesis
    by (auto simp: smoke_main_def wrap_socket_def prepare_wrap_def core_os_def smoke_def normalized_extensions_def
        normalize_extensions_def smoke_config_def default_config_def split: option.splits)
next
  case (Inr h)
  have exts: "normalized_extensions (smoke_config default_groups) = Inr []"
    by (simp add: normalized_extensions_def normalize_extensions_def smoke_config_def default_config_def)
  let ?q = "core_request ''localhost'' (smoke_config default_groups) (resolved_cafile default_ca (smoke_config default_groups)) ms []"
  have "\<not> q_verify ?q" by (simp add: core_request_def smoke_config_def)
  from failed_handshake [OF this] obtain e where
    "handshake_over_core make_chain th (\<lambda>su. Fails exn # es) h ?q = Inl (Some e)"
    "t_ssl e \<longleftrightarrow> th_socket th = None \<and> th_client th = None \<and> th_connect th = None" by blast
  with Inr exts assms(1) show ?thesis
    by (simp add: smoke_main_def wrap_socket_def prepare_wrap_def submit_wrap_def core_os_def smoke_def)
qed

lemma smoke_tells_adoption_witness:
  "smoke_main demo_mul [] [29] True (core_os demo_chain (demo_throws\<lparr>th_socket := Some ''not a socket''\<rparr>)
     (\<lambda>su. [Fails \<lparr>hx_msg = ''peer hung up'', hx_verification = False, hx_alert = None\<rparr>]) (\<lambda>_ _. Inr 9)) ()
     \<lparr>open_handles = {}, adopted = {}\<rparr> \<noteq> SmokePassed"
proof -
  have "timeout_ms demo_mul (smoke_config [29]) = Inr 10000"
    by (simp add: timeout_ms_def timeout_to_ms_def smoke_config_def demo_mul_def)
  from smoke_tells_adoption [where make_chain = demo_chain and dup = "\<lambda>_ _. Inr 9" and client = "()" and es = "[]", OF this]
  show ?thesis by simp
qed

end
