(* ===== verification/Scan.thy ===== *)
theory Scan
  imports Probe "HOL-Library.Multiset"
begin

text \<open>
  Probing many hosts, \<open>probe_many\<close> of \<open>fizzpy/probe.py\<close>: one task per target, at most
  \<open>concurrency\<close> of them past the semaphore, results in the order of completion. The tasks, the
  event loop and the consumer of the generator are the step relation \<open>scan_step\<close>.
\<close>

section \<open>Targets\<close>

text \<open>Strings and \<open>(host, port)\<close> pairs, all parsed before the first connection.\<close>

fun parse_targets :: "(latin \<Rightarrow> latin option) \<Rightarrow> (latin + latin \<times> int) list \<Rightarrow> target_fault + (latin \<times> int) list" where
  "parse_targets nonascii [] = Inr []"
| "parse_targets nonascii (t # ts) =
     and_then (case t of Inl spec \<Rightarrow> parse_target nonascii spec 443 | Inr pair \<Rightarrow> Inr pair)
       (\<lambda>p. and_then (parse_targets nonascii ts) (\<lambda>ps. Inr (p # ps)))"

section \<open>One task\<close>

text \<open>The task \<open>i\<close> has a network of its own, \<open>wires i\<close>.\<close>

definition probe_one ::
    "(latin \<Rightarrow> latin option) \<Rightarrow> (nat \<Rightarrow> 'i wire) \<Rightarrow> pyfloat \<Rightarrow> latin option \<Rightarrow> latin list
      \<Rightarrow> (latin \<times> int) list \<Rightarrow> nat \<Rightarrow> fault + probe_result" where
  "probe_one nonascii wires timeout sni alpn targets i =
     (let (host, p) = targets ! i in
      case fst (probe nonascii (wires i) host p timeout sni alpn) of
        Inr r \<Rightarrow> Inr r
      | Inl e \<Rightarrow>
          if f_kind e = NoPostQuantumSupport \<or> f_kind e = BaseFailure then Inl e
          else Inr (new_result host p ERROR (Some (f_type e @ '': '' @ f_text e))))"

section \<open>The tasks together\<close>

text \<open>
  The semaphore lets tasks in in the order in which they were created. \<open>sc_finished\<close> are the
  outcomes of finished tasks that \<open>as_completed\<close> has not handed out yet.
\<close>

record scan =
  sc_waiting :: "nat list"
  sc_running :: "nat list"
  sc_finished :: "(fault + probe_result) list"
  sc_yielded :: "probe_result list"
  sc_raised :: "fault option"

definition scan_init :: "nat \<Rightarrow> scan" where
  "scan_init n = \<lparr>sc_waiting = [0..<n], sc_running = [], sc_finished = [], sc_yielded = [], sc_raised = None\<rparr>"

text \<open>An exception that leaves the generator: its \<open>finally\<close> cancels the tasks that are left.\<close>

definition ended_by :: "fault \<Rightarrow> scan \<Rightarrow> scan" where
  "ended_by e s = s\<lparr>sc_waiting := [], sc_running := [], sc_finished := [], sc_raised := Some e\<rparr>"

text \<open>
  A task enters, a task ends, the consumer takes a result; or it meets an exception, which ends
  the generator.
\<close>

inductive scan_step :: "int \<Rightarrow> (nat \<Rightarrow> fault + probe_result) \<Rightarrow> scan \<Rightarrow> scan \<Rightarrow> bool"
  for concurrency result where
  enter: "sc_waiting s = i # ws \<Longrightarrow> int (length (sc_running s)) < concurrency \<Longrightarrow>
    scan_step concurrency result s (s\<lparr>sc_waiting := ws, sc_running := sc_running s @ [i]\<rparr>)"
| finish: "i \<in> set (sc_running s) \<Longrightarrow>
    scan_step concurrency result s
      (s\<lparr>sc_running := remove1 i (sc_running s), sc_finished := sc_finished s @ [result i]\<rparr>)"
| yield: "sc_finished s = Inr r # fs \<Longrightarrow>
    scan_step concurrency result s (s\<lparr>sc_finished := fs, sc_yielded := sc_yielded s @ [r]\<rparr>)"
| fail: "sc_finished s = Inl e # fs \<Longrightarrow>
    scan_step concurrency result s (ended_by e s)"

inductive_cases scan_stepE: "scan_step concurrency result s s'"

text \<open>A bound on the steps that are left.\<close>

definition scan_work :: "scan \<Rightarrow> nat" where
  "scan_work s = 3 * length (sc_waiting s) + 2 * length (sc_running s) + length (sc_finished s)"

text \<open>
  A run of the generator. The consumer can also end it while there is work, by closing it, which
  raises \<open>GeneratorExit\<close> where it yields, or by being cancelled while it waits.
\<close>

inductive scan_run :: "int \<Rightarrow> (nat \<Rightarrow> fault + probe_result) \<Rightarrow> nat \<Rightarrow> nat \<Rightarrow> scan \<Rightarrow> bool"
  for concurrency result n where
  run_init: "scan_run concurrency result n 0 (scan_init n)"
| run_step: "scan_run concurrency result n k s \<Longrightarrow> scan_step concurrency result s s' \<Longrightarrow>
    scan_run concurrency result n (Suc k) s'"
| run_stop: "scan_run concurrency result n k s \<Longrightarrow> scan_work s \<noteq> 0 \<Longrightarrow> f_kind e = BaseFailure \<Longrightarrow>
    scan_run concurrency result n (Suc k) (ended_by e s)"

section \<open>Invariant, progress and termination\<close>

text \<open>What every task will have given, as a multiset.\<close>

definition scan_total :: "(nat \<Rightarrow> fault + probe_result) \<Rightarrow> scan \<Rightarrow> (fault + probe_result) multiset" where
  "scan_total result s = image_mset result (mset (sc_waiting s)) + image_mset result (mset (sc_running s))
     + mset (sc_finished s) + image_mset Inr (mset (sc_yielded s))"

definition scan_inv :: "int \<Rightarrow> (nat \<Rightarrow> fault + probe_result) \<Rightarrow> nat \<Rightarrow> scan \<Rightarrow> bool" where
  "scan_inv concurrency result n s \<longleftrightarrow>
     (sc_running s \<noteq> [] \<longrightarrow> int (length (sc_running s)) \<le> concurrency)
     \<and> distinct (sc_waiting s @ sc_running s) \<and> set (sc_waiting s @ sc_running s) \<subseteq> {..<n}
     \<and> (case sc_raised s of
          None \<Rightarrow> scan_total result s = image_mset result (mset [0..<n])
        | Some e \<Rightarrow> ((\<exists>i < n. result i = Inl e) \<or> f_kind e = BaseFailure) \<and> scan_work s = 0)"

lemma scan_inv_finished:
  assumes "scan_inv concurrency result n s" "x \<in> set (sc_finished s)" "sc_raised s = None"
  shows "\<exists>i < n. result i = x"
proof -
  have "x \<in># scan_total result s" using assms(2) by (simp add: scan_total_def)
  with assms(1,3) have "x \<in># image_mset result (mset [0..<n])" by (simp add: scan_inv_def)
  then show ?thesis by auto
qed

lemma scan_step_work: "scan_step concurrency result s s' \<Longrightarrow> scan_work s' < scan_work s"
proof (erule scan_stepE)
  fix i
  assume "s' = s\<lparr>sc_running := remove1 i (sc_running s), sc_finished := sc_finished s @ [result i]\<rparr>"
    and i: "i \<in> set (sc_running s)"
  moreover from i obtain m where "length (sc_running s) = Suc m" by (cases "sc_running s") auto
  ultimately show "scan_work s' < scan_work s" by (simp add: scan_work_def length_remove1)
qed (simp_all add: scan_work_def ended_by_def)

lemma ended_by_work [simp]: "scan_work (ended_by e s) = 0"
  by (simp add: scan_work_def ended_by_def)

lemma scan_step_inv:
  assumes "scan_step concurrency result s s'" "scan_inv concurrency result n s"
  shows "scan_inv concurrency result n s'"
proof -
  have raised: "sc_raised s = None"
    using assms scan_step_work [OF assms(1)] by (auto simp: scan_inv_def split: option.splits)
  from assms(1) show ?thesis
  proof cases
    case (enter i ws)
    with assms(2) raised show ?thesis by (auto simp: scan_inv_def scan_total_def)
  next
    case (finish i)
    have "image_mset result (mset (sc_running s)) = add_mset (result i) (image_mset result (mset (sc_running s) - {#i#}))"
      using finish(2) by (metis image_mset_add_mset insert_DiffM set_mset_mset)
    then show ?thesis
      using assms(2) raised finish
      by (auto simp: scan_inv_def scan_total_def length_remove1 dest: notin_set_remove1)
  next
    case (yield r fs)
    with assms(2) raised show ?thesis by (auto simp: scan_inv_def scan_total_def)
  next
    case (fail e fs)
    then have "\<exists>i < n. result i = Inl e" using scan_inv_finished [OF assms(2) _ raised, of "Inl e"] by simp
    with fail show ?thesis by (simp add: scan_inv_def scan_work_def ended_by_def)
  qed
qed

lemma scan_init_inv: "scan_inv concurrency result n (scan_init n)"
  by (auto simp: scan_inv_def scan_init_def scan_total_def)

lemma scan_run_inv:
  "scan_run concurrency result n k s \<Longrightarrow> scan_inv concurrency result n s \<and> k + scan_work s \<le> 3 * n"
proof (induction rule: scan_run.induct)
  case run_init
  then show ?case by (simp add: scan_init_inv) (simp add: scan_init_def scan_work_def)
next
  case (run_step k s s')
  with scan_step_work [OF run_step(2)] scan_step_inv show ?case by fastforce
next
  case (run_stop k s e)
  have "scan_inv concurrency result n (ended_by e s)"
    using run_stop(3) by (simp add: scan_inv_def ended_by_def scan_work_def)
  with run_stop show ?case by simp
qed

lemma scan_progress:
  assumes "1 \<le> concurrency" "scan_work s \<noteq> 0"
  shows "\<exists>s'. scan_step concurrency result s s'"
proof (cases "sc_finished s")
  case (Cons x fs)
  then show ?thesis using scan_step.yield scan_step.fail by (cases x) blast+
next
  case Nil
  show ?thesis
  proof (cases "sc_running s")
    case (Cons i js)
    then show ?thesis using scan_step.finish [of i s] by auto
  next
    case running: Nil
    with Nil assms obtain i ws where "sc_waiting s = i # ws" by (cases "sc_waiting s") (auto simp: scan_work_def)
    with running assms(1) show ?thesis using scan_step.enter [of s i ws concurrency] by auto
  qed
qed

text \<open>Of the exceptions of a probe, a task lets two through; its results are of its target.\<close>

definition target_of :: "probe_result \<Rightarrow> latin \<times> int" where
  "target_of r = (pr_host r, pr_port r)"

lemma probe_one_cases:
  "probe_one nonascii wires timeout sni alpn targets i = Inl e \<Longrightarrow> f_kind e \<in> {NoPostQuantumSupport, BaseFailure}"
  "probe_one nonascii wires timeout sni alpn targets i = Inr r \<Longrightarrow> target_of r = targets ! i"
  by (auto simp: probe_one_def target_of_def new_result_def
      split: prod.splits sum.splits if_splits dest: probe_target)

text \<open>A state in which the generator has ended: nothing is left to do.\<close>

definition scan_ended :: "int \<Rightarrow> (nat \<Rightarrow> fault + probe_result) \<Rightarrow> scan \<Rightarrow> bool" where
  "scan_ended concurrency result s \<longleftrightarrow> \<not> (\<exists>s'. scan_step concurrency result s s')"

lemma scan_ended_result:
  assumes "1 \<le> concurrency" "scan_run concurrency result n k s" "scan_ended concurrency result s"
  shows "case sc_raised s of
      None \<Rightarrow> mset (map Inr (sc_yielded s)) = mset (map result [0..<n])
    | Some e \<Rightarrow> (\<exists>i < n. result i = Inl e) \<or> f_kind e = BaseFailure"
proof -
  have inv: "scan_inv concurrency result n s" and "scan_work s = 0"
    using scan_run_inv [OF assms(2)] scan_progress [OF assms(1), of s result] assms(3) by (auto simp: scan_ended_def)
  then have "sc_waiting s = []" "sc_running s = []" "sc_finished s = []" by (simp_all add: scan_work_def)
  then show ?thesis using inv by (cases "sc_raised s") (simp_all add: scan_inv_def scan_total_def)
qed

lemma yielded_targets:
  assumes "mset (map Inr rs) = mset (map (probe_one nonascii wires timeout sni alpn targets) [0..<length targets])"
  shows "mset (map target_of rs) = mset targets"
proof -
  let ?one = "probe_one nonascii wires timeout sni alpn targets"
  let ?t = "\<lambda>x. case x of Inr r \<Rightarrow> target_of r | Inl (e :: fault) \<Rightarrow> ([], 0)"
  have one: "?t (?one i) = targets ! i" if "i < length targets" for i
  proof (cases "?one i")
    case (Inr r)
    with probe_one_cases(2) [OF Inr] show ?thesis by simp
  next
    case (Inl e)
    have "?one i \<in># mset (map Inr rs)" unfolding assms using that by auto
    with Inl show ?thesis by auto
  qed
  have "mset (map target_of rs) = image_mset ?t (mset (map Inr rs))"
    by (simp add: multiset.map_comp comp_def)
  also have "\<dots> = mset (map (\<lambda>i. ?t (?one i)) [0..<length targets])"
    unfolding assms by (simp add: multiset.map_comp comp_def)
  also have "map (\<lambda>i. ?t (?one i)) [0..<length targets] = map (\<lambda>i. targets ! i) [0..<length targets]"
    using one by simp
  also have "\<dots> = targets" by (rule map_nth)
  finally show ?thesis .
qed

section \<open>Properties\<close>

text \<open>
  C28: at any time of a scan at most \<open>concurrency\<close> hosts are being probed, no target is probed
  twice, and until the scan is ended every target is waiting, running, finished or yielded,
  exactly once; when an exception or the consumer has ended it, no task is left.
\<close>

theorem scan_bounded:
  assumes "scan_run concurrency result n k s"
  shows "(sc_running s \<noteq> [] \<longrightarrow> int (length (sc_running s)) \<le> concurrency)
    \<and> distinct (sc_waiting s @ sc_running s)
    \<and> (sc_raised s = None \<longrightarrow>
        length (sc_waiting s) + length (sc_running s) + length (sc_finished s) + length (sc_yielded s) = n)
    \<and> (sc_raised s \<noteq> None \<longrightarrow> sc_waiting s = [] \<and> sc_running s = [])"
proof -
  have inv: "scan_inv concurrency result n s" using scan_run_inv [OF assms] by simp
  moreover have "size (scan_total result s) = n" if "sc_raised s = None"
  proof -
    have "scan_total result s = image_mset result (mset [0..<n])" using inv that by (simp add: scan_inv_def)
    then show ?thesis by (simp only: size_image_mset size_mset length_upt)
  qed
  ultimately show ?thesis by (auto simp: scan_inv_def scan_total_def scan_work_def)
qed

text \<open>
  C18: a scan ends after at most three steps per target, and then it has yielded one result for
  every target, whatever happened to the single probes; or it raised, which only a build without
  post-quantum support, a cancellation or a consumer that closes the generator can make it do.
\<close>

theorem scan_delivers:
  assumes "1 \<le> concurrency"
    and "scan_run concurrency (probe_one nonascii wires timeout sni alpn targets) (length targets) k s"
  shows "k \<le> 3 * length targets
    \<and> (scan_ended concurrency (probe_one nonascii wires timeout sni alpn targets) s \<longrightarrow>
        (case sc_raised s of
           None \<Rightarrow> mset (map target_of (sc_yielded s)) = mset targets
         | Some e \<Rightarrow> f_kind e \<in> {NoPostQuantumSupport, BaseFailure}))"
proof -
  have "k \<le> 3 * length targets" using scan_run_inv [OF assms(2)] by simp
  moreover have "case sc_raised s of
      None \<Rightarrow> mset (map target_of (sc_yielded s)) = mset targets
    | Some e \<Rightarrow> f_kind e \<in> {NoPostQuantumSupport, BaseFailure}"
    if "scan_ended concurrency (probe_one nonascii wires timeout sni alpn targets) s"
    using scan_ended_result [OF assms that] probe_one_cases(1) yielded_targets
    by (cases "sc_raised s") (fastforce, fastforce)
  ultimately show ?thesis by blast
qed

text \<open>
  Without a limit of at least one the progress lemma fails: a scan that lets nobody in has ended
  before it began, with tasks that wait forever.
\<close>

lemma zero_concurrency_stuck: "scan_ended 0 result (scan_init n) \<and> sc_yielded (scan_init n) = []"
  by (auto simp: scan_ended_def scan_init_def elim: scan_stepE)

section \<open>The properties at a concrete scan\<close>

text \<open>The host of \<open>demo_wire\<close>, scanned: its task enters, ends, and its result is taken.\<close>

abbreviation demo_targets :: "(latin \<times> int) list" where
  "demo_targets \<equiv> [(''h.example'', 443)]"

abbreviation demo_one :: "nat \<Rightarrow> fault + probe_result" where
  "demo_one \<equiv> probe_one (\<lambda>_. None) (\<lambda>_. demo_wire) (Fin 5) None PROBE_ALPN demo_targets"

definition demo_end :: "probe_result \<Rightarrow> scan" where
  "demo_end r = \<lparr>sc_waiting = [], sc_running = [], sc_finished = [], sc_yielded = [r], sc_raised = None\<rparr>"

lemma demo_scan:
  obtains r where "scan_run 1 demo_one 1 3 (demo_end r)" "scan_ended 1 demo_one (demo_end r)" "target_of r = (''h.example'', 443)"
proof -
  obtain r where r: "demo_one 0 = Inr r"
  proof (cases "fst (demo_probe demo_wire)")
    case (Inl e)
    with demo_blocked show ?thesis by simp
  next
    case (Inr r)
    then show ?thesis using that by (simp add: probe_one_def)
  qed
  let ?s0 = "scan_init 1"
  let ?s1 = "?s0\<lparr>sc_waiting := [], sc_running := sc_running ?s0 @ [0]\<rparr>"
  let ?s2 = "?s1\<lparr>sc_running := remove1 0 (sc_running ?s1), sc_finished := sc_finished ?s1 @ [demo_one 0]\<rparr>"
  let ?s3 = "?s2\<lparr>sc_finished := [], sc_yielded := sc_yielded ?s2 @ [r]\<rparr>"
  have "scan_run 1 demo_one 1 0 ?s0" by (rule run_init)
  then have "scan_run 1 demo_one 1 (Suc 0) ?s1"
    by (rule run_step) (rule enter, simp_all add: scan_init_def)
  then have "scan_run 1 demo_one 1 (Suc (Suc 0)) ?s2"
    by (rule run_step) (rule finish, simp add: scan_init_def)
  then have "scan_run 1 demo_one 1 (Suc (Suc (Suc 0))) ?s3"
    by (rule run_step) (rule scan_step.yield, simp add: scan_init_def r)
  moreover have "?s3 = demo_end r" by (simp add: scan_init_def demo_end_def)
  ultimately have "scan_run 1 demo_one 1 3 (demo_end r)" by (simp add: numeral_3_eq_3)
  moreover have "scan_ended 1 demo_one (demo_end r)"
    by (auto simp: scan_ended_def demo_end_def elim: scan_stepE)
  moreover have "target_of r = (''h.example'', 443)" using probe_one_cases(2) [OF r] by simp
  ultimately show thesis using that by blast
qed

lemma scan_bounded_witness:
  "\<exists>r. scan_run 1 demo_one 1 3 (demo_end r) \<and> length (sc_yielded (demo_end r)) = 1"
proof -
  obtain r where r: "scan_run 1 demo_one 1 3 (demo_end r)" by (rule demo_scan)
  from scan_bounded [OF r] have "length (sc_yielded (demo_end r)) = 1" by (simp add: demo_end_def)
  with r show ?thesis by blast
qed

lemma scan_delivers_witness:
  "\<exists>r. scan_run 1 demo_one 1 3 (demo_end r) \<and> mset (map target_of (sc_yielded (demo_end r))) = mset demo_targets"
proof -
  obtain r where r: "scan_run 1 demo_one 1 3 (demo_end r)" "scan_ended 1 demo_one (demo_end r)" by (rule demo_scan)
  have len: "length demo_targets = 1" by simp
  from scan_delivers [of 1 "\<lambda>_. None" "\<lambda>_. demo_wire" "Fin 5" None PROBE_ALPN demo_targets 3 "demo_end r", unfolded len] r
  show ?thesis by (auto simp: demo_end_def)
qed

end
