(* ===== verification/Json_Reads_Back.thy ===== *)
theory Json_Reads_Back
  imports Py_Json
begin

text \<open>
  \<open>json.loads\<close> after \<open>json.dumps\<close>: strings with their escapes and surrogate pairs, numbers, and
  values of any depth. A string is read back unless a high surrogate stands before a low one in it,
  which no text that was decoded has.
\<close>

section \<open>Strings\<close>

fun no_pair :: "ustr \<Rightarrow> bool" where
  "no_pair (u # v # s) \<longleftrightarrow> \<not> (is_high (code_point u) \<and> is_low (code_point v)) \<and> no_pair (v # s)"
| "no_pair s \<longleftrightarrow> True"

definition string_ok :: "ustr \<Rightarrow> bool" where
  "string_ok s \<longleftrightarrow> list_all uchar_ok s \<and> no_pair s"

lemma lit_ok: "string_ok (lit s)"
proof -
  have "no_pair (lit s)" by (induction s rule: induct_list012) (auto simp: is_high_def not_le less_trans [OF nat_of_char_less_256])
  then show ?thesis by (simp add: string_ok_def list_all_iff)
qed

lemma hex_value_digit: "d < 16 \<Longrightarrow> hex_value (Latin (digit_char d)) = Some d"
  by (simp add: hex_value_def)

lemma hex4_sum: "4096 * (n div 4096) + 256 * (n div 256 mod 16) + 16 * (n div 16 mod 16) + n mod 16 = (n :: nat)"
proof -
  have "n div 16 div 16 = n div 256" "n div 256 div 16 = n div 4096" by (simp_all flip: div_mult2_eq)
  with mult_div_mod_eq [of 16 n] mult_div_mod_eq [of 16 "n div 16"] mult_div_mod_eq [of 16 "n div 256"]
  show ?thesis by linarith
qed

lemma read_hex4_lit: "n < 0x10000 \<Longrightarrow> read_hex4 (lit (hex4 n) @ s) = Some (n, s)"
  by (simp add: hex4_def hex_value_digit hex4_sum)

lemma ESCAPES_back:
  "map_of ESCAPES n = Some c \<Longrightarrow> map_of UNESCAPES (Latin c) = Some n \<and> c \<noteq> CHR ''u'' \<and> n < 128"
  by (auto simp: ESCAPES_def UNESCAPES_def split: if_splits)

abbreviation bslash :: char where "bslash \<equiv> CHR 0x5C"
abbreviation dquote :: char where "dquote \<equiv> CHR 0x22"

definition escape_all :: "ustr \<Rightarrow> latin" where
  "escape_all s = concat (map escape_char s)"

lemma escape_all_simps [simp]: "escape_all [] = []" "escape_all (u # s) = escape_char u @ escape_all s"
  by (simp_all add: escape_all_def)

text \<open>The four forms of an escaped character.\<close>

lemma escape_char_cases:
  assumes "uchar_ok u"
  obtains (named) c where "map_of ESCAPES (code_point u) = Some c" "escape_char u = [bslash, c]"
  | (plain) c where "u = Latin c" "escape_char u = [c]" "c \<noteq> bslash" "c \<noteq> dquote" "32 \<le> (of_char c :: nat)"
  | (unit) "escape_char u = u_escape (code_point u)" "code_point u < 0x10000"
  | (pair) m where "code_point u = 0x10000 + m" "m < 0x100000"
      "escape_char u = u_escape (0xD800 + m div 0x400) @ u_escape (0xDC00 + m mod 0x400)"
proof -
  let ?n = "code_point u"
  consider c where "map_of ESCAPES ?n = Some c" | "map_of ESCAPES ?n = None" "32 \<le> ?n" "?n \<le> 126"
    | "map_of ESCAPES ?n = None" "\<not> (32 \<le> ?n \<and> ?n \<le> 126)" "?n < 0x10000"
    | "map_of ESCAPES ?n = None" "0x10000 \<le> ?n" by force
  then show thesis
  proof cases
    case 1
    then show ?thesis by (intro named) (auto simp: escape_char_def)
  next
    case 2
    then obtain c where c: "u = Latin c" using assms by (cases u) auto
    have "c \<noteq> bslash" "c \<noteq> dquote" using 2(1) c by (auto simp: ESCAPES_def)
    with 2 c show ?thesis by (intro plain [of c]) (auto simp: escape_char_def)
  next
    case 3
    then show ?thesis by (intro unit) (auto simp: escape_char_def)
  next
    case 4
    obtain m where m: "?n = 0x10000 + m" using 4(2) le_Suc_ex by blast
    with code_point_bound [OF assms] have "m < 0x100000" by simp
    with m 4 show ?thesis by (intro pair [of m]) (auto simp: escape_char_def)
  qed
qed

text \<open>When escaped text goes on with a code unit, it is that of the next character or its first half.\<close>

lemma unit_follows:
  assumes "list_all uchar_ok s" "prefix (lit [bslash, CHR ''u'']) (lit (escape_all s) @ Latin dquote # rest)"
  shows "\<exists>v s' m t. s = v # s' \<and> lit (escape_all s) @ Latin dquote # rest = lit (u_escape m) @ t
    \<and> m < 0x10000 \<and> (m = code_point v \<or> is_high m)"
proof (cases s)
  case Nil
  with assms(2) show ?thesis by simp
next
  case (Cons v s')
  with assms(1) have "uchar_ok v" by simp
  then show ?thesis
  proof (cases rule: escape_char_cases)
    case (named c)
    with ESCAPES_back [OF named(1)] assms(2) Cons show ?thesis by auto
  next
    case (plain c)
    with assms(2) Cons show ?thesis by auto
  next
    case unit
    with Cons show ?thesis by - (rule exI [of _ v], rule exI [of _ s'], rule exI [of _ "code_point v"], auto)
  next
    case (pair m)
    have "m div 1024 < 1024" using pair(2) by (simp add: less_mult_imp_div_less)
    then have "is_high (0xD800 + m div 0x400)" "0xD800 + m div 0x400 < 0x10000" by (auto simp: is_high_def)
    with pair Cons show ?thesis by - (rule exI [of _ v], rule exI [of _ s'], rule exI [of _ "0xD800 + m div 0x400"], auto)
  qed
qed

lemma read_string_escaped:
  "list_all uchar_ok s \<Longrightarrow> no_pair s \<Longrightarrow> read_string (lit (escape_all s) @ Latin dquote # rest) = Some (s, rest)"
proof (induction s)
  case Nil
  then show ?case by simp
next
  case (Cons u s)
  from Cons.prems(1) have ok: "uchar_ok u" "list_all uchar_ok s" by simp_all
  have "no_pair s" using Cons.prems(2) by (cases s) simp_all
  with Cons.IH ok have ih: "read_string (lit (escape_all s) @ Latin dquote # rest) = Some (s, rest)" by simp
  let ?r = "lit (escape_all s) @ Latin dquote # rest"
  have step: "read_string (Latin bslash # t) = Some (u # s, rest)" if "unescape t = Some (u, ?r)" for t
    using that ih by simp
  from ok(1) show ?case
  proof (cases rule: escape_char_cases)
    case (named c)
    with ESCAPES_back [OF named(1)] ok(1) have "unescape (Latin c # ?r) = Some (u, ?r)" by auto
    from step [OF this] named show ?thesis by simp
  next
    case (plain c)
    with ih show ?thesis by simp
  next
    case unit
    let ?n = "code_point u"
    have hex: "read_hex4 (lit (hex4 ?n) @ ?r) = Some (?n, ?r)" using unit(2) by (rule read_hex4_lit)
    have "unescape (Latin (CHR ''u'') # lit (hex4 ?n) @ ?r) = Some (u, ?r)"
    proof (cases "is_high ?n \<and> prefix (lit [bslash, CHR ''u'']) ?r")
      case True
      then obtain v s' m t where v: "s = v # s'" "?r = lit (u_escape m) @ t" "m < 0x10000" "m = code_point v \<or> is_high m"
        using unit_follows [OF ok(2)] by blast
      have "read_hex4 (drop 2 ?r) = Some (m, t)" unfolding v(2) using v(3) by (simp add: u_escape_def read_hex4_lit)
      moreover have "\<not> is_low m" using v(1,4) True Cons.prems(2) by (auto simp: is_high_def is_low_def)
      ultimately show ?thesis using hex True ok(1) by simp
    next
      case False
      then show ?thesis using hex ok(1) by auto
    qed
    from step [OF this] unit(1) show ?thesis by (simp add: u_escape_def)
  next
    case (pair m)
    let ?h = "0xD800 + m div 0x400" and ?l = "0xDC00 + m mod 0x400"
    have d: "m div 1024 < 1024" using pair(2) by (simp add: less_mult_imp_div_less)
    have l: "is_high ?h" "is_low ?l" "?h < 0x10000" "?l < 0x10000" using d by (auto simp: is_high_def is_low_def)
    have "0x10000 + ((?h - 0xD800) * 0x400 + (?l - 0xDC00)) = code_point u" using pair(1) by (simp add: mult.commute)
    with l ok(1) have "unescape (Latin (CHR ''u'') # lit (hex4 ?h) @ lit (u_escape ?l) @ ?r) = Some (u, ?r)"
      by (simp add: u_escape_def read_hex4_lit)
    from step [OF this] pair(3) show ?thesis by (simp add: u_escape_def)
  qed
qed

lemma read_quoted: "string_ok s \<Longrightarrow> read_string (tl (lit (quote_text s) @ rest)) = Some (s, rest)"
  using read_string_escaped by (simp add: quote_text_def string_ok_def flip: escape_all_def)

section \<open>Numbers\<close>

text \<open>What can follow a value inside or after another.\<close>

definition rest_ok :: "ustr \<Rightarrow> bool" where
  "rest_ok rest \<longleftrightarrow> rest = [] \<or> hd rest \<in> set (lit '',]}'')"

lemma rest_not_number:
  assumes "rest_ok (a # r)"
  shows "\<not> is_dec a" "a \<noteq> Latin (CHR ''.'')" "a \<notin> {Latin (CHR ''e''), Latin (CHR ''E''), Latin (CHR ''+''), Latin (CHR ''-'')}"
proof -
  from assms have "a = Latin (CHR '','') \<or> a = Latin (CHR '']'') \<or> a = Latin (CHR ''}'')" by (simp add: rest_ok_def)
  then show "\<not> is_dec a" "a \<noteq> Latin (CHR ''.'')" "a \<notin> {Latin (CHR ''e''), Latin (CHR ''E''), Latin (CHR ''+''), Latin (CHR ''-'')}"
    by (elim disjE; simp add: is_dec_def)+
qed

lemma digits_append:
  assumes "rest_ok rest"
  shows "digits_of (s @ rest) = digits_of s" "dropWhile is_dec (s @ rest) = dropWhile is_dec s @ rest"
proof -
  have "takeWhile is_dec rest = []" "dropWhile is_dec rest = rest"
    using assms rest_not_number(1) by (cases rest; simp)+
  then have "takeWhile is_dec (s @ rest) = takeWhile is_dec s \<and> dropWhile is_dec (s @ rest) = dropWhile is_dec s @ rest"
    by (induction s) auto
  then show "digits_of (s @ rest) = digits_of s" "dropWhile is_dec (s @ rest) = dropWhile is_dec s @ rest"
    by (simp_all add: digits_of_def)
qed

lemma take_one_append:
  assumes "rest_ok rest" "set cs \<inter> set '',]}'' = {}"
  shows "take_one cs (s @ rest) = (fst (take_one cs s), snd (take_one cs s) @ rest)"
proof (cases s)
  case Nil
  show ?thesis
  proof (cases rest)
    case (Cons a r)
    with assms Nil show ?thesis by (cases a) (auto simp: take_one_def rest_ok_def)
  qed (simp add: Nil take_one_def)
next
  case (Cons a t)
  then show ?thesis by (cases a) (simp_all add: take_one_def)
qed

lemma read_whole_append:
  assumes "read_whole s = Some (i, r)" "rest_ok rest"
  shows "read_whole (s @ rest) = Some (i, r @ rest)"
proof (cases s)
  case Nil
  with assms(1) show ?thesis by (simp add: read_whole_def)
next
  case (Cons a t)
  with assms(1) digits_append [OF assms(2), of s] show ?thesis
    by (cases "a = Latin (CHR ''0'')"; cases "is_dec a") (simp_all add: read_whole_def)
qed

lemma read_int_part_append:
  assumes "read_int_part s = Some (i, r)" "rest_ok rest"
  shows "read_int_part (s @ rest) = Some (i, r @ rest)"
proof -
  obtain sign t where t: "take_one ''-'' s = (sign, t)" by (cases "take_one ''-'' s")
  with assms(1) obtain d where d: "read_whole t = Some (d, r)" "i = sign @ d" by (auto simp: read_int_part_def)
  from read_whole_append [OF d(1) assms(2)] d(2) t take_one_append [OF assms(2), of "''-''" s]
  show ?thesis by (simp add: read_int_part_def)
qed

lemma read_fraction_append:
  assumes "rest_ok rest"
  shows "read_fraction (s @ rest) = (fst (read_fraction s), snd (read_fraction s) @ rest)"
  using take_one_append [OF assms, of "''.''" s] digits_append [OF assms, of "snd (take_one ''.'' s)"]
  by (cases "take_one ''.'' s") (simp add: read_fraction_def)

lemma read_exponent_append:
  assumes "rest_ok rest"
  shows "read_exponent (s @ rest) = (fst (read_exponent s), snd (read_exponent s) @ rest)"
proof -
  obtain e r where e: "take_one ''eE'' s = (e, r)" by (cases "take_one ''eE'' s")
  obtain sign t where t: "take_one ''+-'' r = (sign, t)" by (cases "take_one ''+-'' r")
  from e t take_one_append [OF assms, of "''eE''" s] take_one_append [OF assms, of "''+-''" r] digits_append [OF assms, of t]
  show ?thesis by (simp add: read_exponent_def)
qed

lemma read_number_append:
  assumes "read_number s = Some (i, fe, [])" "rest_ok rest"
  shows "read_number (s @ rest) = Some (i, fe, rest)"
proof -
  from assms(1) obtain r where r: "read_int_part s = Some (i, r)"
    by (auto simp: read_number_def Let_def split: option.splits prod.splits)
  with assms(1) read_int_part_append [OF r assms(2)] show ?thesis
    by (auto simp: read_number_def Let_def read_fraction_append [OF assms(2)] read_exponent_append [OF assms(2)]
        split: prod.splits)
qed

text \<open>No value but a number starts like one.\<close>

definition number_starts :: "ustr \<Rightarrow> bool" where
  "number_starts s \<longleftrightarrow>
     (case s of [] \<Rightarrow> False | a # t \<Rightarrow> is_dec a \<or> a = Latin (CHR ''-'') \<and> (case t of [] \<Rightarrow> False | b # _ \<Rightarrow> is_dec b))"

lemma read_whole_starts: "read_whole s = Some x \<Longrightarrow> \<exists>a t. s = a # t \<and> is_dec a"
  by (cases s) (auto simp: read_whole_def is_dec_def split: if_splits)

lemma number_start:
  assumes "read_number s = Some x"
  shows "number_starts s"
proof -
  from assms obtain y where "read_int_part s = Some y"
    by (cases "read_int_part s") (auto simp: read_number_def)
  then obtain sign r z where r: "take_one ''-'' s = (sign, r)" "read_whole r = Some z"
    by (cases "take_one ''-'' s") (auto simp: read_int_part_def)
  with read_whole_starts [OF r(2)] show ?thesis
    by (auto simp: take_one_def number_starts_def split: list.splits uchar.splits if_splits)
qed

lemma number_only:
  assumes "number_starts s"
  shows "\<not> prefix (lit [dquote]) s" "\<not> prefix (lit ''{'') s" "\<not> prefix (lit ''['') s"
    "find (\<lambda>(name, j). prefix (lit name) s) CONSTANTS = None"
proof -
  from assms obtain a t where s: "s = a # t" by (auto simp: number_starts_def split: list.splits)
  have d: "is_dec a \<or> a = Latin (CHR ''-'') \<and> (\<forall>b u. t = b # u \<longrightarrow> is_dec b)"
    using assms s by (auto simp: number_starts_def split: list.splits)
  have n: "a \<noteq> Latin c" if "c \<in> set ([dquote] @ ''{[ntfNI'')" for c
    using d that by (auto simp: is_dec_def)
  show "\<not> prefix (lit [dquote]) s" "\<not> prefix (lit ''{'') s" "\<not> prefix (lit ''['') s"
    using n s by auto
  have "\<not> prefix (lit ''-Infinity'') s" using d s by (cases t) (auto simp: is_dec_def)
  moreover have "\<not> prefix (lit (c # name)) s" if "c \<in> set ''ntfNI''" for c name
    using n [of c] that s by auto
  ultimately show "find (\<lambda>(name, j). prefix (lit name) s) CONSTANTS = None"
    by (simp add: CONSTANTS_def del: list.map)
qed

definition float_reads :: "(pyfloat \<Rightarrow> latin) \<Rightarrow> (latin \<Rightarrow> pyfloat) \<Rightarrow> pyfloat \<Rightarrow> bool" where
  "float_reads repr pf x \<longleftrightarrow>
     (case read_number (lit (repr x)) of
        Some (i, fe, r) \<Rightarrow> r = [] \<and> fe \<noteq> [] \<and> pf (i @ fe) = x
      | None \<Rightarrow> False)"

text \<open>The values that are no numbers have words of their own.\<close>

definition float_ok :: "(pyfloat \<Rightarrow> latin) \<Rightarrow> (latin \<Rightarrow> pyfloat) \<Rightarrow> pyfloat \<Rightarrow> bool" where
  "float_ok repr pf x \<longleftrightarrow> (case x of Fin q \<Rightarrow> float_reads repr pf x | _ \<Rightarrow> True)"

text \<open>An integer, with its sign and within the limit on digits.\<close>

definition int_short :: "int \<Rightarrow> bool" where
  "int_short n \<longleftrightarrow> length (str_of_nat (nat \<bar>n\<bar>)) \<le> int_max_str_digits"

lemma is_dec_digit: "d < 10 \<Longrightarrow> is_dec (Latin (digit_char d))"
proof -
  assume "d < 10"
  moreover have "list_all (\<lambda>d. is_dec (Latin (digit_char d))) [0..<10]" by code_simp
  ultimately show ?thesis by (simp add: list_all_iff)
qed

lemma decimal_digits: "takeWhile is_dec (lit (str_of_nat n)) = lit (str_of_nat n)" "dropWhile is_dec (lit (str_of_nat n)) = []"
  using render_nat_digits [of 10 _ n] is_dec_digit by (auto simp: takeWhile_eq_all_conv dropWhile_eq_Nil_conv)

lemma decimal_no_zero: "0 < n \<Longrightarrow> hd (str_of_nat n) \<noteq> CHR ''0''"
proof (induction n rule: less_induct)
  case (less n)
  show ?case
  proof (cases "n < 10")
    case True
    then have "str_of_nat n = [digit_char n]" by (subst render_nat.simps) simp
    moreover have "list_all (\<lambda>d. digit_char d \<noteq> CHR ''0'') [1..<10]" by code_simp
    ultimately show ?thesis using True less.prems by (simp add: list_all_iff)
  next
    case False
    then have "hd (str_of_nat n) = hd (str_of_nat (n div 10))" by (subst render_nat.simps) simp
    with less.IH [of "n div 10"] False show ?thesis by simp
  qed
qed

lemma map_latin_of [simp]: "map (latin_of \<circ> Latin) s = s"
  by (induction s) simp_all

lemma read_whole_decimal: "read_whole (lit (str_of_nat n)) = Some (str_of_nat n, [])"
proof (cases "n = 0")
  case True
  have "read_whole (lit (str_of_nat 0)) = Some (str_of_nat 0, [])" by code_simp
  with True show ?thesis by simp
next
  case False
  obtain c t where s: "str_of_nat n = c # t" by (cases "str_of_nat n") auto
  have c: "c \<noteq> CHR ''0''" "is_dec (Latin c)"
    using decimal_no_zero [of n] False decimal_digits(1) [of n] s by (auto split: if_splits)
  have "digits_of (lit (str_of_nat n)) = str_of_nat n" by (simp add: digits_of_def decimal_digits)
  with c decimal_digits(2) [of n] s show ?thesis by (simp add: read_whole_def)
qed

lemma take_no_sign: "take_one ''-'' (lit (str_of_nat n)) = ([], lit (str_of_nat n))"
proof -
  obtain c t where s: "str_of_nat n = c # t" by (cases "str_of_nat n") auto
  with decimal_digits(1) [of n] have "c \<noteq> CHR ''-''" by (auto simp: is_dec_def split: if_splits)
  with s show ?thesis by (simp add: take_one_def)
qed

lemma read_decimal: "read_int_part (lit (str_of_nat n)) = Some (str_of_nat n, [])"
  by (simp add: read_int_part_def take_no_sign read_whole_decimal)

lemma read_signed: "read_int_part (Latin (CHR ''-'') # lit (str_of_nat n)) = Some (CHR ''-'' # str_of_nat n, [])"
  by (simp add: read_int_part_def take_one_def read_whole_decimal)

lemma read_int_text: "read_number (lit (str_of_int n)) = Some (str_of_int n, [], [])"
  using read_decimal [of "nat n"] read_signed [of "nat (- n)"]
  by (simp add: str_of_int_def read_number_def read_fraction_def read_exponent_def take_one_def)

lemma int_token_text: "int_short n \<Longrightarrow> int_token (str_of_int n) = Inr (JInt n)"
proof -
  assume short: "int_short n"
  have minus: "filter (\<lambda>c. c \<noteq> CHR ''-'') (str_of_nat k) = str_of_nat k" "\<not> prefix ''-'' (str_of_nat k)" for k
    using hd_render_nat_not_sign(1) [of 10 k] by (auto simp: filter_id_conv prefix_def)
  show ?thesis
    using short by (auto simp: str_of_int_def int_token_def int_short_def minus scan_digits_render)
qed

section \<open>Values\<close>

text \<open>
  The values that survive: strings that are text, integers within the limit, floats whose text reads
  as them, and no key twice in an object.
\<close>

fun json_ok :: "(pyfloat \<Rightarrow> latin) \<Rightarrow> (latin \<Rightarrow> pyfloat) \<Rightarrow> json \<Rightarrow> bool" where
  "json_ok repr pf (JStr s) \<longleftrightarrow> string_ok s"
| "json_ok repr pf (JInt n) \<longleftrightarrow> int_short n"
| "json_ok repr pf (JFloat x) \<longleftrightarrow> float_ok repr pf x"
| "json_ok repr pf (JList js) \<longleftrightarrow> list_all (json_ok repr pf) js"
| "json_ok repr pf (JObject kvs) \<longleftrightarrow>
     distinct (map fst kvs) \<and> list_all (\<lambda>(k, j). string_ok k \<and> json_ok repr pf j) kvs"
| "json_ok repr pf JNull \<longleftrightarrow> True"
| "json_ok repr pf (JBool b) \<longleftrightarrow> True"

lemma fold_dict_set:
  "distinct (map fst kvs) \<Longrightarrow> fst ` set kvs \<inter> fst ` set d = {} \<Longrightarrow> fold (\<lambda>(k, v). dict_set k v) kvs d = d @ kvs"
proof (induction kvs arbitrary: d)
  case (Cons kv kvs)
  obtain k v where kv: "kv = (k, v)" by (cases kv)
  have "dict_get d k = None" using Cons.prems(2) kv by (auto simp: map_of_eq_None_iff)
  then have "dict_set k v d = d @ [(k, v)]" by (rule dict_set_new)
  with Cons kv show ?case by auto
qed simp

text \<open>The first character of a value is neither a space nor the end of a list.\<close>

definition starts_value :: "ustr \<Rightarrow> bool" where
  "starts_value s \<longleftrightarrow> (case s of [] \<Rightarrow> False | a # t \<Rightarrow> \<not> is_json_space a \<and> a \<noteq> Latin (CHR '']''))"

lemma starts_append: "starts_value s \<Longrightarrow> starts_value (s @ t)"
  by (cases s) (simp_all add: starts_value_def)

lemma starts_skip: "starts_value s \<Longrightarrow> skip_space s = s"
  by (cases s) (simp_all add: starts_value_def skip_space_def)

lemma starts_no_list_end: "starts_value s \<Longrightarrow> \<not> prefix (lit '']'') s"
  by (cases s) (auto simp: starts_value_def)

lemma number_starts_value: "number_starts s \<Longrightarrow> starts_value s"
  by (cases s) (auto simp: number_starts_def starts_value_def is_dec_def is_json_space_def)

lemma dumps_starts:
  assumes "json_ok repr pf j"
  shows "starts_value (lit (json_dumps repr j))"
proof (cases j)
  case (JInt n)
  then show ?thesis using number_start [OF read_int_text] number_starts_value by simp
next
  case (JFloat x)
  show ?thesis
  proof (cases x)
    case (Fin q)
    with assms JFloat obtain y where "read_number (lit (repr x)) = Some y"
      by (auto simp: float_ok_def float_reads_def split: option.splits)
    from number_starts_value [OF number_start [OF this]] show ?thesis using JFloat Fin by (simp add: float_token_def)
  qed (use JFloat in \<open>simp_all add: float_token_def starts_value_def is_json_space_def\<close>)
qed (simp_all add: starts_value_def is_json_space_def quote_text_def)

lemma starts_dumps: "json_ok repr pf j \<Longrightarrow> starts_value (lit (json_dumps repr j) @ t)"
  using dumps_starts starts_append by blast

definition reads :: "(pyfloat \<Rightarrow> latin) \<Rightarrow> (latin \<Rightarrow> pyfloat) \<Rightarrow> json \<Rightarrow> bool" where
  "reads repr pf j \<longleftrightarrow> starts_value (lit (json_dumps repr j)) \<and>
     (\<forall>n rest. rest_ok rest \<longrightarrow> 2 * length (json_dumps repr j) < n \<longrightarrow>
       read_value pf n (lit (json_dumps repr j) @ rest) = Inr (j, rest))"

lemma rest_ok_simps [simp]:
  "rest_ok []" "rest_ok (Latin (CHR '','') # t)" "rest_ok (Latin (CHR '']'') # t)" "rest_ok (Latin (CHR ''}'') # t)"
  by (simp_all add: rest_ok_def)

lemma skip_one [simp]:
  "skip_space (Latin (CHR '' '') # s) = skip_space s" "skip_space (Latin (CHR '','') # s) = Latin (CHR '','') # s"
  "skip_space (Latin (CHR '']'') # s) = Latin (CHR '']'') # s" "skip_space (Latin (CHR ''}'') # s) = Latin (CHR ''}'') # s"
  "skip_space (Latin (CHR '':'') # s) = Latin (CHR '':'') # s" "skip_space (Latin dquote # s) = Latin dquote # s"
  by (simp_all add: skip_space_def is_json_space_def)

lemma read_elements_dumps:
  assumes "js \<noteq> []" "list_all (reads repr pf) js" "2 * length (join_with '', '' (map (json_dumps repr) js)) + 1 < n"
  shows "read_elements pf n (lit (join_with '', '' (map (json_dumps repr) js)) @ Latin (CHR '']'') # rest) = Inr (js, rest)"
  using assms
proof (induction js arbitrary: n)
  case (Cons j js)
  from Cons.prems(3) obtain m where m: "n = Suc m" by (cases n) auto
  from Cons.prems(2) have j: "starts_value (lit (json_dumps repr j))"
    "\<And>n rest. rest_ok rest \<Longrightarrow> 2 * length (json_dumps repr j) < n \<Longrightarrow>
       read_value pf n (lit (json_dumps repr j) @ rest) = Inr (j, rest)"
    by (simp_all add: reads_def)
  show ?case
  proof (cases js)
    case Nil
    with m j(2) Cons.prems(3) show ?thesis by simp
  next
    case (Cons j' js')
    let ?t = "join_with '', '' (map (json_dumps repr) js)"
    have ih: "read_elements pf m (lit ?t @ Latin (CHR '']'') # rest) = Inr (js, rest)"
      using Cons.IH Cons.prems m Cons by simp
    have "starts_value (lit (json_dumps repr j'))" using Cons Cons.prems(2) by (simp add: reads_def)
    then have "starts_value (lit ?t @ Latin (CHR '']'') # rest)"
      using Cons by (cases js') (auto intro: starts_append)
    with ih j(2) Cons Cons.prems(3) m show ?thesis by (simp add: join_with_Cons starts_skip)
  qed
qed simp

definition member_text :: "(pyfloat \<Rightarrow> latin) \<Rightarrow> ustr \<times> json \<Rightarrow> latin" where
  "member_text repr kv = (case kv of (k, v) \<Rightarrow> quote_text k @ '': '' @ json_dumps repr v)"

lemma read_members_dumps:
  assumes "kvs \<noteq> []" "list_all (\<lambda>(k, j). string_ok k \<and> reads repr pf j) kvs"
    "2 * length (join_with '', '' (map (member_text repr) kvs)) < n"
  shows "read_members pf n (tl (lit (join_with '', '' (map (member_text repr) kvs)) @ Latin (CHR ''}'') # rest)) = Inr (kvs, rest)"
  using assms
proof (induction kvs arbitrary: n)
  case (Cons kv kvs)
  obtain k j where kv: "kv = (k, j)" by (cases kv)
  from Cons.prems(3) obtain m where m: "n = Suc m" by (cases n) auto
  from Cons.prems(2) kv have k: "string_ok k" and j: "starts_value (lit (json_dumps repr j))"
    "\<And>n rest. rest_ok rest \<Longrightarrow> 2 * length (json_dumps repr j) < n \<Longrightarrow>
       read_value pf n (lit (json_dumps repr j) @ rest) = Inr (j, rest)"
    by (simp_all add: reads_def)
  have skip: "skip_space (lit (json_dumps repr j) @ s) = lit (json_dumps repr j) @ s" for s
    using starts_skip [OF starts_append [OF j(1)]] .
  have key: "read_string (tl (lit (member_text repr kv) @ s)) = Some (k, lit '': '' @ lit (json_dumps repr j) @ s)" for s
    using read_quoted [OF k] kv by (simp add: member_text_def)
  have len: "length (json_dumps repr j) + 4 \<le> length (member_text repr kv)"
    by (simp add: kv member_text_def quote_text_def)
  show ?case
  proof (cases kvs)
    case Nil
    with key [of "Latin (CHR ''}'') # rest"] len j(2) [of "Latin (CHR ''}'') # rest" m] skip kv m Cons.prems(3)
    show ?thesis by simp
  next
    case (Cons kv' kvs')
    let ?t = "lit (join_with '', '' (map (member_text repr) kvs)) @ Latin (CHR ''}'') # rest"
    have "read_members pf m (tl ?t) = Inr (kvs, rest)"
      using Cons.IH Cons.prems m Cons by simp
    moreover obtain u where u: "?t = Latin dquote # u"
      using Cons by (cases kv'; cases kvs') (auto simp: member_text_def quote_text_def)
    ultimately show ?thesis
      using key [of "lit '', '' @ ?t"] len j(2) [of "lit '', '' @ ?t" m] skip Cons kv m Cons.prems(3)
      by (simp add: join_with_Cons)
  qed
qed simp

lemma json_reads: "json_ok repr pf j \<Longrightarrow> reads repr pf j"
proof (induction repr pf j rule: json_ok.induct)
  case (1 repr pf s)
  show ?case unfolding reads_def
  proof (intro conjI allI impI dumps_starts [OF 1])
    fix n and rest :: ustr
    assume "2 * length (json_dumps repr (JStr s)) < n"
    then obtain m where "n = Suc m" by (cases n) auto
    with read_quoted [of s rest] 1 show "read_value pf n (lit (json_dumps repr (JStr s)) @ rest) = Inr (JStr s, rest)"
      by (simp add: quote_text_def)
  qed
next
  case (2 repr pf k)
  show ?case unfolding reads_def
  proof (intro conjI allI impI dumps_starts [OF 2])
    fix n and rest :: ustr
    assume "2 * length (json_dumps repr (JInt k)) < n" "rest_ok rest"
    then obtain m where "n = Suc m" by (cases n) auto
    moreover have r: "read_number (lit (str_of_int k) @ rest) = Some (str_of_int k, [], rest)"
      using read_number_append [OF read_int_text \<open>rest_ok rest\<close>] .
    ultimately show "read_value pf n (lit (json_dumps repr (JInt k)) @ rest) = Inr (JInt k, rest)"
      using number_only [OF number_start [OF r]] 2
      by (simp add: number_token_def int_token_text del: prefix_code)
  qed
next
  case (4 repr pf js)
  from 4 have rs: "list_all (reads repr pf) js" by (simp add: list_all_iff)
  show ?case unfolding reads_def
  proof (intro conjI allI impI dumps_starts [OF "4.prems"])
    fix n and rest :: ustr
    assume n: "2 * length (json_dumps repr (JList js)) < n"
    then obtain m where m: "n = Suc m" by (cases n) auto
    show "read_value pf n (lit (json_dumps repr (JList js)) @ rest) = Inr (JList js, rest)"
    proof (cases js)
      case (Cons j js')
      let ?t = "lit (join_with '', '' (map (json_dumps repr) js)) @ Latin (CHR '']'') # rest"
      have "starts_value (lit (json_dumps repr j))" using rs Cons by (simp add: reads_def)
      then have "starts_value ?t" using Cons by (cases js') (auto intro: starts_append)
      moreover have "read_elements pf m ?t = Inr (js, rest)"
        using Cons rs n m by (intro read_elements_dumps) simp_all
      ultimately show ?thesis using m starts_no_list_end [of ?t] by (simp add: starts_skip Let_def)
    qed (simp add: m)
  qed
next
  case (5 repr pf kvs)
  from 5 have rs: "list_all (\<lambda>(k, j). string_ok k \<and> reads repr pf j) kvs" by (force simp: list_all_iff)
  show ?case unfolding reads_def
  proof (intro conjI allI impI dumps_starts [OF "5.prems"])
    fix n and rest :: ustr
    assume n: "2 * length (json_dumps repr (JObject kvs)) < n"
    have d: "json_dumps repr (JObject kvs) = ''{'' @ join_with '', '' (map (member_text repr) kvs) @ ''}''"
      by (simp add: member_text_def [abs_def])
    from n obtain m where m: "n = Suc m" by (cases n) auto
    show "read_value pf n (lit (json_dumps repr (JObject kvs)) @ rest) = Inr (JObject kvs, rest)"
    proof (cases kvs)
      case (Cons kv kvs')
      let ?t = "lit (join_with '', '' (map (member_text repr) kvs)) @ Latin (CHR ''}'') # rest"
      obtain u where u: "?t = Latin dquote # u"
        using Cons by (cases kv; cases kvs') (auto simp: member_text_def quote_text_def)
      have "read_members pf m (tl ?t) = Inr (kvs, rest)"
        using Cons rs n m d by (intro read_members_dumps) simp_all
      then show ?thesis
        using m d u fold_dict_set [of kvs "[]"] "5.prems" by (simp add: drop_Suc Let_def)
    qed (simp add: m)
  qed
next
  case (3 repr pf x)
  show ?case unfolding reads_def
  proof (intro conjI allI impI dumps_starts [OF 3])
    fix n and rest :: ustr
    assume "2 * length (json_dumps repr (JFloat x)) < n" and rest: "rest_ok rest"
    then obtain m where m: "n = Suc m" by (cases n) auto
    show "read_value pf n (lit (json_dumps repr (JFloat x)) @ rest) = Inr (JFloat x, rest)"
    proof (cases x)
      case (Fin q)
      with 3 obtain i fe where num: "read_number (lit (repr x)) = Some (i, fe, [])" "fe \<noteq> []" "pf (i @ fe) = x"
        by (auto simp: float_ok_def float_reads_def split: option.splits)
      have r: "read_number (lit (repr x) @ rest) = Some (i, fe, rest)" using read_number_append [OF num(1) rest] .
      show ?thesis using number_only [OF number_start [OF r]] num m r Fin
        by (simp add: float_token_def number_token_def)
    qed (simp_all add: m float_token_def CONSTANTS_def)
  qed
next
  case (6 repr pf)
  have "read_value pf n (lit (json_dumps repr JNull) @ rest) = Inr (JNull, rest)" if "0 < n" for n rest
    using that by (cases n) (simp_all add: CONSTANTS_def)
  with dumps_starts [OF 6] show ?case by (simp only: reads_def) (metis not_less_zero gr0I)
next
  case (7 repr pf b)
  have "read_value pf n (lit (json_dumps repr (JBool b)) @ rest) = Inr (JBool b, rest)" if "0 < n" for n rest
    using that by (cases n; cases b) (simp_all add: CONSTANTS_def)
  with dumps_starts [OF 7] show ?case by (simp only: reads_def) (metis not_less_zero gr0I)
qed

lemma skip_space_end: "skip_space [] = []"
  by (simp add: skip_space_def)

text \<open>What \<open>json.dumps\<close> writes, \<open>json.loads\<close> reads.\<close>

lemma json_loads_dumps:
  assumes "json_ok repr pf j"
  shows "json_loads pf (lit (json_dumps repr j)) = Inr j"
proof -
  have r: "reads repr pf j" using assms by (rule json_reads)
  then have "read_value pf (2 * length (json_dumps repr j) + 1) (lit (json_dumps repr j)) = Inr (j, [])"
    using rest_ok_simps(1) unfolding reads_def by (metis append_Nil2 less_add_one)
  moreover have "skip_space (lit (json_dumps repr j)) = lit (json_dumps repr j)"
    using r starts_skip by (simp add: reads_def)
  ultimately show ?thesis by (simp add: json_loads_def skip_space_end)
qed

section \<open>The text is ASCII on one line\<close>

definition printable :: "char \<Rightarrow> bool" where
  "printable c \<longleftrightarrow> 32 \<le> (of_char c :: nat) \<and> (of_char c :: nat) \<le> 126"

lemma printable_marks [simp]:
  "printable (CHR ''['')" "printable (CHR '']'')" "printable (CHR ''{'')" "printable (CHR ''}'')" "printable (CHR '','')"
  "printable (CHR '':'')" "printable (CHR '' '')" "printable dquote"
  by (simp_all add: printable_def)

lemma printable_digit: "d < 16 \<Longrightarrow> printable (digit_char d)"
  by (simp add: printable_def of_char_digit_char)

lemma printable_u_escape: "n < 0x10000 \<Longrightarrow> list_all printable (u_escape n)"
  by (simp add: u_escape_def hex4_def printable_digit) (simp add: printable_def)

lemma printable_escape:
  assumes "uchar_ok u"
  shows "list_all printable (escape_char u)"
proof -
  let ?n = "code_point u"
  consider c where "map_of ESCAPES ?n = Some c" | "map_of ESCAPES ?n = None" "32 \<le> ?n \<and> ?n \<le> 126"
    | "map_of ESCAPES ?n = None" "\<not> (32 \<le> ?n \<and> ?n \<le> 126)" "?n < 0x10000"
    | m where "map_of ESCAPES ?n = None" "?n = 0x10000 + m" "m < 0x100000"
    using code_point_bound [OF assms] le_Suc_ex [of "0x10000" ?n] by force
  then show ?thesis
  proof cases
    case (1 c)
    then have "printable c" by (auto simp: ESCAPES_def printable_def split: if_splits)
    then show ?thesis by (simp add: escape_char_def 1) (simp add: printable_def)
  next
    case 2
    then show ?thesis by (simp add: escape_char_def printable_def)
  next
    case 3
    then show ?thesis by (auto simp: escape_char_def Let_def printable_u_escape)
  next
    case (4 m)
    have "m div 1024 < 1024" using 4(3) by (simp add: less_mult_imp_div_less)
    then have "0xD800 + m div 0x400 < 0x10000" "0xDC00 + m mod 0x400 < 0x10000" by auto
    then show ?thesis by (simp only: escape_char_def Let_def 4(1) option.case) (simp add: 4(2) printable_u_escape)
  qed
qed

lemma printable_quoted: "list_all uchar_ok s \<Longrightarrow> list_all printable (quote_text s)"
proof -
  assume "list_all uchar_ok s"
  then have "list_all printable (concat (map escape_char s))"
    by (induction s) (simp_all add: printable_escape)
  then show ?thesis by (simp add: quote_text_def)
qed

lemma printable_join:
  "list_all printable sep \<Longrightarrow> list_all (list_all printable) xs \<Longrightarrow> list_all printable (join_with sep xs)"
  by (induction sep xs rule: join_with.induct) simp_all

lemma printable_int: "list_all printable (str_of_int n)"
proof -
  have "list_all printable (str_of_nat m)" for m
    using render_nat_digits [of 10 _ m] printable_digit by (fastforce simp: list_all_iff)
  then show ?thesis by (simp add: str_of_int_def) (simp add: printable_def)
qed

text \<open>The text of a number that was read as a whole.\<close>

lemma takeWhile_dec_printable: "list_all printable (digits_of s)"
proof -
  have "printable (latin_of u)" if "is_dec u" for u
    using that by (cases u) (auto simp: is_dec_def printable_def)
  then show ?thesis by (auto simp: digits_of_def list_all_iff dest: set_takeWhileD)
qed

lemma digits_of_all: "lit (digits_of s) @ dropWhile is_dec s = s"
proof -
  have "Latin (latin_of u) = u" if "is_dec u" for u using that by (cases u) (simp_all add: is_dec_def)
  then have "lit (digits_of s) = takeWhile is_dec s"
    by (auto simp: digits_of_def intro!: map_idI dest: set_takeWhileD)
  then show ?thesis by simp
qed

lemma take_one_text:
  assumes "take_one cs s = (c, r)" "list_all printable cs"
  shows "lit c @ r = s \<and> list_all printable c"
  using assms by (auto simp: take_one_def list_all_iff split: list.splits uchar.splits if_splits)

lemma read_whole_text: "read_whole s = Some (d, r) \<Longrightarrow> lit d @ r = s \<and> list_all printable d"
  using digits_of_all [of s] takeWhile_dec_printable [of s]
  by (cases s) (auto simp: read_whole_def printable_def split: if_splits)

lemma read_int_part_text:
  assumes "read_int_part s = Some (i, r)"
  shows "lit i @ r = s \<and> list_all printable i"
proof -
  obtain sign t where t: "take_one ''-'' s = (sign, t)" by (cases "take_one ''-'' s")
  with assms obtain d where d: "read_whole t = Some (d, r)" "i = sign @ d" by (auto simp: read_int_part_def)
  from take_one_text [OF t] read_whole_text [OF d(1)] d(2) show ?thesis by (simp add: printable_def)
qed

lemma read_fraction_text:
  assumes "read_fraction s = (f, r)"
  shows "lit f @ r = s \<and> list_all printable f"
proof -
  obtain dot t where t: "take_one ''.'' s = (dot, t)" by (cases "take_one ''.'' s")
  show ?thesis
    using assms take_one_text [OF t] digits_of_all [of t] takeWhile_dec_printable [of t]
    by (auto simp: read_fraction_def t printable_def split: if_splits)
qed

lemma read_exponent_text:
  assumes "read_exponent s = (f, r)"
  shows "lit f @ r = s \<and> list_all printable f"
proof -
  obtain e t where t: "take_one ''eE'' s = (e, t)" by (cases "take_one ''eE'' s")
  obtain sign u where u: "take_one ''+-'' t = (sign, u)" by (cases "take_one ''+-'' t")
  show ?thesis
    using assms take_one_text [OF t] take_one_text [OF u] digits_of_all [of u] takeWhile_dec_printable [of u]
    by (auto simp: read_exponent_def t u printable_def split: if_splits)
qed

lemma read_number_text:
  assumes "read_number s = Some (i, fe, r)"
  shows "lit (i @ fe) @ r = s \<and> list_all printable (i @ fe)"
proof -
  from assms obtain r1 f r2 e where p: "read_int_part s = Some (i, r1)" "read_fraction r1 = (f, r2)"
    "read_exponent r2 = (e, r)" "fe = f @ e"
    by (auto simp: read_number_def split: option.splits prod.splits)
  from read_int_part_text [OF p(1)] read_fraction_text [OF p(2)] read_exponent_text [OF p(3)] p(4)
  show ?thesis by auto
qed

lemma map_Latin_inject [simp]: "map Latin s = map Latin t \<longleftrightarrow> s = t"
  by (rule inj_map_eq_map) (simp add: inj_def)

lemma printable_float: "float_ok repr pf x \<Longrightarrow> list_all printable (float_token repr x)"
proof (cases x)
  case (Fin q)
  assume "float_ok repr pf x"
  with Fin obtain i fe where "read_number (lit (repr x)) = Some (i, fe, [])"
    by (auto simp: float_ok_def float_reads_def split: option.splits)
  from read_number_text [OF this] have e: "i @ fe = repr x" and p: "list_all printable (i @ fe)"
    unfolding append_Nil2 map_Latin_inject by blast+
  from p have "list_all printable (repr x)" by (simp only: e)
  with Fin show ?thesis by (simp add: float_token_def)
qed (simp_all add: float_token_def printable_def)

lemma printable_dumps: "json_ok repr pf j \<Longrightarrow> list_all printable (json_dumps repr j)"
proof (induction repr pf j rule: json_ok.induct)
  case (1 repr pf s)
  then show ?case by (simp add: printable_quoted string_ok_def)
next
  case (2 repr pf n)
  then show ?case by (simp add: printable_int)
next
  case (3 repr pf x)
  then show ?case by (simp add: printable_float)
next
  case (4 repr pf js)
  then have "list_all (list_all printable) (map (json_dumps repr) js)" by (simp add: list_all_iff)
  from printable_join [OF _ this, of "'', ''"] show ?case by simp
next
  case (5 repr pf kvs)
  then have "list_all (list_all printable) (map (\<lambda>(k, v). quote_text k @ '': '' @ json_dumps repr v) kvs)"
    by (auto simp: list_all_iff printable_quoted [unfolded list_all_iff] string_ok_def)
  from printable_join [OF _ this, of "'', ''"] show ?case by simp
qed (auto simp: printable_def)

text \<open>Printable lines, each with its newline, are the lines of the text.\<close>

lemma printable_no_break: "printable c \<Longrightarrow> \<not> is_line_break c"
  by (auto simp: printable_def is_line_break_def)

lemma split_lines_line:
  "list_all printable l \<Longrightarrow> split_lines acc (l @ LF # s) = (acc @ l) # split_lines [] s"
proof (induction l arbitrary: acc)
  case Nil
  then show ?case by (cases s) (auto simp: is_line_break_def)
next
  case (Cons c l)
  then have "\<not> is_line_break c" "c \<noteq> CR" using printable_no_break by (auto simp: is_line_break_def)
  with Cons show ?case by (cases "l @ LF # s") auto
qed

lemma split_printed:
  "list_all (list_all printable) ls \<Longrightarrow> split_lines [] (concat (map (\<lambda>l. l @ [LF]) ls)) = ls"
  by (induction ls) (simp_all add: split_lines_line)

section \<open>The contract of the two\<close>

text \<open>What users of JSON rely on: a value that is fit is read back, from text on one line.\<close>

locale json_codec =
  fixes dumps :: "json \<Rightarrow> latin"
    and loads :: "ustr \<Rightarrow> 'e + json"
    and fit :: "json \<Rightarrow> bool"
  assumes reads_back: "fit j \<Longrightarrow> loads (lit (dumps j)) = Inr j"
    and one_line: "fit j \<Longrightarrow> list_all printable (dumps j)"
begin

lemma dumps_inject: "fit i \<Longrightarrow> fit j \<Longrightarrow> dumps i = dumps j \<longleftrightarrow> i = j"
  using reads_back by (metis sum.inject(2))

lemma lines_read_back:
  assumes "list_all fit js"
  shows "split_lines [] (concat (map (\<lambda>l. l @ [LF]) (map dumps js))) = map dumps js"
    and "map (\<lambda>l. loads (lit l)) (map dumps js) = map Inr js"
proof -
  have "list_all (list_all printable) (map dumps js)" using assms one_line by (auto simp: list_all_iff [of "list_all printable"] list_all_iff [of fit])
  then show "split_lines [] (concat (map (\<lambda>l. l @ [LF]) (map dumps js))) = map dumps js" by (rule split_printed)
  show "map (\<lambda>l. loads (lit l)) (map dumps js) = map Inr js"
    using assms reads_back by (simp add: list_all_iff)
qed

text \<open>A decoder that knows ASCII is enough for a body.\<close>

lemma body_read_back:
  assumes "fit j" "\<forall>b. list_all printable b \<longrightarrow> decode b = Inr (lit b)"
  shows "decode (dumps j) = Inr (lit (dumps j)) \<and> loads (lit (dumps j)) = Inr j"
  using assms reads_back one_line by simp

end

interpretation std_json: json_codec "json_dumps repr" "json_loads pf" "json_ok repr pf" for repr pf
  by unfold_locales (rule json_loads_dumps printable_dumps, assumption)+

end
