(* ===== verification/Report_Json.thy ===== *)
theory Report_Json
  imports Scan Json_Reads_Back
begin

text \<open>
  The JSON report of a probe: \<open>ProbeResult.to_dict\<close>, with \<open>dataclasses.asdict\<close> written out, as values
  of \<open>Py_Json\<close>; the type of the records, and that \<open>json.loads\<close> reads every record back.
\<close>

section \<open>The records\<close>

definition jopt :: "latin option \<Rightarrow> json" where
  "jopt x = (case x of None \<Rightarrow> JNull | Some t \<Rightarrow> JStr (lit t))"

definition attempt_json :: "attempt \<Rightarrow> json" where
  "attempt_json a = JObject
     [(lit ''offered'', JList (map (JStr \<circ> lit) (a_offered a))), (lit ''outcome'', JStr (lit (outcome_value (a_outcome a)))),
      (lit ''elapsed_ms'', JFloat (a_elapsed_ms a)), (lit ''alert'', jopt (a_alert a)), (lit ''detail'', jopt (a_detail a)),
      (lit ''group'', jopt (a_group a)), (lit ''version'', jopt (a_version a)), (lit ''cipher'', jopt (a_cipher a)),
      (lit ''alpn'', jopt (a_alpn a)), (lit ''certificate'', jopt (a_certificate a))]"

definition to_dict :: "probe_result \<Rightarrow> json" where
  "to_dict r = JObject
     [(lit ''host'', JStr (lit (pr_host r))), (lit ''port'', JInt (pr_port r)), (lit ''verdict'', JStr (lit (verdict_value (pr_verdict r)))),
      (lit ''address'', jopt (pr_address r)),
      (lit ''tcp_ms'', (case pr_tcp_ms r of None \<Rightarrow> JNull | Some ms \<Rightarrow> JFloat ms)), (lit ''error'', jopt (pr_error r)),
      (lit ''attempts'', JList (map attempt_json (pr_attempts r))),
      (lit ''default'', (case pr_default r of None \<Rightarrow> JNull | Some a \<Rightarrow> attempt_json a))]"

text \<open>What a reader looks up in a record.\<close>

fun json_field :: "ustr \<Rightarrow> json \<Rightarrow> json option" where
  "json_field k (JObject kvs) = dict_get kvs k"
| "json_field k _ = None"

text \<open>The type of a record of the report, as a consumer of the JSON lines reads it.\<close>

datatype json_type = TStr | TInt | TFloat | TEnum "latin list" | TNullable json_type | TList json_type
  | TRecord "(latin \<times> json_type) list"

function (sequential) has_type :: "json \<Rightarrow> json_type \<Rightarrow> bool"
  and fields_have_type :: "(ustr \<times> json) list \<Rightarrow> (latin \<times> json_type) list \<Rightarrow> bool" where
  "has_type (JStr s) TStr = True"
| "has_type (JStr s) (TEnum names) = (s \<in> lit ` set names)"
| "has_type (JInt n) TInt = True"
| "has_type (JFloat x) TFloat = True"
| "has_type j (TNullable t) = (j = JNull \<or> has_type j t)"
| "has_type (JList js) (TList t) = (\<forall>j \<in> set js. has_type j t)"
| "has_type (JObject kvs) (TRecord kts) = fields_have_type kvs kts"
| "has_type _ _ = False"
| "fields_have_type [] [] = True"
| "fields_have_type ((k, j) # kvs) ((k', t) # kts) = (k = lit k' \<and> has_type j t \<and> fields_have_type kvs kts)"
| "fields_have_type _ _ = False"
  by pat_completeness auto
termination
  by (relation "measure (\<lambda>x. case x of Inl (j, t) \<Rightarrow> size t | Inr (kvs, kts) \<Rightarrow> size_list (size_prod (\<lambda>_. 0) size) kts)")
    auto

definition ATTEMPT_TYPE :: json_type where
  "ATTEMPT_TYPE = TRecord
     [(''offered'', TList TStr), (''outcome'', TEnum [''accepted'', ''rejected'', ''failed'']), (''elapsed_ms'', TFloat),
      (''alert'', TNullable TStr), (''detail'', TNullable TStr), (''group'', TNullable TStr), (''version'', TNullable TStr),
      (''cipher'', TNullable TStr), (''alpn'', TNullable TStr), (''certificate'', TNullable TStr)]"

definition RESULT_TYPE :: json_type where
  "RESULT_TYPE = TRecord
     [(''host'', TStr), (''port'', TInt),
      (''verdict'', TEnum [''post-quantum'', ''classical-only'', ''pq-blocked'', ''no-tls13'', ''unreachable'', ''error'']),
      (''address'', TNullable TStr), (''tcp_ms'', TNullable TFloat), (''error'', TNullable TStr),
      (''attempts'', TList ATTEMPT_TYPE), (''default'', TNullable ATTEMPT_TYPE)]"

lemma jopt_typed: "has_type (jopt x) (TNullable TStr)"
  by (cases x) (simp_all add: jopt_def)

lemma attempt_typed: "has_type (attempt_json a) ATTEMPT_TYPE"
  by (cases "a_outcome a") (auto simp: attempt_json_def ATTEMPT_TYPE_def jopt_typed simp del: has_type.simps(5))

section \<open>What a consumer makes of a record\<close>

text \<open>
  A consumer looks every field of \<open>ProbeResult\<close> and \<open>Attempt\<close> up by its name, and reads its value:
  text, a number, one of the words of an enum, a list, or null where the field is optional.
\<close>

fun latin_of :: "ustr \<Rightarrow> latin option" where
  "latin_of [] = Some []"
| "latin_of (Latin c # s) = map_option ((#) c) (latin_of s)"
| "latin_of (Beyond n # s) = None"

fun as_text :: "json \<Rightarrow> latin option" where
  "as_text (JStr s) = latin_of s"
| "as_text _ = None"

fun as_int :: "json \<Rightarrow> int option" where
  "as_int (JInt n) = Some n"
| "as_int _ = None"

fun as_float :: "json \<Rightarrow> pyfloat option" where
  "as_float (JFloat x) = Some x"
| "as_float _ = None"

fun as_list :: "(json \<Rightarrow> 'a option) \<Rightarrow> json \<Rightarrow> 'a list option" where
  "as_list f (JList js) = those (map f js)"
| "as_list f _ = None"

fun as_nullable :: "(json \<Rightarrow> 'a option) \<Rightarrow> json \<Rightarrow> 'a option option" where
  "as_nullable f JNull = Some None"
| "as_nullable f j = map_option Some (f j)"

definition as_outcome :: "json \<Rightarrow> probe_outcome option" where
  "as_outcome j = Option.bind (as_text j) (\<lambda>w.
     if w = ''accepted'' then Some ACCEPTED else if w = ''rejected'' then Some REJECTED
     else if w = ''failed'' then Some FAILED else None)"

definition as_verdict :: "json \<Rightarrow> verdict option" where
  "as_verdict j = Option.bind (as_text j) (\<lambda>w.
     if w = ''post-quantum'' then Some POST_QUANTUM else if w = ''classical-only'' then Some CLASSICAL_ONLY
     else if w = ''pq-blocked'' then Some PQ_BLOCKED else if w = ''no-tls13'' then Some NO_TLS13
     else if w = ''unreachable'' then Some UNREACHABLE else if w = ''error'' then Some ERROR else None)"

definition read_field :: "latin \<Rightarrow> (json \<Rightarrow> 'a option) \<Rightarrow> json \<Rightarrow> 'a option" where
  "read_field k f j = Option.bind (json_field (lit k) j) f"

definition attempt_of_json :: "json \<Rightarrow> attempt option" where
  "attempt_of_json j =
     Option.bind (read_field ''offered'' (as_list as_text) j) (\<lambda>offered.
     Option.bind (read_field ''outcome'' as_outcome j) (\<lambda>out.
     Option.bind (read_field ''elapsed_ms'' as_float j) (\<lambda>elapsed.
     Option.bind (read_field ''alert'' (as_nullable as_text) j) (\<lambda>alert.
     Option.bind (read_field ''detail'' (as_nullable as_text) j) (\<lambda>detail.
     Option.bind (read_field ''group'' (as_nullable as_text) j) (\<lambda>grp.
     Option.bind (read_field ''version'' (as_nullable as_text) j) (\<lambda>version.
     Option.bind (read_field ''cipher'' (as_nullable as_text) j) (\<lambda>cipher.
     Option.bind (read_field ''alpn'' (as_nullable as_text) j) (\<lambda>alpn.
     Option.bind (read_field ''certificate'' (as_nullable as_text) j) (\<lambda>cert.
     Some \<lparr>a_offered = offered, a_outcome = out, a_elapsed_ms = elapsed, a_alert = alert, a_detail = detail,
       a_group = grp, a_version = version, a_cipher = cipher, a_alpn = alpn, a_certificate = cert\<rparr>))))))))))"

definition result_of_json :: "json \<Rightarrow> probe_result option" where
  "result_of_json j =
     Option.bind (read_field ''host'' as_text j) (\<lambda>host.
     Option.bind (read_field ''port'' as_int j) (\<lambda>p.
     Option.bind (read_field ''verdict'' as_verdict j) (\<lambda>v.
     Option.bind (read_field ''address'' (as_nullable as_text) j) (\<lambda>addr.
     Option.bind (read_field ''tcp_ms'' (as_nullable as_float) j) (\<lambda>ms.
     Option.bind (read_field ''error'' (as_nullable as_text) j) (\<lambda>err.
     Option.bind (read_field ''attempts'' (as_list attempt_of_json) j) (\<lambda>attempts.
     Option.bind (read_field ''default'' (as_nullable attempt_of_json) j) (\<lambda>deflt.
     Some \<lparr>pr_host = host, pr_port = p, pr_verdict = v, pr_address = addr, pr_tcp_ms = ms, pr_error = err,
       pr_attempts = attempts, pr_default = deflt\<rparr>))))))))"

lemma latin_of_lit [simp]: "latin_of (lit s) = Some s"
  by (induction s) simp_all

lemma those_map: "(\<And>x. f (g x) = Some x) \<Longrightarrow> those (map (f \<circ> g) xs) = Some xs"
  by (induction xs) simp_all

lemma as_nullable_jopt: "as_nullable as_text (jopt x) = Some x"
  by (cases x) (simp_all add: jopt_def)

lemma as_outcome_value: "as_outcome (JStr (lit (outcome_value x))) = Some x"
  by (cases x) (simp_all add: as_outcome_def)

lemma as_verdict_value: "as_verdict (JStr (lit (verdict_value x))) = Some x"
  by (cases x) (simp_all add: as_verdict_def)

lemma as_texts: "as_list as_text (JList (map (JStr \<circ> lit) xs)) = Some xs"
  using those_map [of as_text "JStr \<circ> lit" xs] by (simp add: comp_assoc)

lemma attempt_reads: "attempt_of_json (attempt_json a) = Some a"
  unfolding attempt_of_json_def
  by (simp add: read_field_def attempt_json_def as_texts as_outcome_value as_nullable_jopt del: as_list.simps as_nullable.simps list.map)

text \<open>
  C39: every record of the report has the documented type, whatever the probe met, with the verdict
  and the outcomes among the documented words; and a consumer who looks the fields up by their names
  has every field of the result and of its attempts with its value.
\<close>

theorem to_dict_typed: "has_type (to_dict r) RESULT_TYPE \<and> result_of_json (to_dict r) = Some r"
proof
  have "has_type (case pr_tcp_ms r of None \<Rightarrow> JNull | Some ms \<Rightarrow> JFloat ms) (TNullable TFloat)"
    by (cases "pr_tcp_ms r") simp_all
  moreover have "has_type (case pr_default r of None \<Rightarrow> JNull | Some a \<Rightarrow> attempt_json a) (TNullable ATTEMPT_TYPE)"
    using attempt_typed by (cases "pr_default r") (auto simp: attempt_json_def)
  ultimately show "has_type (to_dict r) RESULT_TYPE"
    by (cases "pr_verdict r")
      (auto simp: to_dict_def RESULT_TYPE_def jopt_typed attempt_typed simp del: has_type.simps(5))
  have "as_nullable as_float (case pr_tcp_ms r of None \<Rightarrow> JNull | Some ms \<Rightarrow> JFloat ms) = Some (pr_tcp_ms r)"
    by (cases "pr_tcp_ms r") simp_all
  moreover have "as_nullable attempt_of_json (case pr_default r of None \<Rightarrow> JNull | Some a \<Rightarrow> attempt_json a) = Some (pr_default r)"
  proof (cases "pr_default r")
    case (Some a)
    have "as_nullable attempt_of_json (attempt_json a) = map_option Some (attempt_of_json (attempt_json a))"
      by (simp only: attempt_json_def as_nullable.simps)
    with Some show ?thesis by (simp add: attempt_reads)
  qed simp
  moreover have "as_list attempt_of_json (JList (map attempt_json (pr_attempts r))) = Some (pr_attempts r)"
    using those_map [of attempt_of_json attempt_json, OF attempt_reads] by simp
  ultimately show "result_of_json (to_dict r) = Some r"
    unfolding result_of_json_def
    by (simp add: read_field_def to_dict_def as_verdict_value as_nullable_jopt del: as_list.simps as_nullable.simps list.map)
qed

section \<open>The records read back\<close>

definition result_floats :: "probe_result \<Rightarrow> pyfloat list" where
  "result_floats r =
     (case pr_tcp_ms r of None \<Rightarrow> [] | Some ms \<Rightarrow> [ms]) @ map a_elapsed_ms (pr_attempts r)
     @ (case pr_default r of None \<Rightarrow> [] | Some a \<Rightarrow> [a_elapsed_ms a])"

definition record_ok :: "(pyfloat \<Rightarrow> latin) \<Rightarrow> (latin \<Rightarrow> pyfloat) \<Rightarrow> probe_result \<Rightarrow> bool" where
  "record_ok repr pf r \<longleftrightarrow> 0 \<le> pr_port r \<and> pr_port r < 65536 \<and> list_all (float_ok repr pf) (result_floats r)"

lemma json_ok_jopt: "json_ok repr pf (jopt x)"
  by (cases x) (simp_all add: jopt_def lit_ok)

lemma json_ok_attempt: "float_ok repr pf (a_elapsed_ms a) \<Longrightarrow> json_ok repr pf (attempt_json a)"
  unfolding attempt_json_def json_ok.simps
  by (rule conjI, simp, simp add: json_ok_jopt lit_ok list_all_iff del: list.map)

lemma port_short: "0 \<le> n \<Longrightarrow> n < 65536 \<Longrightarrow> int_short n"
proof -
  assume "0 \<le> n" "n < 65536"
  then have "nat \<bar>n\<bar> < 10 ^ 5" by simp
  then have "length (str_of_nat (nat \<bar>n\<bar>)) \<le> 5" by (intro length_render_nat) simp_all
  then show ?thesis by (simp add: int_short_def int_max_str_digits_def)
qed

lemma json_ok_to_dict: "record_ok repr pf r \<Longrightarrow> json_ok repr pf (to_dict r)"
  unfolding to_dict_def json_ok.simps
  by (rule conjI, simp, simp add: record_ok_def result_floats_def json_ok_jopt json_ok_attempt lit_ok port_short list_all_iff
      del: list.map split: option.split)

lemma records_read_back:
  assumes "list_all (record_ok repr pf) results"
  defines "ls \<equiv> map (\<lambda>r. json_dumps repr (to_dict r)) results"
  shows "split_lines [] (concat (map (\<lambda>l. l @ [LF]) ls)) = ls"
    and "map (\<lambda>l. json_loads pf (lit l)) ls = map (\<lambda>r. Inr (to_dict r)) results"
proof -
  have "list_all (json_ok repr pf) (map to_dict results)"
    using assms(1) json_ok_to_dict by (auto simp: list_all_iff)
  from std_json.lines_read_back [OF this]
  show "split_lines [] (concat (map (\<lambda>l. l @ [LF]) ls)) = ls"
    and "map (\<lambda>l. json_loads pf (lit l)) ls = map (\<lambda>r. Inr (to_dict r)) results"
    by (simp_all add: ls_def comp_def)
qed

end
