(* ===== verification/Cli.thy ===== *)
theory Cli
  imports Report_Json
begin

text \<open>
  The command line, \<open>fizzpy/__main__.py\<close>: reading targets, running the scan, the table and the
  detailed report, and the exit status. The options come as a record, which \<open>Cli_Args\<close> reads from
  the arguments; files, the terminal and the formatting of floats are the parameter \<open>console\<close>.
\<close>

record options =
  o_targets :: "latin list"
  o_file :: "latin option"
  o_json :: bool
  o_verbose :: bool
  o_concurrency :: int
  o_timeout :: pyfloat
  o_sni :: "latin option"
  o_require_pq :: bool

section \<open>The terminal\<close>

text \<open>\<open>con_print\<close> is the exception that printing these lines raises, if any.\<close>

record console =
  con_stdin :: latin
  con_open :: "latin \<Rightarrow> fault + latin"
  con_isatty :: bool
  con_win32 :: bool
  con_no_color :: bool
  con_float :: "pyfloat \<Rightarrow> latin"
  con_print :: "latin list \<Rightarrow> fault option"

section \<open>Formatting\<close>

definition ljust :: "latin \<Rightarrow> nat \<Rightarrow> latin" where
  "ljust s n = s @ replicate (n - length s) CHR '' ''"

definition rjust :: "latin \<Rightarrow> nat \<Rightarrow> latin" where
  "rjust s n = replicate (n - length s) CHR '' '' @ s"

definition str_rstrip :: "latin \<Rightarrow> latin" where
  "str_rstrip s = rev (dropWhile is_str_space (rev s))"

section \<open>The table\<close>

definition COLUMNS :: "(latin \<times> latin) list" where
  "COLUMNS = [(''ML-KEM'', ''X25519MLKEM768''), (''x25519'', ''x25519''), (''P-256'', ''secp256r1''), (''P-384'', ''secp384r1'')]"

fun cell_text :: "probe_outcome \<Rightarrow> latin" where
  "cell_text ACCEPTED = ''ok''"
| "cell_text REJECTED = ''rej''"
| "cell_text FAILED = ''FAIL''"

fun verdict_color :: "verdict \<Rightarrow> latin" where
  "verdict_color POST_QUANTUM = ''32''"
| "verdict_color CLASSICAL_ONLY = ''33''"
| "verdict_color PQ_BLOCKED = ''31''"
| "verdict_color NO_TLS13 = ''31''"
| "verdict_color UNREACHABLE = ''90''"
| "verdict_color ERROR = ''31''"

definition paint :: "latin \<Rightarrow> latin \<Rightarrow> bool \<Rightarrow> latin" where
  "paint text code enabled = (if enabled then CHR 0x1B # ''['' @ code @ ''m'' @ text @ CHR 0x1B # ''[0m'' else text)"

definition cell :: "probe_result \<Rightarrow> latin \<Rightarrow> latin" where
  "cell r gname =
     (case find (\<lambda>a. a_offered a = [gname]) (pr_attempts r) of None \<Rightarrow> ''-'' | Some a \<Rightarrow> cell_text (a_outcome a))"

definition show_target :: "latin \<times> int \<Rightarrow> latin" where
  "show_target t = (case t of (host, p) \<Rightarrow> if p = 443 then host else host @ '':'' @ str_of_int p)"

definition row :: "probe_result \<Rightarrow> latin list" where
  "row r =
     [show_target (target_of r), verdict_value (pr_verdict r),
      (case preferred r of None \<Rightarrow> ''-'' | Some g \<Rightarrow> if g = [] then ''-'' else g)]
     @ map (\<lambda>(_, gname). cell r gname) COLUMNS
     @ [case pr_error r of None \<Rightarrow> [] | Some e \<Rightarrow> e]"

definition table_header :: "latin list" where
  "table_header = [''HOST'', ''VERDICT'', ''PREFERRED''] @ map fst COLUMNS @ [[]]"

definition table_widths :: "latin list list \<Rightarrow> nat list" where
  "table_widths rows = map (\<lambda>i. Max (set (map (\<lambda>r. length (r ! i)) rows))) [0..<length table_header]"

text \<open>A line of the table; \<open>painted\<close> is the verdict to colour, none for the header.\<close>

definition table_line :: "nat list \<Rightarrow> bool \<Rightarrow> verdict option \<Rightarrow> latin list \<Rightarrow> latin" where
  "table_line widths color painted cells =
     str_rstrip (join_with ''  ''
       (map (\<lambda>(j, text, w).
          case painted of
            Some v \<Rightarrow> if j = 1 then paint (ljust text w) (verdict_color v) color else ljust text w
          | None \<Rightarrow> ljust text w)
        (zip [0..<length cells] (zip cells widths))))"

definition print_table :: "probe_result list \<Rightarrow> bool \<Rightarrow> latin list" where
  "print_table results color =
     (let rows = table_header # map row results; widths = table_widths rows in
      table_line widths color None table_header
      # map (\<lambda>r. table_line widths color (Some (pr_verdict r)) (row r)) results)"

text \<open>A row is one line that starts with its target.\<close>

lemma rstrip_keeps: "\<not> is_str_space c \<Longrightarrow> prefix (xs @ [c]) (str_rstrip (xs @ c # ys))"
proof -
  assume c: "\<not> is_str_space c"
  have "\<exists>zs. dropWhile is_str_space (rev ys @ c # rev xs) = zs @ c # rev xs"
  proof (cases "list_all is_str_space (rev ys)")
    case True
    then show ?thesis using c by (intro exI [of _ "[]"]) (simp add: list_all_iff dropWhile_append)
  next
    case False
    then obtain y where "y \<in> set (rev ys)" "\<not> is_str_space y" by (auto simp: list_all_iff)
    then show ?thesis by (auto simp: dropWhile_append)
  qed
  then obtain zs where "dropWhile is_str_space (rev ys @ c # rev xs) = zs @ c # rev xs" by blast
  then show "prefix (xs @ [c]) (str_rstrip (xs @ c # ys))" by (simp add: str_rstrip_def)
qed

lemma paint_starts: "\<exists>c cs. paint (ljust (verdict_value v) w) code color = c # cs \<and> \<not> is_str_space c"
proof -
  have "\<exists>c cs. verdict_value v = c # cs \<and> \<not> is_str_space c"
    by (cases v) (simp_all add: is_str_space_def is_bytes_space_def)
  then show ?thesis by (auto simp: paint_def ljust_def is_str_space_def is_bytes_space_def)
qed

lemma table_line_starts:
  "prefix (show_target (target_of r) @ ''  '') (table_line (table_widths rows) color (Some (pr_verdict r)) (row r))"
proof -
  have "length (table_widths rows) = 8" by (simp add: table_widths_def table_header_def COLUMNS_def)
  then obtain w0 w1 ws where w: "table_widths rows = w0 # w1 # ws" by (auto simp: numeral_eq_Suc length_Suc_conv)
  obtain c cs where p: "paint (ljust (verdict_value (pr_verdict r)) w1) (verdict_color (pr_verdict r)) color = c # cs"
    "\<not> is_str_space c" using paint_starts by blast
  let ?t = "show_target (target_of r)"
  obtain cells where r: "row r = ?t # verdict_value (pr_verdict r) # cells" by (simp add: row_def)
  have ix: "[0..<Suc (Suc n)] = 0 # 1 # [2..<Suc (Suc n)]" for n by (simp add: upt_rec numeral_2_eq_2)
  have "\<exists>rest. table_line (table_widths rows) color (Some (pr_verdict r)) (row r)
      = str_rstrip (join_with ''  '' (ljust ?t w0 # (c # cs) # rest))"
    by (simp add: table_line_def w r ix p(1) del: upt_Suc) (rule exI, rule refl)
  moreover have "\<exists>ys. join_with ''  '' (x # (c # cs) # rest) = (x @ ''  '') @ c # ys" for x rest
    by (cases rest) auto
  ultimately obtain ys where
    l: "table_line (table_widths rows) color (Some (pr_verdict r)) (row r) = str_rstrip ((ljust ?t w0 @ ''  '') @ c # ys)" by metis
  have "ljust ?t w0 @ ''  '' @ [c] = (?t @ ''  '') @ replicate (w0 - length ?t) CHR '' '' @ [c]"
    by (simp add: ljust_def replicate_app_Cons_same)
  then show ?thesis unfolding l using rstrip_keeps [OF p(2), of "ljust ?t w0 @ ''  ''" ys]
    by (simp only: append.assoc) (metis append_prefixD append.assoc)
qed

section \<open>The detailed report\<close>

definition none_text :: "latin option \<Rightarrow> latin" where
  "none_text x = (case x of None \<Rightarrow> ''None'' | Some t \<Rightarrow> t)"

definition detail_line :: "console \<Rightarrow> latin \<Rightarrow> attempt \<Rightarrow> latin" where
  "detail_line con label a =
     ''  '' @ ljust label 16 @ '' '' @ ljust (outcome_value (a_outcome a)) 9 @ '' ''
     @ rjust (con_float con (a_elapsed_ms a)) 7 @ ''ms''
     @ (if a_outcome a = ACCEPTED
        then ''  '' @ none_text (a_group a) @ '' '' @ none_text (a_cipher a) @ '' alpn='' @ none_text (a_alpn a)
             @ '' cert='' @ none_text (a_certificate a)
        else if truthy (a_alert a) then ''  alert='' @ none_text (a_alert a) else [])
     @ (if truthy (a_detail a) then ''  '' @ none_text (a_detail a) else [])"

definition print_detail :: "console \<Rightarrow> probe_result \<Rightarrow> latin list" where
  "print_detail con r =
     (let where = (if truthy (pr_address r)
                   then '' ('' @ none_text (pr_address r) @ '', tcp ''
                        @ (case pr_tcp_ms r of None \<Rightarrow> ''None'' | Some ms \<Rightarrow> con_float con ms) @ ''ms)'' else []) in
      [[], pr_host r @ '':'' @ str_of_int (pr_port r) @ where @ '' -> '' @ verdict_value (pr_verdict r)]
      @ (if truthy (pr_error r) then [''  error: '' @ none_text (pr_error r)] else [])
      @ map (\<lambda>a. detail_line con (hd (a_offered a)) a) (pr_attempts r)
      @ (case pr_default r of None \<Rightarrow> [] | Some a \<Rightarrow> [detail_line con ''default offer'' a]))"

section \<open>Reading targets\<close>

definition read_targets :: "console \<Rightarrow> options \<Rightarrow> fault + latin list" where
  "read_targets con opts =
     (let raw = o_targets opts in
      if truthy (o_file opts)
      then and_then (if o_file opts = Some ''-'' then Inr (con_stdin con) else con_open con (the (o_file opts)))
             (\<lambda>content. Inr (filter (\<lambda>t. t \<noteq> [])
                (raw @ map (\<lambda>l. str_strip (before CHR ''#'' l)) (split_lines [] content))))
      else Inr (filter (\<lambda>t. t \<noteq> []) raw))"

text \<open>\<open>list(dict.fromkeys(xs))\<close>: the first of equal elements stays.\<close>

fun dedup :: "'a list \<Rightarrow> 'a list" where
  "dedup [] = []"
| "dedup (x # xs) = x # filter (\<lambda>y. y \<noteq> x) (dedup xs)"

section \<open>The command\<close>

text \<open>
  What goes to \<open>stderr\<close>, and how the process ends: with an exit status, or with an exception
  that nothing catches. \<open>Interrupted\<close> stands for \<open>KeyboardInterrupt\<close>.
\<close>

datatype complaint = ReadFault fault | TargetFault target_fault | NoTargets | Unsupported fault | BadNumbers

record ending =
  end_lines :: "latin list"
  end_complaint :: "complaint option"
  end_status :: "fault + int"

definition ending_of :: "latin list \<Rightarrow> complaint option \<Rightarrow> int \<Rightarrow> ending" where
  "ending_of out err status = \<lparr>end_lines = out, end_complaint = err, end_status = Inr status\<rparr>"

text \<open>How a scan ends: with the results it yielded, and perhaps an exception.\<close>

datatype scan_end = Completed | RaisedBy fault | Interrupted

type_synonym scanner_fun = "(latin \<times> int) list \<Rightarrow> int \<Rightarrow> pyfloat \<Rightarrow> latin option \<Rightarrow> probe_result list \<times> scan_end"

text \<open>The lines that \<open>_probe_all\<close> prints.\<close>

definition json_lines :: "console \<Rightarrow> options \<Rightarrow> probe_result list \<Rightarrow> latin list" where
  "json_lines con opts results = (if o_json opts then map (\<lambda>r. json_dumps (con_float con) (to_dict r)) results else [])"

text \<open>\<open>order.get((r.host, r.port), len(order))\<close>\<close>

definition target_rank :: "(latin \<times> int) list \<Rightarrow> probe_result \<Rightarrow> nat" where
  "target_rank targets r = length (takeWhile (\<lambda>t. t \<noteq> target_of r) targets)"

definition report_lines :: "console \<Rightarrow> options \<Rightarrow> (latin \<times> int) list \<Rightarrow> probe_result list \<Rightarrow> latin list" where
  "report_lines con opts targets results =
     (if o_json opts then json_lines con opts results
      else let results = sort_key (target_rank targets) results;
               color = (con_isatty con \<and> \<not> con_win32 con \<and> \<not> con_no_color con) in
        print_table results color @ (if o_verbose opts then concat (map (print_detail con) results) else []))"

definition exit_status :: "options \<Rightarrow> probe_result list \<Rightarrow> int" where
  "exit_status opts results =
     (if o_require_pq opts \<and> list_ex (\<lambda>r. pr_verdict r \<noteq> POST_QUANTUM) results then 1 else 0)"

definition cmd_probe ::
    "(latin \<Rightarrow> latin option) \<Rightarrow> console \<Rightarrow> scanner_fun \<Rightarrow> options \<Rightarrow> ending" where
  "cmd_probe nonascii con scanner opts =
     (case read_targets con opts of
        Inl e \<Rightarrow>
          if os_or_timeout e \<or> f_kind e = ValueFailure then ending_of [] (Some (ReadFault e)) 2
          else \<lparr>end_lines = [], end_complaint = None, end_status = Inl e\<rparr>
      | Inr specs \<Rightarrow>
          (case parse_targets nonascii (map Inl specs) of
             Inl e \<Rightarrow> ending_of [] (Some (TargetFault e)) 2
           | Inr parsed \<Rightarrow>
               let targets = dedup parsed in
               if targets = [] then ending_of [] (Some NoTargets) 2
               else let (results, how) = scanner targets (o_concurrency opts) (o_timeout opts) (o_sni opts);
                        printed = json_lines con opts results in
                 case how of
                   RaisedBy e \<Rightarrow>
                     (if f_kind e = NoPostQuantumSupport then ending_of printed (Some (Unsupported e)) 2
                      else \<lparr>end_lines = printed, end_complaint = None, end_status = Inl e\<rparr>)
                 | Interrupted \<Rightarrow> ending_of printed None 130
                 | Completed \<Rightarrow>
                     ending_of (report_lines con opts targets results) None (exit_status opts results)))"

text \<open>\<open>main\<close>, after the options are parsed; a reader of \<open>stdout\<close> that went away ends it with 1.\<close>

definition main :: "(latin \<Rightarrow> latin option) \<Rightarrow> console \<Rightarrow> scanner_fun \<Rightarrow> options \<Rightarrow> ending" where
  "main nonascii con scanner opts =
     (if o_concurrency opts < 1 \<or> not_positive (o_timeout opts) then ending_of [] (Some BadNumbers) 2
      else let e = cmd_probe nonascii con scanner opts in
        case con_print con (end_lines e) of
          None \<Rightarrow> e
        | Some f \<Rightarrow> if f_type f = ''BrokenPipeError'' then e\<lparr>end_status := Inr 1\<rparr> else e\<lparr>end_status := Inl f\<rparr>)"

section \<open>The contract between the scan and its report\<close>

text \<open>
  The report relies on one thing: a scan that completes has one result for each target, in
  whatever order.
\<close>

locale scanner =
  fixes delivers :: "(latin \<times> int) list \<Rightarrow> probe_result list \<Rightarrow> bool"
  assumes one_each: "delivers targets results \<Longrightarrow> mset (map target_of results) = mset targets"
begin

lemma rank_nth:
  assumes "distinct targets" "i < length targets"
  shows "length (takeWhile (\<lambda>u. u \<noteq> targets ! i) targets) = i"
proof -
  have "takeWhile (\<lambda>u. u \<noteq> targets ! i) targets = take i targets"
    using assms by (intro takeWhile_eq_take_P_nth) (auto simp: nth_eq_iff_index_eq)
  with assms(2) show ?thesis by simp
qed

lemma ranks_sorted:
  assumes "distinct targets"
  shows "sorted (map (\<lambda>t. length (takeWhile (\<lambda>u. u \<noteq> t) targets)) targets)"
    and "inj_on (\<lambda>t. length (takeWhile (\<lambda>u. u \<noteq> t) targets)) (set targets)"
proof -
  have "map (\<lambda>t. length (takeWhile (\<lambda>u. u \<noteq> t) targets)) targets = [0..<length targets]"
    using rank_nth [OF assms] by (intro nth_equalityI) simp_all
  then show "sorted (map (\<lambda>t. length (takeWhile (\<lambda>u. u \<noteq> t) targets)) targets)"
    and "inj_on (\<lambda>t. length (takeWhile (\<lambda>u. u \<noteq> t) targets)) (set targets)"
    by (simp, metis distinct_upt distinct_map)
qed

lemma report_order:
  assumes "delivers targets results" "distinct targets"
  shows "map target_of (sort_key (target_rank targets) results) = targets"
proof -
  let ?rank = "\<lambda>t. length (takeWhile (\<lambda>u. u \<noteq> t) targets)"
  let ?ordered = "map target_of (sort_key (target_rank targets) results)"
  have "map ?rank ?ordered = map (target_rank targets) (sort_key (target_rank targets) results)"
    by (simp add: target_rank_def)
  then have "sorted (map ?rank ?ordered)" by (simp only: sorted_sort_key)
  moreover have "mset targets = mset ?ordered" using one_each [OF assms(1)] by simp
  ultimately have "sort_key ?rank targets = ?ordered"
    using ranks_sorted(2) [OF assms(2)] by (intro sort_key_inj_key_eq)
  moreover have "sort_key ?rank targets = targets"
    using ranks_sorted [OF assms(2)] by (intro sort_key_inj_key_eq) simp_all
  ultimately show ?thesis by simp
qed

lemma all_reported: "delivers targets results \<Longrightarrow> target_of ` set results = set targets"
  using one_each [of targets results] by (metis list.set_map set_mset_mset)

end

text \<open>The scans of \<open>probe_many\<close> with some networks keep the contract.\<close>

definition scan_gives :: "(latin \<times> int) list \<Rightarrow> probe_result list \<Rightarrow> bool" where
  "scan_gives targets results \<longleftrightarrow>
     (\<exists>nonascii (wires :: nat \<Rightarrow> latin wire) timeout sni alpn concurrency k s.
        let one = probe_one nonascii wires timeout sni alpn targets in
        1 \<le> concurrency \<and> scan_run concurrency one (length targets) k s \<and> scan_ended concurrency one s
        \<and> sc_raised s = None \<and> results = sc_yielded s)"

interpretation scanned: scanner scan_gives
proof
  fix targets results
  assume "scan_gives targets results"
  then obtain nonascii timeout sni alpn concurrency k s and wires :: "nat \<Rightarrow> latin wire" where s:
    "1 \<le> concurrency" "sc_raised s = None" "results = sc_yielded s"
    "scan_run concurrency (probe_one nonascii wires timeout sni alpn targets) (length targets) k s"
    "scan_ended concurrency (probe_one nonascii wires timeout sni alpn targets) s"
    by (auto simp: scan_gives_def Let_def)
  from scan_ended_result [OF s(1,4,5)] s(2,3) yielded_targets
  show "mset (map target_of results) = mset targets" by fastforce
qed

lemma set_dedup [simp]: "set (dedup xs) = set xs"
  by (induction xs) auto

lemma distinct_dedup [simp]: "distinct (dedup xs)"
  by (induction xs) auto

section \<open>Properties\<close>

text \<open>
  C29: with \<open>--require-pq\<close> the command succeeds only when every target it was given is
  post-quantum: from options to exit status, over any order of completion. Without \<open>--json\<close> it
  prints, after the header, one line per target, in the order of the first mention, whatever order
  the results came in: the line starts with the target and is the row of its result.
\<close>

theorem require_pq_status:
  assumes "1 \<le> o_concurrency opts" "\<not> not_positive (o_timeout opts)" "con_print con = (\<lambda>_. None)"
    and "read_targets con opts = Inr specs" "parse_targets nonascii (map Inl specs) = Inr parsed" "parsed \<noteq> []"
    and "scan (dedup parsed) (o_concurrency opts) (o_timeout opts) (o_sni opts) = (results, Completed)"
    and "scan_gives (dedup parsed) results"
  shows "\<exists>status. end_status (main nonascii con scan opts) = Inr status \<and> status \<in> {0, 1}
    \<and> (o_require_pq opts \<longrightarrow> (status = 0 \<longleftrightarrow>
        (\<forall>t \<in> set parsed. \<exists>r \<in> set results. target_of r = t) \<and> (\<forall>r \<in> set results. target_of r \<in> set parsed \<and> pr_verdict r = POST_QUANTUM)))
    \<and> (\<not> o_json opts \<longrightarrow> (let out = end_lines (main nonascii con scan opts) in
        length (dedup parsed) < length out \<and> (\<not> o_verbose opts \<longrightarrow> length out = Suc (length (dedup parsed)))
        \<and> (\<forall>i < length (dedup parsed). prefix (show_target (dedup parsed ! i) @ ''  '') (out ! Suc i)
            \<and> (\<exists>r \<in> set results. \<exists>widths color. target_of r = dedup parsed ! i
                 \<and> out ! Suc i = table_line widths color (Some (pr_verdict r)) (row r)))))"
proof -
  let ?rs = "sort_key (target_rank (dedup parsed)) results"
  have nonempty: "dedup parsed \<noteq> []" using assms(6) by (cases parsed) simp_all
  then have m: "main nonascii con scan opts =
      ending_of (report_lines con opts (dedup parsed) results) None (exit_status opts results)"
    using assms(1-5,7) by (simp add: main_def cmd_probe_def Let_def)
  have targets: "target_of ` set results = set parsed"
    using scanned.all_reported [OF assms(8)] by simp
  have order: "map target_of ?rs = dedup parsed"
    by (rule scanned.report_order [OF assms(8) distinct_dedup])
  from arg_cong [OF this, of length] have len: "length ?rs = length (dedup parsed)" by simp
  let ?out = "end_lines (main nonascii con scan opts)"
  have table: "length (dedup parsed) < length ?out \<and> (\<not> o_verbose opts \<longrightarrow> length ?out = Suc (length (dedup parsed)))
      \<and> (\<forall>i < length (dedup parsed). prefix (show_target (dedup parsed ! i) @ ''  '') (?out ! Suc i)
          \<and> (\<exists>r \<in> set results. \<exists>widths color. target_of r = dedup parsed ! i
               \<and> ?out ! Suc i = table_line widths color (Some (pr_verdict r)) (row r)))" if printed: "\<not> o_json opts"
  proof -
    obtain color extra where out: "?out = print_table ?rs color @ extra" and extra: "\<not> o_verbose opts \<longrightarrow> extra = []"
    proof
      show "?out = print_table ?rs (con_isatty con \<and> \<not> con_win32 con \<and> \<not> con_no_color con)
          @ (if o_verbose opts then concat (map (print_detail con) ?rs) else [])"
        using printed by (simp add: m ending_of_def report_lines_def Let_def)
    qed simp
    let ?rows = "table_header # map row ?rs"
    have line: "?out ! Suc i = table_line (table_widths ?rows) color (Some (pr_verdict (?rs ! i))) (row (?rs ! i))"
      "target_of (?rs ! i) = dedup parsed ! i" "?rs ! i \<in> set results" if "i < length (dedup parsed)" for i
    proof -
      have i: "i < length ?rs" using that len by simp
      then show "?out ! Suc i = table_line (table_widths ?rows) color (Some (pr_verdict (?rs ! i))) (row (?rs ! i))"
        by (simp add: out print_table_def Let_def nth_append)
      show "target_of (?rs ! i) = dedup parsed ! i" using i order by (metis nth_map)
      show "?rs ! i \<in> set results" using nth_mem [OF i] by simp
    qed
    have "length ?out = Suc (length (dedup parsed)) + length extra" by (simp add: out print_table_def Let_def len [simplified])
    with extra have "length (dedup parsed) < length ?out" "\<not> o_verbose opts \<longrightarrow> length ?out = Suc (length (dedup parsed))" by auto
    moreover have "prefix (show_target (dedup parsed ! i) @ ''  '') (?out ! Suc i)" if "i < length (dedup parsed)" for i
      using table_line_starts [of "?rs ! i" ?rows color] unfolding line(1,2) [OF that] .
    ultimately show ?thesis using line by blast
  qed
  moreover have "exit_status opts results = 0 \<longleftrightarrow> (o_require_pq opts \<longrightarrow> (\<forall>r \<in> set results. pr_verdict r = POST_QUANTUM))"
    by (auto simp: exit_status_def list_ex_iff)
  moreover have "exit_status opts results \<in> {0, 1}" by (simp add: exit_status_def)
  moreover have "\<forall>t \<in> set parsed. \<exists>r \<in> set results. target_of r = t" "\<forall>r \<in> set results. target_of r \<in> set parsed"
    unfolding targets [symmetric] by auto
  moreover have "end_status (main nonascii con scan opts) = Inr (exit_status opts results)" by (simp add: m ending_of_def)
  ultimately show ?thesis unfolding Let_def
    by (intro exI [of _ "exit_status opts results"]) (intro conjI impI; (elim conjE)?; blast)
qed

text \<open>
  Status 2 is for the user's mistakes and for builds that cannot probe: unusable numbers,
  files or targets, found before anything is scanned, and the exception of an unsupported build;
  only a scan that was interrupted gives 130.
\<close>

theorem status_meaning:
  assumes "con_print con = (\<lambda>_. None)" "end_status (main nonascii con scan opts) = Inr status"
  shows "status \<in> {0, 1, 2, 130}
    \<and> (status = 2 \<longleftrightarrow> (\<exists>c. end_complaint (main nonascii con scan opts) = Some c))
    \<and> (status = 130 \<longrightarrow> (\<exists>targets results. targets \<noteq> [] \<and> distinct targets
         \<and> scan targets (o_concurrency opts) (o_timeout opts) (o_sni opts) = (results, Interrupted)))"
proof -
  have "exit_status opts results \<in> {0, 1}" "exit_status opts results \<noteq> 2" "exit_status opts results \<noteq> 130" for results
    by (simp_all add: exit_status_def)
  then show ?thesis
    using assms distinct_dedup
    unfolding main_def cmd_probe_def Let_def ending_of_def
    by (auto split: if_splits sum.splits prod.splits scan_end.splits)
qed

lemma verdict_field: "json_field (lit ''verdict'') (to_dict r) = Some (JStr (lit (verdict_value (pr_verdict r))))"
  by (simp add: to_dict_def)

lemma verdict_is_pq: "verdict_value v = ''post-quantum'' \<longleftrightarrow> v = POST_QUANTUM"
  by (cases v) simp_all

text \<open>
  C30: with \<open>--json\<close> the output is one line of JSON per result, in the order of completion, also
  when the scan is interrupted or fails: splitting the output at line breaks gives these lines, and
  \<open>json.loads\<close> reads from each the record of its result, provided that the floats in it are read
  back from their text. When the scan completes, the exit status is what a reader of the lines
  computes from their verdicts.
\<close>

theorem json_report_reads_back:
  assumes "1 \<le> o_concurrency opts" "\<not> not_positive (o_timeout opts)" "o_json opts" "con_print con = (\<lambda>_. None)"
    and "read_targets con opts = Inr specs" "parse_targets nonascii (map Inl specs) = Inr parsed" "parsed \<noteq> []"
    and "scan (dedup parsed) (o_concurrency opts) (o_timeout opts) (o_sni opts) = (results, how)"
    and "list_all (record_ok (con_float con) pf) results"
  shows "split_lines [] (concat (map (\<lambda>l. l @ [LF]) (end_lines (main nonascii con scan opts))))
      = end_lines (main nonascii con scan opts)
    \<and> map (\<lambda>l. json_loads pf (lit l)) (end_lines (main nonascii con scan opts)) = map (\<lambda>r. Inr (to_dict r)) results
    \<and> (how = Completed \<longrightarrow> end_status (main nonascii con scan opts) = Inr
        (if o_require_pq opts
           \<and> (\<exists>l \<in> set (end_lines (main nonascii con scan opts)). \<exists>j. json_loads pf (lit l) = Inr j
                \<and> json_field (lit ''verdict'') j \<noteq> Some (JStr (lit ''post-quantum'')))
         then 1 else 0))"
proof -
  let ?e = "main nonascii con scan opts"
  have nonempty: "dedup parsed \<noteq> []" using assms(7) by (cases parsed) simp_all
  have e: "?e = cmd_probe nonascii con scan opts" using assms(1,2,4) by (simp add: main_def Let_def)
  have "end_lines (cmd_probe nonascii con scan opts) = json_lines con opts results"
    using assms(3,5,6,8) nonempty
    by (cases how) (simp_all add: cmd_probe_def ending_of_def report_lines_def Let_def)
  then have lines: "end_lines ?e = map (\<lambda>r. json_dumps (con_float con) (to_dict r)) results"
    using assms(3) e by (simp add: json_lines_def)
  note read = records_read_back [OF assms(9), folded lines]
  have "(\<exists>l \<in> set (end_lines ?e). \<exists>j. json_loads pf (lit l) = Inr j \<and> P j) \<longleftrightarrow> (\<exists>r \<in> set results. P (to_dict r))" for P
  proof -
    have "(\<exists>l \<in> set (end_lines ?e). \<exists>j. json_loads pf (lit l) = Inr j \<and> P j) \<longleftrightarrow>
        (\<exists>x \<in> set (map (\<lambda>l. json_loads pf (lit l)) (end_lines ?e)). \<exists>j. x = Inr j \<and> P j)" by auto
    then show ?thesis unfolding read(2) by auto
  qed
  moreover have "end_status ?e = Inr (exit_status opts results)" if "how = Completed"
    using assms(5,6,8) nonempty e that by (simp add: cmd_probe_def ending_of_def Let_def)
  ultimately show ?thesis
    using read by (simp add: exit_status_def list_ex_iff verdict_field verdict_is_pq del: list.map)
qed

section \<open>The properties at a concrete scan\<close>

definition demo_options :: options where
  "demo_options = \<lparr>o_targets = [''H.example''], o_file = Some ''hosts'', o_json = False, o_verbose = False,
     o_concurrency = 1, o_timeout = Fin 5, o_sni = None, o_require_pq = True\<rparr>"

definition demo_console :: console where
  "demo_console = \<lparr>con_stdin = [], con_open = \<lambda>f. Inr (''h.example:443 # again'' @ [LF]), con_isatty = False, con_win32 = False,
     con_no_color = False, con_float = \<lambda>f. ''0'', con_print = \<lambda>_. None\<rparr>"

lemma demo_read: "read_targets demo_console demo_options = Inr [''H.example'', ''h.example:443'']"
  by code_simp

lemma demo_parsed: "parse_targets (\<lambda>_. None) (map Inl [''H.example'', ''h.example:443'']) = Inr [(''h.example'', 443), (''h.example'', 443)]"
  by code_simp

lemma require_pq_status_witness:
  "\<exists>r status. end_status (main (\<lambda>_. None) demo_console (\<lambda>ts c t sni. ([r], Completed)) demo_options) = Inr status
    \<and> (status = 0 \<longleftrightarrow> pr_verdict r = POST_QUANTUM)
    \<and> prefix ''h.example  '' (end_lines (main (\<lambda>_. None) demo_console (\<lambda>ts c t sni. ([r], Completed)) demo_options) ! 1)"
proof -
  obtain r where r: "scan_run 1 demo_one 1 3 (demo_end r)" "scan_ended 1 demo_one (demo_end r)" "target_of r = (''h.example'', 443)"
    by (rule demo_scan)
  have d: "dedup [(''h.example'', 443), (''h.example'', 443)] = demo_targets" by simp
  have "scan_gives demo_targets [r]"
    unfolding scan_gives_def Let_def
    by (rule exI [of _ "\<lambda>_. None"], rule exI [of _ "\<lambda>_. demo_wire"], rule exI [of _ "Fin 5"], rule exI [of _ None],
        rule exI [of _ PROBE_ALPN], rule exI [of _ 1], rule exI [of _ 3], rule exI [of _ "demo_end r"])
      (use r in \<open>simp add: demo_end_def\<close>)
  then have gives: "scan_gives (dedup [(''h.example'', 443), (''h.example'', 443)]) [r]" by (simp only: d)
  have opts: "1 \<le> o_concurrency demo_options" "\<not> not_positive (o_timeout demo_options)" "con_print demo_console = (\<lambda>_. None)"
    by (simp_all add: demo_options_def demo_console_def)
  from require_pq_status [OF opts demo_read demo_parsed _ _ gives, of "\<lambda>ts c t sni. ([r], Completed)"]
  obtain status where "end_status (main (\<lambda>_. None) demo_console (\<lambda>ts c t sni. ([r], Completed)) demo_options) = Inr status"
    "status = 0 \<longleftrightarrow> pr_verdict r = POST_QUANTUM"
    "prefix (show_target (dedup [(''h.example'', 443), (''h.example'', 443)] ! 0) @ ''  '')
      (end_lines (main (\<lambda>_. None) demo_console (\<lambda>ts c t sni. ([r], Completed)) demo_options) ! Suc 0)"
    using r(3) by (auto simp: demo_options_def Let_def)
  then show ?thesis by (auto simp: show_target_def)
qed

lemma status_meaning_witness:
  "\<exists>c. end_complaint (main (\<lambda>_. None) demo_console (\<lambda>ts c t sni. ([], Completed)) (demo_options\<lparr>o_concurrency := 0\<rparr>)) = Some c"
proof -
  have "end_status (main (\<lambda>_. None) demo_console (\<lambda>ts c t sni. ([], Completed)) (demo_options\<lparr>o_concurrency := 0\<rparr>)) = Inr 2"
    by (simp add: main_def demo_console_def demo_options_def ending_of_def)
  with status_meaning [of demo_console, OF _ this] show ?thesis by (simp add: demo_console_def)
qed

definition demo_result :: probe_result where
  "demo_result = \<lparr>pr_host = ''h.example'', pr_port = 443, pr_verdict = PQ_BLOCKED, pr_address = Some ''192.0.2.1'',
     pr_tcp_ms = Some (Fin 2), pr_error = None,
     pr_attempts = [(new_attempt [''X25519MLKEM768''] FAILED (Fin 2))\<lparr>a_detail := Some [CHR 0x22, LF, CHR 0xE9]\<rparr>],
     pr_default = None\<rparr>"

lemma json_report_reads_back_witness:
  "map (\<lambda>l. json_loads (\<lambda>_. Fin 2) (lit l))
      (end_lines (main (\<lambda>_. None) (demo_console\<lparr>con_float := \<lambda>_. ''2.0''\<rparr>) (\<lambda>ts c t sni. ([demo_result], Interrupted))
        (demo_options\<lparr>o_json := True\<rparr>))) =
    [Inr (to_dict demo_result)]"
proof -
  let ?con = "demo_console\<lparr>con_float := \<lambda>_. ''2.0''\<rparr>" and ?opts = "demo_options\<lparr>o_json := True\<rparr>"
  have opts: "1 \<le> o_concurrency ?opts" "\<not> not_positive (o_timeout ?opts)" "o_json ?opts" "con_print ?con = (\<lambda>_. None)"
    by (simp_all add: demo_options_def demo_console_def)
  have r: "read_targets ?con ?opts = Inr [''H.example'', ''h.example:443'']" by code_simp
  have "list_all (record_ok (con_float ?con) (\<lambda>_. Fin 2)) [demo_result]"
    by code_simp
  from json_report_reads_back [OF opts r demo_parsed _ _ this, of "\<lambda>ts c t sni. ([demo_result], Interrupted)" Interrupted]
  show ?thesis by simp
qed

end
