(* ===== verification/Cli_Args.thy ===== *)
theory Cli_Args
  imports Cli
begin

text \<open>
  The options of the command line: what \<open>_build_parser\<close> declares, and how \<open>argparse\<close> reads a list of
  arguments by it (Python 3.13): abbreviations, joined short options, values after \<open>=\<close>, negative
  numbers, and \<open>--\<close>. A usage error ends the process with 2 and \<open>--help\<close> with 0; what \<open>argparse\<close>
  prints then is left out. \<open>pf\<close> is \<open>float\<close> of a text, if it is one.
\<close>

section \<open>What the parser declares\<close>

datatype option_action = OptHelp | OptFile | OptJson | OptVerbose | OptConcurrency | OptTimeout | OptSni | OptRequirePq

type_synonym option_table = "(latin \<times> option_action) list"

definition PROBE_OPTIONS :: option_table where
  "PROBE_OPTIONS =
     [(''-h'', OptHelp), (''--help'', OptHelp), (''-f'', OptFile), (''--file'', OptFile), (''--json'', OptJson),
      (''-v'', OptVerbose), (''--verbose'', OptVerbose), (''-c'', OptConcurrency), (''--concurrency'', OptConcurrency),
      (''-t'', OptTimeout), (''--timeout'', OptTimeout), (''--sni'', OptSni), (''--require-pq'', OptRequirePq)]"

definition TOP_OPTIONS :: option_table where
  "TOP_OPTIONS = [(''-h'', OptHelp), (''--help'', OptHelp)]"

definition DEFAULT_OPTIONS :: options where
  "DEFAULT_OPTIONS = \<lparr>o_targets = [], o_file = None, o_json = False, o_verbose = False, o_concurrency = 16,
     o_timeout = Fin 5, o_sni = None, o_require_pq = False\<rparr>"

fun takes_argument :: "option_action \<Rightarrow> bool" where
  "takes_argument OptFile \<longleftrightarrow> True"
| "takes_argument OptConcurrency \<longleftrightarrow> True"
| "takes_argument OptTimeout \<longleftrightarrow> True"
| "takes_argument OptSni \<longleftrightarrow> True"
| "takes_argument _ \<longleftrightarrow> False"

text \<open>What an option does; \<open>None\<close> is a value that its type refuses.\<close>

fun set_option :: "(latin \<Rightarrow> pyfloat option) \<Rightarrow> option_action \<Rightarrow> latin \<Rightarrow> options \<Rightarrow> options option" where
  "set_option pf OptFile v opts = Some (opts\<lparr>o_file := Some v\<rparr>)"
| "set_option pf OptSni v opts = Some (opts\<lparr>o_sni := Some v\<rparr>)"
| "set_option pf OptConcurrency v opts = map_option (\<lambda>n. opts\<lparr>o_concurrency := n\<rparr>) (py_int 10 is_str_space v)"
| "set_option pf OptTimeout v opts = map_option (\<lambda>t. opts\<lparr>o_timeout := t\<rparr>) (pf v)"
| "set_option pf OptJson v opts = Some (opts\<lparr>o_json := True\<rparr>)"
| "set_option pf OptVerbose v opts = Some (opts\<lparr>o_verbose := True\<rparr>)"
| "set_option pf OptRequirePq v opts = Some (opts\<lparr>o_require_pq := True\<rparr>)"
| "set_option pf OptHelp v opts = Some opts"

section \<open>What an argument is\<close>

text \<open>
  A known option comes with the name it was found under, and with a value that was joined to it,
  after \<open>=\<close> when the flag is set.
\<close>

datatype arg_class = PlainArg | Separator | Known option_action latin "(bool \<times> latin) option" | Unknown | Ambiguous

definition split_eq :: "latin \<Rightarrow> latin \<times> latin option" where
  "split_eq s = (if CHR ''='' \<in> set s then (before CHR ''='' s, Some (tl (dropWhile (\<lambda>c. c \<noteq> CHR ''='') s))) else (s, None))"

definition option_matches :: "option_table \<Rightarrow> latin \<Rightarrow> arg_class list" where
  "option_matches table s =
     (if prefix ''--'' s
      then (let (name, e) = split_eq s in
            map (\<lambda>(n, a). Known a n (map_option (Pair True) e)) (filter (\<lambda>(n, a). prefix name n) table))
      else map (\<lambda>(n, a). Known a n (Some (False, drop 2 s))) (filter (\<lambda>(n, a). n = take 2 s) table))"

definition dec_char :: "char \<Rightarrow> bool" where
  "dec_char c \<longleftrightarrow> c \<in> set ''0123456789''"

text \<open>\<open>^-\d+$|^-\d*\.\d+$\<close>, where \<open>$\<close> matches before a final newline, too.\<close>

definition negative_number :: "latin \<Rightarrow> bool" where
  "negative_number s =
     (let t = (if s \<noteq> [] \<and> last s = LF then butlast s else s);
          whole = takeWhile dec_char (tl t); rest = dropWhile dec_char (tl t) in
      prefix ''-'' t \<and> (whole \<noteq> [] \<and> rest = [] \<or> prefix ''.'' rest \<and> tl rest \<noteq> [] \<and> list_all dec_char (tl rest)))"

definition classify_arg :: "option_table \<Rightarrow> latin \<Rightarrow> arg_class" where
  "classify_arg table s =
     (if \<not> prefix ''-'' s then PlainArg
      else case map_of table s of
          Some a \<Rightarrow> Known a s None
        | None \<Rightarrow>
            if s = ''-'' then PlainArg
            else case (map_of table (fst (split_eq s)), snd (split_eq s)) of
                (Some a, Some e) \<Rightarrow> Known a (fst (split_eq s)) (Some (True, e))
              | _ \<Rightarrow>
                  (case option_matches table s of
                     [k] \<Rightarrow> k
                   | [] \<Rightarrow> if negative_number s \<or> CHR '' '' \<in> set s then PlainArg else Unknown
                   | _ \<Rightarrow> Ambiguous))"

text \<open>Everything after the first \<open>--\<close> is no option.\<close>

fun classify_args :: "option_table \<Rightarrow> latin list \<Rightarrow> (latin \<times> arg_class) list" where
  "classify_args table [] = []"
| "classify_args table (s # ss) =
     (if s = ''--'' then (s, Separator) # map (\<lambda>s. (s, PlainArg)) ss
      else (s, classify_arg table s) # classify_args table ss)"

section \<open>Reading the options\<close>

text \<open>
  The actions of one argument: short flags may be joined, and the last of them may take the rest of
  the argument, or the next one, as its value.
\<close>

datatype option_end = AllDone | Wants option_action | RefusedValue | UnknownFlag

function option_run ::
    "option_table \<Rightarrow> option_action \<Rightarrow> latin \<Rightarrow> (bool \<times> latin) option \<Rightarrow> (option_action \<times> latin) list \<times> option_end" where
  "option_run table a name None = (if takes_argument a then ([], Wants a) else ([(a, [])], AllDone))"
| "option_run table a name (Some (eq, e)) =
     (if takes_argument a then ([(a, e)], AllDone)
      else if prefix ''--'' name \<or> eq \<or> e = [] \<or> hd e = CHR ''-'' then ([], RefusedValue)
      else case map_of table [CHR ''-'', hd e] of
          None \<Rightarrow> ([(a, [])], UnknownFlag)
        | Some a' \<Rightarrow>
            (let (acts, how) = option_run table a' [CHR ''-'', hd e]
                   (if tl e = [] then None else if prefix ''='' (tl e) then Some (True, tl (tl e)) else Some (False, tl e)) in
             ((a, []) # acts, how)))"
  by pat_completeness auto
termination
  by (relation "measure (\<lambda>(table, a, name, e). case e of None \<Rightarrow> 0 | Some (eq, e) \<Rightarrow> Suc (length e))") auto

text \<open>A number is the status with which \<open>argparse\<close> ends the process.\<close>

fun apply_options ::
    "(latin \<Rightarrow> pyfloat option) \<Rightarrow> (option_action \<times> latin) list \<Rightarrow> options \<Rightarrow> int + options" where
  "apply_options pf [] opts = Inr opts"
| "apply_options pf ((a, v) # acts) opts =
     (if a = OptHelp then Inl 0
      else case set_option pf a v opts of None \<Rightarrow> Inl 2 | Some opts \<Rightarrow> apply_options pf acts opts)"

definition plain_class :: "arg_class \<Rightarrow> bool" where
  "plain_class c \<longleftrightarrow> c = PlainArg \<or> c = Separator"

text \<open>
  The first run of arguments that are no options gives the targets; a later one is left over, and
  arguments left over are an error in the end.
\<close>

function read_options ::
    "(latin \<Rightarrow> pyfloat option) \<Rightarrow> bool \<Rightarrow> bool \<Rightarrow> (latin \<times> arg_class) list \<Rightarrow> options \<Rightarrow> int + options" where
  "read_options pf taken extras [] opts = (if extras then Inl 2 else Inr opts)"
| "read_options pf taken extras ((s, c) # args) opts =
     (case c of
        Unknown \<Rightarrow> read_options pf taken True args opts
      | Ambiguous \<Rightarrow> Inl 2
      | Known a name e \<Rightarrow>
          (case option_run PROBE_OPTIONS a name e of
             (acts, RefusedValue) \<Rightarrow> Inl 2
           | (acts, AllDone) \<Rightarrow> and_then (apply_options pf acts opts) (read_options pf taken extras args)
           | (acts, UnknownFlag) \<Rightarrow> and_then (apply_options pf acts opts) (read_options pf taken True args)
           | (acts, Wants b) \<Rightarrow>
               (case args of
                  (v, PlainArg) # rest \<Rightarrow>
                    and_then (apply_options pf (acts @ [(b, v)]) opts) (read_options pf taken extras rest)
                | _ \<Rightarrow> Inl 2))
      | _ \<Rightarrow>
          (let run = (s, c) # takeWhile (plain_class \<circ> snd) args; rest = dropWhile (plain_class \<circ> snd) args in
           if taken then read_options pf True True rest opts
           else read_options pf True extras rest (opts\<lparr>o_targets := map fst (filter (\<lambda>x. snd x \<noteq> Separator) run)\<rparr>)))"
  by pat_completeness auto
termination
  by (relation "measure (\<lambda>(pf, taken, extras, args, opts). length args)")
    (auto simp: less_Suc_eq_le length_dropWhile_le)

definition read_command ::
    "(latin \<Rightarrow> pyfloat option) \<Rightarrow> bool \<Rightarrow> latin \<Rightarrow> latin list \<Rightarrow> int + options" where
  "read_command pf extras command args =
     (if command = ''probe'' then read_options pf False extras (classify_args PROBE_OPTIONS args) DEFAULT_OPTIONS
      else Inl 2)"

text \<open>\<open>parse_args\<close>: the command is the first argument that is no option.\<close>

fun parse_args :: "(latin \<Rightarrow> pyfloat option) \<Rightarrow> bool \<Rightarrow> latin list \<Rightarrow> int + options" where
  "parse_args pf extras [] = Inl 2"
| "parse_args pf extras (s # args) =
     (if s = ''--'' then (case args of [] \<Rightarrow> Inl 2 | command # rest \<Rightarrow> read_command pf extras command rest)
      else case classify_arg TOP_OPTIONS s of
          Known a name e \<Rightarrow> (case option_run TOP_OPTIONS a name e of (acts, RefusedValue) \<Rightarrow> Inl 2 | _ \<Rightarrow> Inl 0)
        | Unknown \<Rightarrow> parse_args pf True args
        | Ambiguous \<Rightarrow> Inl 2
        | _ \<Rightarrow> read_command pf extras s args)"

text \<open>The command line as a whole.\<close>

definition command_line ::
    "(latin \<Rightarrow> latin option) \<Rightarrow> console \<Rightarrow> scanner_fun \<Rightarrow> (latin \<Rightarrow> pyfloat option) \<Rightarrow> latin list \<Rightarrow> ending" where
  "command_line nonascii con scan pf argv =
     (case parse_args pf False argv of
        Inl status \<Rightarrow> \<lparr>end_lines = [], end_complaint = None, end_status = Inr status\<rparr>
      | Inr opts \<Rightarrow> main nonascii con scan opts)"

section \<open>Every set of options can be given\<close>

text \<open>Options written out, with \<open>ts\<close> for the timeout.\<close>

definition value_arg :: "latin \<Rightarrow> latin option \<Rightarrow> latin list" where
  "value_arg name v = (case v of None \<Rightarrow> [] | Some v \<Rightarrow> [name @ ''='' @ v])"

definition flag_arg :: "latin \<Rightarrow> bool \<Rightarrow> latin list" where
  "flag_arg name b = (if b then [name] else [])"

definition render_args :: "latin \<Rightarrow> options \<Rightarrow> latin list" where
  "render_args ts opts =
     ''probe'' # value_arg ''--file'' (o_file opts) @ flag_arg ''--json'' (o_json opts) @ flag_arg ''--verbose'' (o_verbose opts)
     @ value_arg ''--concurrency'' (Some (str_of_int (o_concurrency opts))) @ value_arg ''--timeout'' (Some ts)
     @ value_arg ''--sni'' (o_sni opts) @ flag_arg ''--require-pq'' (o_require_pq opts) @ [''--''] @ o_targets opts"

lemma split_eq_at: "CHR ''='' \<notin> set name \<Longrightarrow> split_eq (name @ CHR ''='' # v) = (name, Some v)"
  by (simp add: split_eq_def before_def takeWhile_until dropWhile_until)

lemma classify_value:
  assumes "map_of table name = Some a" "prefix ''-'' name" "CHR ''='' \<notin> set name" "\<forall>(n, b) \<in> set table. CHR ''='' \<notin> set n"
  shows "classify_arg table (name @ CHR ''='' # v) = Known a name (Some (True, v))"
proof -
  have "name @ CHR ''='' # v \<notin> fst ` set table" using assms(4) by force
  then have "map_of table (name @ CHR ''='' # v) = None" by (simp add: map_of_eq_None_iff)
  moreover have "prefix ''-'' (name @ CHR ''='' # v)" "name @ CHR ''='' # v \<noteq> ''-''"
    using assms(2) by (cases name; simp)+
  ultimately show ?thesis using assms(1,3) by (simp add: classify_arg_def split_eq_at)
qed

lemma no_equals: "\<forall>(n, b) \<in> set PROBE_OPTIONS. CHR ''='' \<notin> set n"
  by code_simp

lemma classify_args_append:
  "''--'' \<notin> set ss \<Longrightarrow> classify_args table (ss @ ts) = map (\<lambda>s. (s, classify_arg table s)) ss @ classify_args table ts"
  by (induction ss) auto

lemma read_one:
  assumes "option_run PROBE_OPTIONS a name e = ([(a, v)], AllDone)" "a \<noteq> OptHelp" "set_option pf a v opts = Some opts'"
  shows "read_options pf taken extras ((s, Known a name e) # args) opts = read_options pf taken extras args opts'"
  using assms by simp

lemma read_value_arg:
  assumes "map_of PROBE_OPTIONS name = Some a" "prefix ''-'' name" "CHR ''='' \<notin> set name" "takes_argument a"
    and "case v of None \<Rightarrow> opts' = opts | Some v \<Rightarrow> set_option pf a v opts = Some opts'"
  shows "read_options pf taken extras (map (\<lambda>s. (s, classify_arg PROBE_OPTIONS s)) (value_arg name v) @ args) opts
    = read_options pf taken extras args opts'"
proof (cases v)
  case None
  with assms(5) show ?thesis by (simp add: value_arg_def)
next
  case (Some t)
  have "a \<noteq> OptHelp" using assms(4) by (cases a) simp_all
  with Some assms show ?thesis by (simp add: value_arg_def classify_value no_equals)
qed

lemma read_flag_arg:
  assumes "map_of PROBE_OPTIONS name = Some a" "prefix ''-'' name" "\<not> takes_argument a" "a \<noteq> OptHelp"
    and "if b then set_option pf a [] opts = Some opts' else opts' = opts"
  shows "read_options pf taken extras (map (\<lambda>s. (s, classify_arg PROBE_OPTIONS s)) (flag_arg name b) @ args) opts
    = read_options pf taken extras args opts'"
  using assms by (cases b) (simp_all add: flag_arg_def classify_arg_def)

lemma plain_run:
  "takeWhile (plain_class \<circ> snd) (map (\<lambda>s. (s, PlainArg)) ts) = map (\<lambda>s. (s, PlainArg)) ts"
  "dropWhile (plain_class \<circ> snd) (map (\<lambda>s. (s, PlainArg)) ts) = []"
  "map fst (filter (\<lambda>x. snd x \<noteq> Separator) (map (\<lambda>s. (s, PlainArg)) ts)) = ts"
  by (induction ts) (simp_all add: plain_class_def)

lemma read_targets_last:
  "read_options pf False extras ((''--'', Separator) # map (\<lambda>s. (s, PlainArg)) ts) opts =
     (if extras then Inl 2 else Inr (opts\<lparr>o_targets := ts\<rparr>))"
  by (simp add: Let_def plain_run) (simp add: comp_def)

lemma render_read_back:
  assumes "pf ts = Some (o_timeout opts)" "py_int 10 is_str_space (str_of_int (o_concurrency opts)) = Some (o_concurrency opts)"
  shows "parse_args pf False (render_args ts opts) = Inr opts"
proof -
  let ?kinds = "map (\<lambda>s. (s, classify_arg PROBE_OPTIONS s))"
  let ?args = "value_arg ''--file'' (o_file opts) @ flag_arg ''--json'' (o_json opts) @ flag_arg ''--verbose'' (o_verbose opts)
     @ value_arg ''--concurrency'' (Some (str_of_int (o_concurrency opts))) @ value_arg ''--timeout'' (Some ts)
     @ value_arg ''--sni'' (o_sni opts) @ flag_arg ''--require-pq'' (o_require_pq opts)"
  have "''--'' \<notin> set ?args" by (simp add: value_arg_def flag_arg_def split: option.split)
  from classify_args_append [OF this, of PROBE_OPTIONS "[''--''] @ o_targets opts"]
  have c: "classify_args PROBE_OPTIONS (?args @ [''--''] @ o_targets opts) =
      ?kinds ?args @ (''--'', Separator) # map (\<lambda>s. (s, PlainArg)) (o_targets opts)"
    by simp
  define o1 where "o1 = DEFAULT_OPTIONS\<lparr>o_file := o_file opts\<rparr>"
  define o2 where "o2 = o1\<lparr>o_json := o_json opts\<rparr>"
  define o3 where "o3 = o2\<lparr>o_verbose := o_verbose opts\<rparr>"
  define o4 where "o4 = o3\<lparr>o_concurrency := o_concurrency opts\<rparr>"
  define o5 where "o5 = o4\<lparr>o_timeout := o_timeout opts\<rparr>"
  define o6 where "o6 = o5\<lparr>o_sni := o_sni opts\<rparr>"
  define o7 where "o7 = o6\<lparr>o_require_pq := o_require_pq opts\<rparr>"
  note os = o1_def o2_def o3_def o4_def o5_def o6_def o7_def DEFAULT_OPTIONS_def
  have known: "map_of PROBE_OPTIONS ''--file'' = Some OptFile" "map_of PROBE_OPTIONS ''--json'' = Some OptJson"
    "map_of PROBE_OPTIONS ''--verbose'' = Some OptVerbose" "map_of PROBE_OPTIONS ''--concurrency'' = Some OptConcurrency"
    "map_of PROBE_OPTIONS ''--timeout'' = Some OptTimeout" "map_of PROBE_OPTIONS ''--sni'' = Some OptSni"
    "map_of PROBE_OPTIONS ''--require-pq'' = Some OptRequirePq"
    by code_simp+
  have s1: "read_options pf False False (?kinds (value_arg ''--file'' (o_file opts)) @ a) DEFAULT_OPTIONS = read_options pf False False a o1" for a
    by (rule read_value_arg [OF known(1)]) (simp_all add: os split: option.split)
  have s2: "read_options pf False False (?kinds (flag_arg ''--json'' (o_json opts)) @ a) o1 = read_options pf False False a o2" for a
    by (rule read_flag_arg [OF known(2)]) (simp_all add: os)
  have s3: "read_options pf False False (?kinds (flag_arg ''--verbose'' (o_verbose opts)) @ a) o2 = read_options pf False False a o3" for a
    by (rule read_flag_arg [OF known(3)]) (simp_all add: os)
  have s4: "read_options pf False False (?kinds (value_arg ''--concurrency'' (Some (str_of_int (o_concurrency opts)))) @ a) o3 = read_options pf False False a o4" for a
    by (rule read_value_arg [OF known(4)]) (simp_all add: os assms(2) split: option.split)
  have s5: "read_options pf False False (?kinds (value_arg ''--timeout'' (Some ts)) @ a) o4 = read_options pf False False a o5" for a
    by (rule read_value_arg [OF known(5)]) (simp_all add: os assms(1) split: option.split)
  have s6: "read_options pf False False (?kinds (value_arg ''--sni'' (o_sni opts)) @ a) o5 = read_options pf False False a o6" for a
    by (rule read_value_arg [OF known(6)]) (simp_all add: os split: option.split)
  have s7: "read_options pf False False (?kinds (flag_arg ''--require-pq'' (o_require_pq opts)) @ a) o6 = read_options pf False False a o7" for a
    by (rule read_flag_arg [OF known(7)]) (simp_all add: os)
  have "read_options pf False False (?kinds ?args @ rest) DEFAULT_OPTIONS = read_options pf False False rest o7" for rest
    by (simp only: map_append append_assoc s1 s2 s3 s4 s5 s6 s7)
  moreover have "o7\<lparr>o_targets := o_targets opts\<rparr> = opts" by (simp add: os)
  ultimately have "read_options pf False False (classify_args PROBE_OPTIONS (?args @ [''--''] @ o_targets opts)) DEFAULT_OPTIONS
      = Inr opts"
    unfolding c by (simp only: read_targets_last if_False)
  moreover have "classify_arg TOP_OPTIONS ''probe'' = PlainArg" by code_simp
  ultimately show ?thesis by (simp add: render_args_def read_command_def del: read_options.simps)
qed

lemma py_int_str_of_int:
  assumes "nat \<bar>n\<bar> < 10 ^ int_max_str_digits"
  shows "py_int 10 is_str_space (str_of_int n) = Some n"
proof (cases "n < 0")
  case True
  let ?d = "str_of_nat (nat (- n))"
  have small: "nat (- n) < 10 ^ int_max_str_digits" using assms True by simp
  have digits: "stripped is_str_space ?d" "CHR ''-'' \<notin> set ?d" "CHR ''+'' \<notin> set ?d"
    using stripped_render_nat(1) [of 10] hd_render_nat_not_sign [of 10] by simp_all
  then have "int_magnitude 10 ?d = Some (- n)"
    using py_int_decimal [OF small] py_int_unsigned [of is_str_space ?d 10] True by simp
  moreover have "stripped is_str_space (CHR ''-'' # ?d)"
    using digits(1) by (simp add: stripped_def) code_simp
  ultimately show ?thesis using True by (simp add: str_of_int_def py_int_def strip_by_stripped)
next
  case False
  with assms py_int_decimal [of "nat n"] show ?thesis by (simp add: str_of_int_def)
qed

text \<open>
  C31: any options can be given on the command line: written out as \<open>--name=value\<close>, with the
  targets after \<open>--\<close>, they are read back as they were, whatever characters the targets and the
  values have, and the program does what \<open>main\<close> does with them.
\<close>

theorem command_line_reads_back:
  assumes "pf ts = Some (o_timeout opts)" "nat \<bar>o_concurrency opts\<bar> < 10 ^ int_max_str_digits"
  shows "parse_args pf False (render_args ts opts) = Inr opts
    \<and> command_line nonascii con scan pf (render_args ts opts) = main nonascii con scan opts"
  using render_read_back [of pf ts opts, OF assms(1) py_int_str_of_int [OF assms(2)]] by (simp add: command_line_def)

text \<open>
  Targets in two runs, with an option between them, are a usage error, although the options take
  their places anywhere else.
\<close>

lemma split_targets_refused:
  assumes "\<not> prefix ''-'' a" "\<not> prefix ''-'' b" "map_of PROBE_OPTIONS name = Some act" "prefix ''-'' name" "name \<noteq> ''--''"
    "\<not> takes_argument act" "act \<noteq> OptHelp"
  shows "parse_args pf False [''probe'', a, name, b] = Inl 2"
proof -
  have "classify_args PROBE_OPTIONS [a, name, b] = [(a, PlainArg), (name, Known act name None), (b, PlainArg)]"
    using assms by (auto simp: classify_arg_def)
  moreover have "classify_arg TOP_OPTIONS ''probe'' = PlainArg" by code_simp
  moreover obtain opts where "set_option pf act [] (DEFAULT_OPTIONS\<lparr>o_targets := [a]\<rparr>) = Some opts"
    using assms(6,7) by (cases act) auto
  ultimately show ?thesis
    using assms(6,7) by (simp add: read_command_def plain_class_def Let_def)
qed

text \<open>An example with every form of option: joined flags, an abbreviation, values after \<open>=\<close>, next and attached, \<open>--\<close>.\<close>

lemma args_example:
  "parse_args (\<lambda>v. if v = ''2.5'' then Some (Fin (5 / 2)) else None) False
      [''probe'', ''-vc3'', ''--js'', ''-t'', ''2.5'', ''--sni=x'', ''a'', ''-'', ''--'', ''-b''] =
    Inr (DEFAULT_OPTIONS\<lparr>o_targets := [''a'', ''-'', ''-b''], o_json := True, o_verbose := True, o_concurrency := 3,
      o_timeout := Fin (5 / 2), o_sni := Some ''x''\<rparr>)"
  by code_simp

lemma command_line_reads_back_witness:
  "parse_args (\<lambda>v. if v = ''inf'' then Some Inf else None) False
      [''probe'', ''--file=--'', ''--verbose'', ''--concurrency=-2'', ''--timeout=inf'', ''--'', ''--json'', [], ''--''] =
    Inr (DEFAULT_OPTIONS\<lparr>o_targets := [''--json'', [], ''--''], o_file := Some ''--'', o_verbose := True, o_concurrency := - 2,
      o_timeout := Inf\<rparr>)"
proof -
  let ?opts = "DEFAULT_OPTIONS\<lparr>o_targets := [''--json'', [], ''--''], o_file := Some ''--'', o_verbose := True,
    o_concurrency := - 2, o_timeout := Inf\<rparr>"
  have "nat \<bar>o_concurrency ?opts\<bar> < 10 ^ int_max_str_digits" by (rule small_decimal) simp
  from command_line_reads_back [OF _ this, of "\<lambda>v. if v = ''inf'' then Some Inf else None" "''inf''"]
  have "parse_args (\<lambda>v. if v = ''inf'' then Some Inf else None) False (render_args ''inf'' ?opts) = Inr ?opts" by simp
  moreover have "render_args ''inf'' ?opts =
      [''probe'', ''--file=--'', ''--verbose'', ''--concurrency=-2'', ''--timeout=inf'', ''--'', ''--json'', [], ''--'']"
    by code_simp
  ultimately show ?thesis by simp
qed

end
