(* ===== verification/Response_Text.thy ===== *)
theory Response_Text
  imports Response_Parser
begin

text \<open>
  \<open>Response.text\<close> of \<open>fizzpy/_http.py\<close>: which charset the body is decoded with. The codecs of
  Python are the parameter \<open>decode\<close>, which fails with \<open>LookupError\<close> for a name it does not know.
\<close>

section \<open>The charset of a Content-Type\<close>

definition charset_char :: "char \<Rightarrow> bool" where
  "charset_char c \<longleftrightarrow> \<not> is_str_space c \<and> c \<noteq> CHR '';''"

text \<open>
  \<open>_CHARSET_RE.search\<close>, case insensitive: the first place where \<open>charset=\<close> is followed by at least
  one character that is neither whitespace nor a semicolon; the group is all of these.
\<close>

fun search_charset :: "latin \<Rightarrow> latin option" where
  "search_charset [] = None"
| "search_charset (c # s) =
     (let name = takeWhile charset_char (drop (length ''charset='') (c # s)) in
      if prefix ''charset='' (lower (c # s)) \<and> name \<noteq> [] then Some name else search_charset s)"

definition strip_quotes :: "latin \<Rightarrow> latin" where
  "strip_quotes = strip_by (\<lambda>c. c = CHR 0x22)"

definition response_charset :: "response \<Rightarrow> latin" where
  "response_charset r =
     (case get_header (resp_headers r) ''Content-Type'' of
        None \<Rightarrow> ''utf-8''
      | Some ct \<Rightarrow>
          if ct = [] then ''utf-8''
          else case search_charset ct of None \<Rightarrow> ''utf-8'' | Some name \<Rightarrow> strip_quotes (str_strip name))"

section \<open>Decoding\<close>

datatype decode_error = LookupError | OtherDecodeError

definition response_text :: "(latin \<Rightarrow> bytes \<Rightarrow> decode_error + 't) \<Rightarrow> response \<Rightarrow> decode_error + 't" where
  "response_text decode r =
     (case decode (response_charset r) (content r) of
        Inl LookupError \<Rightarrow> decode ''utf-8'' (content r)
      | other \<Rightarrow> other)"

section \<open>Lemmas\<close>

lemma search_charset_skip:
  assumes "\<forall>c \<in> set pre. lower_char c \<noteq> CHR ''c''"
  shows "search_charset (pre @ s) = search_charset s"
  using assms
proof (induction pre)
  case (Cons c pre)
  then have "\<not> prefix ''charset='' (lower (c # pre @ s))" by (auto simp: lower_def)
  with Cons show ?case unfolding append_Cons search_charset.simps Let_def by (simp only:) simp
qed simp

text \<open>The charset of the usual form is found, in any case and with or without quotes.\<close>

lemma search_charset_finds:
  assumes "lower kw = ''charset=''" "name \<noteq> []" "list_all charset_char name" "rest = [] \<or> \<not> charset_char (hd rest)"
  shows "search_charset (kw @ name @ rest) = Some name"
proof -
  have len: "length kw = length ''charset=''" using assms(1) by (metis length_lower)
  then obtain c kw' where kw: "kw = c # kw'" by (cases kw) auto
  have "takeWhile charset_char (name @ rest) = name"
    using assms(3,4) by (cases rest) (auto simp: takeWhile_append list_all_iff takeWhile_eq_all_conv)
  moreover have "drop (length ''charset='') (kw @ name @ rest) = name @ rest" using len by simp
  moreover have "prefix ''charset='' (lower (kw @ name @ rest))"
    using assms(1) by (simp add: lower_def)
  ultimately show ?thesis using assms(2) unfolding kw append_Cons by (simp add: Let_def)
qed

text \<open>A body decodes whenever UTF-8 does, unless a known codec fails in another way.\<close>

lemma response_text_falls_back:
  assumes "decode ''utf-8'' (content r) = Inr t"
  shows "response_text decode r \<noteq> Inl LookupError"
    and "decode (response_charset r) (content r) = Inl LookupError \<Longrightarrow> response_text decode r = Inr t"
  using assms by (auto simp: response_text_def split: sum.splits decode_error.splits)

lemma response_text_raises:
  "response_text decode r = Inl OtherDecodeError \<longleftrightarrow>
     decode (response_charset r) (content r) = Inl OtherDecodeError
     \<or> decode (response_charset r) (content r) = Inl LookupError \<and> decode ''utf-8'' (content r) = Inl OtherDecodeError"
  by (auto simp: response_text_def split: sum.splits decode_error.splits)

end
