(* ===== verification/Response_Json.thy ===== *)
theory Response_Json
  imports Parser_Framing Response_Text Json_Reads_Back
begin

text \<open>
  \<open>Response.json\<close> of \<open>fizzpy/_http.py\<close>: \<open>json.loads\<close> of the body's bytes, which are decoded as the
  UTF that their zero bytes suggest. The codecs are the parameter \<open>decode\<close> (with \<open>surrogatepass\<close>
  here), \<open>pf\<close> is the \<open>float\<close> of a number's text.
\<close>

datatype body_error = BodyUndecodable decode_error | BodyNotJson json_error

definition response_json ::
    "(latin \<Rightarrow> bytes \<Rightarrow> decode_error + ustr) \<Rightarrow> (latin \<Rightarrow> pyfloat) \<Rightarrow> response \<Rightarrow> body_error + json" where
  "response_json decode pf r =
     (case decode (detect_encoding (content r)) (content r) of
        Inl e \<Rightarrow> Inl (BodyUndecodable e)
      | Inr s \<Rightarrow> (case json_loads pf s of Inl e \<Rightarrow> Inl (BodyNotJson e) | Inr j \<Rightarrow> Inr j))"

text \<open>What a codec of Python does with ASCII.\<close>

definition decodes_ascii :: "(latin \<Rightarrow> bytes \<Rightarrow> decode_error + ustr) \<Rightarrow> bool" where
  "decodes_ascii decode \<longleftrightarrow> (\<forall>b. list_all printable b \<longrightarrow> decode ''utf-8'' b = Inr (lit b))"

lemma printable_utf8:
  assumes "list_all printable b"
  shows "detect_encoding b = ''utf-8''"
proof -
  have c: "c \<noteq> CHR 0x00" "c \<noteq> CHR 0xFE" "c \<noteq> CHR 0xFF" "c \<noteq> CHR 0xEF" if "c \<in> set b" for c
    using assms that by (auto simp: list_all_iff printable_def)
  have p: "prefix (c # cs) b \<longleftrightarrow> False" if "c \<in> {CHR 0x00, CHR 0xFE, CHR 0xFF, CHR 0xEF}" for c cs
    using c that by (cases b) auto
  have n: "b ! i \<noteq> CHR 0x00" if "i < length b" for i using c that by auto
  have "length b = 2 \<or> 4 \<le> length b \<Longrightarrow> b ! 0 \<noteq> CHR 0x00 \<and> b ! 1 \<noteq> CHR 0x00"
    by (intro conjI n) auto
  then have z: "(4 \<le> length b \<and> b ! 0 = CHR 0x00) \<longleftrightarrow> False" "(4 \<le> length b \<and> b ! 1 = CHR 0x00) \<longleftrightarrow> False"
    "(length b = 2 \<and> b ! 0 = CHR 0x00) \<longleftrightarrow> False" "(length b = 2 \<and> b ! 1 = CHR 0x00) \<longleftrightarrow> False"
    by blast+
  show ?thesis by (simp only: detect_encoding_def Let_def p z insert_iff simp_thms if_False)
qed

lemma response_json_dumps:
  assumes "json_ok repr pf j" "decodes_ascii decode" "content r = json_dumps repr j"
  shows "response_json decode pf r = Inr j"
  using std_json.body_read_back [OF assms(1), of "decode ''utf-8''"] assms(2,3) printable_utf8 [OF std_json.one_line [OF assms(1)]]
  by (simp add: response_json_def decodes_ascii_def)

lemma response_json_not_deep: "response_json decode pf r \<noteq> Inl (BodyNotJson TooDeep)"
  using json_loads_not_deep by (auto simp: response_json_def split: sum.splits)

text \<open>
  C14: a JSON value that a server writes with \<open>json.dumps\<close> and sends with a Content-Length arrives:
  whatever the chunks the bytes come in and whatever the coding of the body, the parser completes
  one response and \<open>json\<close> of it is the value.
\<close>

theorem json_response_arrives:
  assumes "head_ok w" "\<not> says_chunked w" "\<not> bodiless w"
    and "values_named (h_lines w) ''Content-Length'' = [str_of_nat (length body)]"
    and "length body < 10 ^ int_max_str_digits"
    and "decompress cd (headers_init (h_lines w)) body = Inr (json_dumps repr j)"
    and "concat chunks = render_head w @ body @ extra"
    and "json_ok repr pf j" "decodes_ascii decode"
  shows "\<exists>q r. feed_list (feed cd) new_parser chunks = Inr q \<and> p_response q = Some r \<and> p_buf q = extra
    \<and> response_json decode pf r = Inr j"
proof -
  from content_length_fed [OF assms(1-7)] obtain q where q: "feed_list (feed cd) new_parser chunks = Inr q"
    "delivers q w (json_dumps repr j) extra" by blast
  from q(2) have "p_response q = Some (parsed_response w (json_dumps repr j))" "p_buf q = extra"
    by (simp_all add: delivers_def)
  with q(1) response_json_dumps [OF assms(8,9), of "parsed_response w (json_dumps repr j)"] show ?thesis
    by (simp add: parsed_response_def)
qed

text \<open>
  A value with a quote, a line break, a character beyond the Basic Multilingual Plane, a negative
  number and a float, in three pieces.
\<close>

definition demo_json :: json where
  "demo_json = JObject [([Beyond 0x1F600, Latin (CHR 0x22)], JList [JNull, JBool True, JInt (- 7), JFloat (Fin 2)]),
     (lit ''k'', JStr (lit [LF, CHR 0xE9]))]"

definition demo_decode :: "latin \<Rightarrow> bytes \<Rightarrow> decode_error + ustr" where
  "demo_decode name b = (if name = ''utf-8'' then Inr (lit b) else Inl LookupError)"

definition demo_json_text :: bytes where
  "demo_json_text = ''{'' @ [dquote, bslash] @ ''ud83d'' @ [bslash] @ ''ude00'' @ [bslash, dquote, dquote] @ '': [null, true, -7, 2.0], ''
     @ [dquote] @ ''k'' @ [dquote] @ '': '' @ [dquote, bslash] @ ''n'' @ [bslash] @ ''u00e9'' @ [dquote] @ ''}''"

lemma demo_dumps: "json_dumps (\<lambda>_. ''2.0'') demo_json = demo_json_text"
proof -
  have "digit_char 0 = CHR ''0''" "digit_char 3 = CHR ''3''" "digit_char 8 = CHR ''8''" "digit_char 9 = CHR ''9''"
    "digit_char 13 = CHR ''d''" "digit_char 14 = CHR ''e''"
    by code_simp+
  then have "u_escape 0xD83D = bslash # ''ud83d''" "u_escape 0xDE00 = bslash # ''ude00''" "u_escape 0xE9 = bslash # ''u00e9''"
    by (simp_all add: u_escape_def hex4_def)
  moreover have "str_of_int (- 7) = ''-7''" "char_of (107 :: nat) = CHR ''k''" by code_simp+
  ultimately show ?thesis
    by (simp add: demo_json_def demo_json_text_def quote_text_def escape_char_def Let_def ESCAPES_def float_token_def)
qed

lemma demo_json_ok: "float_ok repr pf (Fin 2) \<Longrightarrow> int_short (- 7) \<Longrightarrow> json_ok repr pf demo_json"
  by (simp add: demo_json_def string_ok_def is_high_def is_low_def)

lemma json_response_arrives_witness:
  "\<exists>q r. feed_list (feed demo_codec) new_parser
      [''HTTP/1.1 200 OK'' @ crlf @ ''Content-Length'', '': 58'' @ crlf @ crlf @ ''{'',
       tl demo_json_text @ ''HTTP''] = Inr q
    \<and> p_response q = Some r \<and> p_buf q = ''HTTP'' \<and> response_json demo_decode (\<lambda>_. Fin 2) r = Inr demo_json"
proof -
  let ?w = "demo_head 200 [(''Content-Length'', ''58'')]" and ?repr = "\<lambda>_ :: pyfloat. ''2.0''"
  let ?body = demo_json_text
  have h: "head_ok ?w" "\<not> says_chunked ?w" "\<not> bodiless ?w"
    "values_named (h_lines ?w) ''Content-Length'' = [str_of_nat (length ?body)]"
    "decompress demo_codec (headers_init (h_lines ?w)) ?body = Inr ?body"
    "concat [''HTTP/1.1 200 OK'' @ crlf @ ''Content-Length'', '': 58'' @ crlf @ crlf @ ''{'', tl ?body @ ''HTTP''] =
      render_head ?w @ ?body @ ''HTTP''"
    by code_simp+
  have j: "json_ok ?repr (\<lambda>_. Fin 2) demo_json" by (rule demo_json_ok) code_simp+
  have "length ?body < 10 ^ 2" by code_simp
  also have "(10 :: nat) ^ 2 \<le> 10 ^ int_max_str_digits"
    by (rule power_increasing) (simp_all add: int_max_str_digits_def)
  finally have short: "length ?body < 10 ^ int_max_str_digits" .
  have ascii: "decodes_ascii demo_decode" by (simp add: decodes_ascii_def demo_decode_def)
  have d: "decompress demo_codec (headers_init (h_lines ?w)) ?body = Inr (json_dumps ?repr demo_json)"
    using h(5) by (simp only: demo_dumps)
  from json_response_arrives [OF h(1-4) short d h(6) j ascii] show ?thesis .
qed

end
