(* ===== verification/Build_Host.thy ===== *)
theory Build_Host
  imports Py_Text
begin

text \<open>
  The machine that the scripts under \<open>scripts/\<close> run on: a tree of files, other programs, the lines
  that a script prints, and the ways in which a script ends. \<open>docker\<close>, \<open>git\<close>, \<open>cmake\<close> and the like
  are the parameter \<open>programs\<close>: given the arguments and the environment, what a program does to
  the files and to a world of its own, and how it ends. File operations are those of \<open>pathlib\<close> and
  \<open>shutil\<close>; they fail for what the tree shows, not for missing rights or space.
\<close>

section \<open>Files and programs\<close>

datatype node = Dir | File latin

type_synonym files = "(latin, node) dict"
type_synonym environ = "(latin, latin) dict"

datatype proc = NotStarted latin | Exited int latin

type_synonym 'w programs = "latin list \<Rightarrow> environ \<Rightarrow> files \<times> 'w \<Rightarrow> proc \<times> files \<times> 'w"

text \<open>\<open>platform.system()\<close> and \<open>platform.machine()\<close>, which also fix separators and line ends.\<close>

record platform =
  pl_system :: latin
  pl_machine :: latin

definition path_sep :: "platform \<Rightarrow> char" where
  "path_sep pl = (if pl_system pl = ''Windows'' then CHR 0x5C else CHR ''/'')"

definition line_sep :: "platform \<Rightarrow> latin" where
  "line_sep pl = (if pl_system pl = ''Windows'' then crlf else [LF])"

definition list_sep :: "platform \<Rightarrow> latin" where
  "list_sep pl = (if pl_system pl = ''Windows'' then '';'' else '':'')"

text \<open>\<open>p / a / b\<close>, for a normal path \<open>p\<close> and plain names.\<close>

definition path_join :: "platform \<Rightarrow> latin \<Rightarrow> latin list \<Rightarrow> latin" where
  "path_join pl p names = join_with [path_sep pl] (p # names)"

text \<open>Text mode: every line end is read as LF, and LF is written as the platform's line end.\<close>

definition universal_newlines :: "latin \<Rightarrow> latin" where
  "universal_newlines s = py_replace [CR] [LF] (py_replace crlf [LF] s)"

section \<open>A script\<close>

datatype stop =
    ExitCode int
  | ExitText latin
  | CommandFailed "latin list" int
  | OsRaised latin
  | KeyRaised latin

record 'w host =
  hs_files :: files
  hs_world :: 'w
  hs_lines :: "latin list"
  hs_ran :: "latin list list"

type_synonym ('w, 'a) script = "'w host \<Rightarrow> (stop + 'a) \<times> 'w host"

definition give :: "'a \<Rightarrow> ('w, 'a) script" where
  "give a h = (Inr a, h)"

definition stop_with :: "stop \<Rightarrow> ('w, 'a) script" where
  "stop_with e h = (Inl e, h)"

definition then_do :: "('w, 'a) script \<Rightarrow> ('a \<Rightarrow> ('w, 'b) script) \<Rightarrow> ('w, 'b) script" where
  "then_do m f h = (case m h of (Inl e, h) \<Rightarrow> (Inl e, h) | (Inr a, h) \<Rightarrow> f a h)"

definition say :: "latin \<Rightarrow> ('w, unit) script" where
  "say line h = (Inr (), h\<lparr>hs_lines := hs_lines h @ [line]\<rparr>)"

fun each :: "('a \<Rightarrow> ('w, unit) script) \<Rightarrow> 'a list \<Rightarrow> ('w, unit) script" where
  "each f [] = give ()"
| "each f (x # xs) = then_do (f x) (\<lambda>_. each f xs)"

text \<open>
  \<open>subprocess.run(cmd, check=check, env=env, text=True)\<close>: the exit status and, when captured, the
  output. The host keeps the list of the commands tried.
\<close>

definition run_program ::
    "'w programs \<Rightarrow> environ \<Rightarrow> bool \<Rightarrow> latin list \<Rightarrow> ('w, int \<times> latin) script" where
  "run_program progs env check cmd h =
     (case progs cmd env (hs_files h, hs_world h) of
        (p, fs, w) \<Rightarrow>
          (let h = h\<lparr>hs_files := fs, hs_world := w, hs_ran := hs_ran h @ [cmd]\<rparr> in
           case p of
             NotStarted e \<Rightarrow> (Inl (OsRaised e), h)
           | Exited status out \<Rightarrow>
               if check \<and> status \<noteq> 0 then (Inl (CommandFailed cmd status), h)
               else (Inr (status, universal_newlines out), h)))"

text \<open>What the shell sees of a script: \<open>sys.exit\<close> of a text and exceptions give status 1.\<close>

fun exit_code :: "stop + unit \<Rightarrow> int" where
  "exit_code (Inr _) = 0"
| "exit_code (Inl (ExitCode n)) = n"
| "exit_code (Inl _) = 1"

section \<open>File operations\<close>

definition path_exists :: "latin \<Rightarrow> ('w, bool) script" where
  "path_exists p h = (Inr (dict_get (hs_files h) p \<noteq> None), h)"

definition read_text :: "latin \<Rightarrow> ('w, latin) script" where
  "read_text p h =
     (case dict_get (hs_files h) p of
        Some (File t) \<Rightarrow> (Inr (universal_newlines t), h)
      | _ \<Rightarrow> (Inl (OsRaised p), h))"

text \<open>The directories above a path, the topmost first.\<close>

definition ancestors :: "platform \<Rightarrow> latin \<Rightarrow> latin list" where
  "ancestors pl p = map (\<lambda>i. take i p) (filter (\<lambda>i. p ! i = path_sep pl) [1..<length p])"

definition is_dir :: "files \<Rightarrow> latin \<Rightarrow> bool" where
  "is_dir fs p \<longleftrightarrow> dict_get fs p = Some Dir"

definition write_text :: "platform \<Rightarrow> latin \<Rightarrow> latin \<Rightarrow> ('w, unit) script" where
  "write_text pl p t h =
     (if is_dir (hs_files h) p \<or> ancestors pl p \<noteq> [] \<and> \<not> is_dir (hs_files h) (last (ancestors pl p))
      then (Inl (OsRaised p), h)
      else (Inr (), h\<lparr>hs_files := dict_set p (File (py_replace [LF] (line_sep pl) t)) (hs_files h)\<rparr>))"

definition below :: "platform \<Rightarrow> latin \<Rightarrow> latin \<Rightarrow> bool" where
  "below pl p q \<longleftrightarrow> q = p \<or> prefix (p @ [path_sep pl]) q"

definition rmtree :: "platform \<Rightarrow> latin \<Rightarrow> ('w, unit) script" where
  "rmtree pl p h =
     (if is_dir (hs_files h) p then (Inr (), h\<lparr>hs_files := filter (\<lambda>(q, n). \<not> below pl p q) (hs_files h)\<rparr>)
      else (Inl (OsRaised p), h))"

text \<open>\<open>mkdir(parents=True, exist_ok=True)\<close>\<close>

fun make_dirs :: "latin list \<Rightarrow> files \<Rightarrow> files option" where
  "make_dirs [] fs = Some fs"
| "make_dirs (p # ps) fs =
     (case dict_get fs p of
        None \<Rightarrow> make_dirs ps (dict_set p Dir fs)
      | Some Dir \<Rightarrow> make_dirs ps fs
      | Some (File t) \<Rightarrow> None)"

definition mkdir :: "platform \<Rightarrow> latin \<Rightarrow> ('w, unit) script" where
  "mkdir pl p h =
     (case make_dirs (ancestors pl p @ [p]) (hs_files h) of
        None \<Rightarrow> (Inl (OsRaised p), h)
      | Some fs \<Rightarrow> (Inr (), h\<lparr>hs_files := fs\<rparr>))"

section \<open>Lemmas\<close>

text \<open>Unfolding a script one call at a time.\<close>

lemma then_do_give [simp]: "then_do (give a) f = f a"
  by (rule ext) (simp add: then_do_def give_def)

lemma then_do_stop [simp]: "then_do (stop_with e) f = stop_with e"
  by (rule ext) (simp add: then_do_def stop_with_def)

lemma then_do_Inr: "m h = (Inr a, h') \<Longrightarrow> then_do m f h = f a h'"
  by (simp add: then_do_def)

lemma then_do_Inl: "m h = (Inl e, h') \<Longrightarrow> then_do m f h = (Inl e, h')"
  by (simp add: then_do_def)

lemma then_do_Inr_iff: "then_do m f h = (Inr b, h') \<longleftrightarrow> (\<exists>a h1. m h = (Inr a, h1) \<and> f a h1 = (Inr b, h'))"
  by (auto simp: then_do_def split: prod.splits sum.splits)

lemma then_do_assoc: "then_do (then_do m f) g = then_do m (\<lambda>a. then_do (f a) g)"
  by (rule ext) (auto simp: then_do_def split: prod.splits sum.splits)

lemma then_do_say [simp]: "then_do (say l) f h = f () (h\<lparr>hs_lines := hs_lines h @ [l]\<rparr>)"
  by (simp add: then_do_def say_def)

lemma then_do_exists [simp]: "then_do (path_exists p) f h = f (dict_get (hs_files h) p \<noteq> None) h"
  by (simp add: then_do_def path_exists_def)

text \<open>Text without CR is read back as it was written, and without line ends even as it is.\<close>

lemma py_replace_char_id: "c \<notin> set s \<Longrightarrow> py_replace [c] new s = s"
  by (rule py_replace_none) (simp add: contains_def find_sub_None_hd)

lemma universal_newlines_lf: "CR \<notin> set s \<Longrightarrow> universal_newlines s = s"
proof -
  assume "CR \<notin> set s"
  moreover from this have "\<not> contains crlf s" by (simp add: contains_def find_sub_None_hd)
  ultimately show ?thesis by (simp add: universal_newlines_def py_replace_char_id py_replace_none)
qed

lemma crlf_to_lf: "CR \<notin> set s \<Longrightarrow> py_replace crlf [LF] (py_replace [LF] crlf s) = s"
  by (induction s) (auto simp: prefix_Cons)

lemma written_text_read_back:
  assumes "CR \<notin> set s"
  shows "universal_newlines (py_replace [LF] (line_sep pl) s) = s"
proof (cases "pl_system pl = ''Windows''")
  case True
  with assms show ?thesis
    by (simp add: universal_newlines_def line_sep_def crlf_to_lf py_replace_char_id)
next
  case False
  have "py_replace [LF] [LF] s = s" by (induction s) auto
  with False assms show ?thesis by (simp add: line_sep_def universal_newlines_lf)
qed

lemma run_program_checked:
  "run_program progs env True cmd h = (Inr (status, out), h') \<Longrightarrow>
    \<exists>raw fs w. progs cmd env (hs_files h, hs_world h) = (Exited 0 raw, fs, w) \<and> out = universal_newlines raw"
  by (cases "progs cmd env (hs_files h, hs_world h)"; cases "fst (progs cmd env (hs_files h, hs_world h))")
    (auto simp: run_program_def Let_def split: if_splits)

lemma universal_newlines_no_cr: "CR \<notin> set (universal_newlines s)"
  by (auto simp: universal_newlines_def py_replace_char split: if_splits)

lemma find_sub_middle: "find_sub pat (a @ pat @ b) \<noteq> None"
proof (induction a)
  case Nil
  have "find_sub pat (pat @ b) = Some 0" by (rule find_sub_prefix) simp
  then show ?case by simp
qed auto

lemma contains_iff: "contains pat xs \<longleftrightarrow> (\<exists>a b. xs = a @ pat @ b)"
  using find_sub_Some_split [of pat xs] find_sub_middle [of pat] by (fastforce simp: contains_def)

lemma out_of_dir: "path_join pl d [a] = path_join pl d [b] \<longleftrightarrow> a = b"
  by (simp add: path_join_def)

lemma make_dirs_keeps_dirs: "make_dirs ps fs = Some fs' \<Longrightarrow> is_dir fs p \<Longrightarrow> is_dir fs' p"
proof (induction ps arbitrary: fs)
  case (Cons q ps)
  have "is_dir (dict_set q Dir fs) p" using Cons.prems(2) by (simp add: is_dir_def dict_get_set)
  with Cons show ?case by (auto split: option.splits node.splits)
qed simp

lemma make_dirs_makes: "make_dirs ps fs = Some fs' \<Longrightarrow> \<forall>p \<in> set ps. is_dir fs' p"
proof (induction ps arbitrary: fs)
  case (Cons q ps)
  have "is_dir (dict_set q Dir fs) q" by (simp add: is_dir_def dict_get_set)
  with Cons make_dirs_keeps_dirs show ?case
    by (fastforce simp: is_dir_def split: option.splits node.splits)
qed simp

lemma make_dirs_files: "make_dirs ps fs = Some fs' \<Longrightarrow> dict_get fs p = Some n \<Longrightarrow> dict_get fs' p = Some n"
proof (induction ps arbitrary: fs)
  case (Cons q ps)
  have "dict_get fs q = None \<Longrightarrow> dict_get (dict_set q Dir fs) p = Some n"
    using Cons.prems(2) by (auto simp: dict_get_set)
  with Cons show ?case by (auto split: option.splits node.splits)
qed simp

section \<open>Commands that a script starts\<close>

text \<open>
  A script issues a plan of commands: it starts them in order, all of them when it returns, and
  the first of them when it stops.
\<close>

definition issues :: "('w, 'a) script \<Rightarrow> latin list list \<Rightarrow> bool" where
  "issues m plan \<longleftrightarrow> (\<forall>h. \<exists>cmds. hs_ran (snd (m h)) = hs_ran h @ cmds \<and> prefix cmds plan
     \<and> (isl (fst (m h)) \<or> cmds = plan))"

named_theorems issuing

lemma issues_give [issuing]: "issues (give a) []"
  by (simp add: issues_def give_def)

lemma issues_stop [issuing]: "issues (stop_with e) plan"
  by (simp add: issues_def stop_with_def)

lemma issues_say [issuing]: "issues (say l) []"
  by (simp add: issues_def say_def)

lemma issues_exists [issuing]: "issues (path_exists p) []"
  by (simp add: issues_def path_exists_def)

lemma issues_read [issuing]: "issues (read_text p) []"
  by (simp add: issues_def read_text_def split: option.splits node.splits)

lemma issues_write [issuing]: "issues (write_text pl p t) []"
  by (simp add: issues_def write_text_def)

lemma issues_rmtree [issuing]: "issues (rmtree pl p) []"
  by (simp add: issues_def rmtree_def)

lemma issues_mkdir [issuing]: "issues (mkdir pl p) []"
  by (simp add: issues_def mkdir_def split: option.splits)

lemma issues_run_program [issuing]: "issues (run_program progs env check cmd) [cmd]"
  by (auto simp: issues_def run_program_def Let_def split: prod.splits proc.splits)

lemma issues_then [issuing]:
  assumes "issues m xs" "\<And>a. issues (f a) ys"
  shows "issues (then_do m f) (xs @ ys)"
  unfolding issues_def
proof
  fix h
  obtain r h1 where m: "m h = (r, h1)" by fastforce
  from assms(1) m obtain cmds where c: "hs_ran h1 = hs_ran h @ cmds" "prefix cmds xs" "isl r \<or> cmds = xs"
    unfolding issues_def by (metis fst_conv snd_conv)
  show "\<exists>cmds. hs_ran (snd (then_do m f h)) = hs_ran h @ cmds \<and> prefix cmds (xs @ ys)
     \<and> (isl (fst (then_do m f h)) \<or> cmds = xs @ ys)"
  proof (cases r)
    case Inl
    with m c show ?thesis by (auto simp: then_do_def prefix_def)
  next
    case (Inr a)
    from assms(2) [of a] obtain cmds' where "hs_ran (snd (f a h1)) = hs_ran h1 @ cmds'" "prefix cmds' ys"
      "isl (fst (f a h1)) \<or> cmds' = ys" unfolding issues_def by blast
    with m c Inr show ?thesis by (auto simp: then_do_def)
  qed
qed

lemma issues_if [issuing]: "(b \<Longrightarrow> issues m plan) \<Longrightarrow> (\<not> b \<Longrightarrow> issues n plan) \<Longrightarrow> issues (if b then m else n) plan"
  by simp

lemma issues_each: "(\<And>x. issues (f x) []) \<Longrightarrow> issues (each f xs) []"
proof (induction xs)
  case (Cons x xs)
  then show ?case using issues_then [of "f x" "[]" "\<lambda>_. each f xs" "[]"] by simp
qed (simp add: issues_give)

lemma issuesD:
  "issues m plan \<Longrightarrow> m h = (r, h') \<Longrightarrow>
    \<exists>cmds. hs_ran h' = hs_ran h @ cmds \<and> prefix cmds plan \<and> (isl r \<or> cmds = plan)"
  unfolding issues_def by (metis fst_conv snd_conv)

section \<open>Commands that fail\<close>

text \<open>
  The same programs, watched: how each of them ended is noted in the world. A script stops at a
  failure when all commands but the last succeeded, and it raises what the last one failed with.
\<close>

definition logged :: "'w programs \<Rightarrow> ('w \<times> proc list) programs" where
  "logged progs cmd env st =
     (case st of (fs, w, log) \<Rightarrow> (case progs cmd env (fs, w) of (p, fs, w) \<Rightarrow> (p, fs, w, log @ [p])))"

definition succeeded :: "proc \<Rightarrow> bool" where
  "succeeded p \<longleftrightarrow> (case p of NotStarted e \<Rightarrow> False | Exited status out \<Rightarrow> status = 0)"

fun failure_of :: "latin list \<Rightarrow> proc \<Rightarrow> stop" where
  "failure_of cmd (NotStarted e) = OsRaised e"
| "failure_of cmd (Exited status out) = CommandFailed cmd status"

definition stops_well :: "latin list list \<Rightarrow> proc list \<Rightarrow> stop + 'a \<Rightarrow> bool" where
  "stops_well cmds ended r \<longleftrightarrow> length ended = length cmds \<and> list_all succeeded (butlast ended)
     \<and> (ended \<noteq> [] \<longrightarrow> \<not> succeeded (last ended) \<longrightarrow> r = Inl (failure_of (last cmds) (last ended)))"

definition stops_at_failure :: "('w \<times> proc list, 'a) script \<Rightarrow> bool" where
  "stops_at_failure m \<longleftrightarrow> (\<forall>h. \<exists>cmds ended. hs_ran (snd (m h)) = hs_ran h @ cmds
     \<and> snd (hs_world (snd (m h))) = snd (hs_world h) @ ended \<and> stops_well cmds ended (fst (m h)))"

named_theorems stopping

lemma no_commands:
  assumes "\<And>h. hs_ran (snd (m h)) = hs_ran h" "\<And>h. hs_world (snd (m h)) = hs_world h"
  shows "stops_at_failure m"
  using assms by (auto simp: stops_at_failure_def stops_well_def)

lemma stops_files [stopping]:
  "stops_at_failure (give a)" "stops_at_failure (stop_with e)" "stops_at_failure (say l)" "stops_at_failure (path_exists p)"
  "stops_at_failure (read_text p)" "stops_at_failure (write_text pl p t)" "stops_at_failure (rmtree pl p)" "stops_at_failure (mkdir pl p)"
  by (rule no_commands; simp add: give_def stop_with_def say_def path_exists_def read_text_def write_text_def rmtree_def mkdir_def
      split: option.splits node.splits)+

lemma stops_run_program [stopping]: "stops_at_failure (run_program (logged progs) env True cmd)"
  unfolding stops_at_failure_def
proof
  fix h :: "('a \<times> proc list) host"
  obtain w log where w: "hs_world h = (w, log)" by fastforce
  obtain p fs w' where p: "progs cmd env (hs_files h, w) = (p, fs, w')" by (metis prod_cases3)
  show "\<exists>cmds ended. hs_ran (snd (run_program (logged progs) env True cmd h)) = hs_ran h @ cmds
     \<and> snd (hs_world (snd (run_program (logged progs) env True cmd h))) = snd (hs_world h) @ ended
     \<and> stops_well cmds ended (fst (run_program (logged progs) env True cmd h))"
    by (intro exI [of _ "[cmd]"] exI [of _ "[p]"])
      (cases p; simp add: run_program_def logged_def w p stops_well_def succeeded_def Let_def)
qed

lemma stops_then [stopping]:
  assumes "stops_at_failure m" "\<And>a. stops_at_failure (f a)"
  shows "stops_at_failure (then_do m f)"
  unfolding stops_at_failure_def
proof
  fix h
  obtain r h1 where m: "m h = (r, h1)" by fastforce
  from assms(1) m obtain cmds ended where c: "hs_ran h1 = hs_ran h @ cmds" "snd (hs_world h1) = snd (hs_world h) @ ended"
    "stops_well cmds ended r" unfolding stops_at_failure_def by (metis fst_conv snd_conv)
  show "\<exists>cmds ended. hs_ran (snd (then_do m f h)) = hs_ran h @ cmds
     \<and> snd (hs_world (snd (then_do m f h))) = snd (hs_world h) @ ended \<and> stops_well cmds ended (fst (then_do m f h))"
  proof (cases r)
    case (Inl e)
    with m c show ?thesis by (auto simp: then_do_def stops_well_def)
  next
    case (Inr a)
    with c(3) have ok: "length ended = length cmds" "list_all succeeded ended"
      by (cases ended rule: rev_cases; simp add: stops_well_def Inr)+
    from assms(2) [of a] obtain cmds' ended' where d: "hs_ran (snd (f a h1)) = hs_ran h1 @ cmds'"
      "snd (hs_world (snd (f a h1))) = snd (hs_world h1) @ ended'" "stops_well cmds' ended' (fst (f a h1))"
      unfolding stops_at_failure_def by blast
    have "stops_well (cmds @ cmds') (ended @ ended') (fst (f a h1))"
      using ok d(3) by (cases "ended' = []"; cases "cmds' = []") (auto simp: stops_well_def butlast_append list_all_iff dest: in_set_butlastD)
    with m c(1,2) d(1,2) Inr show ?thesis by (simp add: then_do_def)
  qed
qed

lemma stops_if [stopping]:
  "(b \<Longrightarrow> stops_at_failure m) \<Longrightarrow> (\<not> b \<Longrightarrow> stops_at_failure n) \<Longrightarrow> stops_at_failure (if b then m else n)"
  by simp

lemma stops_each: "(\<And>x. stops_at_failure (f x)) \<Longrightarrow> stops_at_failure (each f xs)"
  by (induction xs) (simp_all add: stops_files(1) stops_then)

lemma stops_at_failureD:
  "stops_at_failure m \<Longrightarrow> m h = (r, h') \<Longrightarrow>
    \<exists>cmds ended. hs_ran h' = hs_ran h @ cmds \<and> snd (hs_world h') = snd (hs_world h) @ ended \<and> stops_well cmds ended r"
  unfolding stops_at_failure_def by (metis fst_conv snd_conv)

end
