(* ===== verification/Dev_Container.thy ===== *)
theory Dev_Container
  imports Build_Host
begin

text \<open>
  \<open>scripts/dev.py\<close>: the container in which the core is built and tested during development. The
  state lives in Docker, which is another program; the script asks for it and acts on the answer.
\<close>

section \<open>Constants\<close>

text \<open>The repository and the interpreter tag, which the environment can change.\<close>

record dev =
  dv_platform :: platform
  dv_repo :: latin
  dv_py_tag :: latin

definition CONTAINER :: latin where
  "CONTAINER = ''fizzpy-dev''"

definition IMAGE :: latin where
  "IMAGE = ''quay.io/pypa/manylinux_2_28_x86_64:latest''"

definition py_tag :: "environ \<Rightarrow> latin" where
  "py_tag env = (case dict_get env ''FIZZPY_DEV_PYTHON'' of None \<Rightarrow> ''cp310-cp310'' | Some tag \<Rightarrow> tag)"

definition PYTHON :: "dev \<Rightarrow> latin" where
  "PYTHON dv = ''/opt/python/'' @ dv_py_tag dv @ ''/bin/python''"

definition GETDEPS :: "dev \<Rightarrow> latin" where
  "GETDEPS dv = path_join (dv_platform dv) (dv_repo dv) [''.dev'', ''getdeps'']"

definition SETUP_MARKER :: "dev \<Rightarrow> latin" where
  "SETUP_MARKER dv = ''/opt/.fizzpy-dev-setup-done-'' @ dv_py_tag dv"

definition SYSTEM_PACKAGES :: "latin list" where
  "SYSTEM_PACKAGES = [''openssl-devel'', ''libaio-devel'', ''libunwind-devel'']"

definition BUILD_DEPS :: "latin list" where
  "BUILD_DEPS = [''scikit-build-core'', ''pybind11'', ''pybind11-stubgen'', ''certifi'', ''pytest'', ''requests'', ''httpx'']"

definition PREAMBLE :: latin where
  "PREAMBLE = join_with [LF]
     [[], ''set -e'',
      ''export PATH=\"/opt/python/{PY_TAG}/bin:$PATH\"'',
      ''export CMAKE_PREFIX_PATH=\"$(tr '' @ [CHR 0x27, CHR 0x5C, CHR ''n'', CHR 0x27, CHR '' '', CHR 0x27, CHR '';'', CHR 0x27]
        @ '' < /project/.dev/getdeps-prefixes.txt)\"'',
      ''export FIZZ_CMAKE_MODULE_DIR=\"$(echo /project/.dev/getdeps/repos/*folly*/build/fbcode_builder/CMake)\"'',
      ''export LD_LIBRARY_PATH=\"$(echo /project/.dev/getdeps/installed/*/lib /project/.dev/getdeps/installed/*/lib64 | tr ''
        @ [CHR 0x27, CHR '' '', CHR 0x27, CHR '' '', CHR 0x27, CHR '':'', CHR 0x27] @ ''):${LD_LIBRARY_PATH:-}\"'',
      []]"

section \<open>Docker\<close>

definition docker :: "'w programs \<Rightarrow> environ \<Rightarrow> bool \<Rightarrow> latin list \<Rightarrow> ('w, int \<times> latin) script" where
  "docker progs env check args = run_program progs env check (''docker'' # args)"

text \<open>What the script calls \<open>'running'\<close>, \<open>'stopped'\<close> and \<open>'absent'\<close>.\<close>

datatype container = Running | Stopped | Absent

definition ps_args :: "latin list" where
  "ps_args = [''ps'', ''-a'', ''--filter'', ''name=^'' @ CONTAINER @ ''$'', ''--format'', ''{{.State}}'']"

definition container_state :: "'w programs \<Rightarrow> environ \<Rightarrow> ('w, container) script" where
  "container_state progs env =
     then_do (docker progs env False ps_args) (\<lambda>(status, out).
       let out = str_strip out in
       give (if out = [] then Absent else if prefix ''running'' out then Running else Stopped))"

definition exec_args :: "dev \<Rightarrow> bool \<Rightarrow> latin \<Rightarrow> latin list" where
  "exec_args dv interactive code =
     ''exec'' # (if interactive then [''-it''] else [])
       @ [CONTAINER, ''bash'', ''-c'', py_replace ''{PY_TAG}'' (dv_py_tag dv) PREAMBLE @ code]"

definition exec_in :: "'w programs \<Rightarrow> environ \<Rightarrow> dev \<Rightarrow> bool \<Rightarrow> latin \<Rightarrow> ('w, int) script" where
  "exec_in progs env dv interactive code =
     then_do (docker progs env False (exec_args dv interactive code)) (\<lambda>(status, out). give status)"

definition require_tree :: "dev \<Rightarrow> ('w, unit) script" where
  "require_tree dv =
     then_do (path_exists (path_join (dv_platform dv) (GETDEPS dv) [''installed'', ''fizz''])) (\<lambda>there.
       if \<not> there
       then stop_with (ExitText (''getdeps tree missing at '' @ GETDEPS dv @ ''. Rebuild it inside the image with ''
              @ ''scripts/build_fizz_deps.py (~40 min, one-time). See BUILDING.md.''))
       else give ())"

section \<open>Commands\<close>

definition run_args :: "dev \<Rightarrow> latin list" where
  "run_args dv = [''run'', ''-d'', ''--name'', CONTAINER, ''-v'', dv_repo dv @ '':/project'', ''-w'', ''/project'', IMAGE,
     ''sleep'', ''infinity'']"

definition start_args :: "latin list" where
  "start_args = [''start'', CONTAINER]"

definition setup_code :: "dev \<Rightarrow> latin" where
  "setup_code dv =
     ''test -f '' @ SETUP_MARKER dv @ '' && exit 0'' @ [LF]
     @ ''dnf install -y '' @ join_with '' '' SYSTEM_PACKAGES @ [LF]
     @ PYTHON dv @ '' -m pip install -q '' @ join_with '' '' BUILD_DEPS @ [LF]
     @ ''touch '' @ SETUP_MARKER dv @ [LF]"

definition up :: "'w programs \<Rightarrow> environ \<Rightarrow> dev \<Rightarrow> ('w, unit) script" where
  "up progs env dv =
     then_do (require_tree dv) (\<lambda>_.
     then_do (container_state progs env) (\<lambda>state.
     then_do (case state of
         Absent \<Rightarrow>
           then_do (say (''+ creating container '' @ CONTAINER @ '' from '' @ IMAGE)) (\<lambda>_.
           then_do (docker progs env True (run_args dv)) (\<lambda>_. give ()))
       | Stopped \<Rightarrow>
           then_do (say (''+ starting container '' @ CONTAINER)) (\<lambda>_.
           then_do (docker progs env True start_args) (\<lambda>_. give ()))
       | Running \<Rightarrow> give ()) (\<lambda>_.
     then_do (say ''+ ensuring system + pip deps (one-time)'') (\<lambda>_.
     then_do (exec_in progs env dv False (setup_code dv)) (\<lambda>status.
     if status \<noteq> 0 then stop_with (ExitText ''container setup failed'')
     else say (''container '' @ CONTAINER @ '' ready''))))))"

definition ensure_up :: "'w programs \<Rightarrow> environ \<Rightarrow> dev \<Rightarrow> ('w, unit) script" where
  "ensure_up progs env dv =
     then_do (container_state progs env) (\<lambda>state. if state \<noteq> Running then up progs env dv else give ())"

definition exit_with :: "('w, int) script \<Rightarrow> ('w, unit) script" where
  "exit_with m = then_do m (\<lambda>status. stop_with (ExitCode status))"

definition build_code :: "dev \<Rightarrow> latin" where
  "build_code dv =
     PYTHON dv @ '' -m pip install -e . --no-build-isolation ''
     @ ''-C build-dir=.dev/build-container-'' @ dv_py_tag dv @ '' ''
     @ ''-C cmake.define.CMAKE_PREFIX_PATH=\"$CMAKE_PREFIX_PATH\" ''
     @ ''-C cmake.define.FIZZ_CMAKE_MODULE_DIR=\"$FIZZ_CMAKE_MODULE_DIR\"''"

definition build :: "'w programs \<Rightarrow> environ \<Rightarrow> dev \<Rightarrow> ('w, unit) script" where
  "build progs env dv =
     then_do (ensure_up progs env dv) (\<lambda>_. exit_with (exec_in progs env dv False (build_code dv)))"

definition test_code :: "dev \<Rightarrow> latin list \<Rightarrow> latin" where
  "test_code dv args =
     PYTHON dv @ '' -m pytest ''
     @ (if args \<noteq> [] then join_with '' '' args else ''-m '' @ CHR 0x27 # ''not network'' @ [CHR 0x27])"

definition test :: "'w programs \<Rightarrow> environ \<Rightarrow> dev \<Rightarrow> latin list \<Rightarrow> ('w, unit) script" where
  "test progs env dv args =
     then_do (ensure_up progs env dv) (\<lambda>_. exit_with (exec_in progs env dv False (test_code dv args)))"

definition shell :: "'w programs \<Rightarrow> environ \<Rightarrow> dev \<Rightarrow> ('w, unit) script" where
  "shell progs env dv =
     then_do (ensure_up progs env dv) (\<lambda>_. exit_with (exec_in progs env dv True ''exec bash''))"

definition run_command :: "'w programs \<Rightarrow> environ \<Rightarrow> dev \<Rightarrow> latin list \<Rightarrow> ('w, unit) script" where
  "run_command progs env dv args =
     then_do (ensure_up progs env dv) (\<lambda>_.
       if args = [] then stop_with (ExitText ''run: expected a command after --'')
       else exit_with (exec_in progs env dv False (join_with '' '' args)))"

definition rm_args :: "latin list" where
  "rm_args = [''rm'', ''-f'', CONTAINER]"

definition down :: "'w programs \<Rightarrow> environ \<Rightarrow> ('w, unit) script" where
  "down progs env =
     then_do (container_state progs env) (\<lambda>state.
       if state \<noteq> Absent
       then then_do (say (''+ removing container '' @ CONTAINER)) (\<lambda>_.
            then_do (docker progs env False rm_args) (\<lambda>_. give ()))
       else give ())"

text \<open>The commands as \<open>argparse\<close> hands them over, with the rest of the command line.\<close>

datatype dev_command = Up | Build | Test "latin list" | Shell | Run "latin list" | Down

fun dev_main :: "'w programs \<Rightarrow> environ \<Rightarrow> dev \<Rightarrow> dev_command \<Rightarrow> ('w, unit) script" where
  "dev_main progs env dv Up = up progs env dv"
| "dev_main progs env dv Build = build progs env dv"
| "dev_main progs env dv (Test args) = test progs env dv (filter (\<lambda>a. a \<noteq> ''--'') args)"
| "dev_main progs env dv Shell = shell progs env dv"
| "dev_main progs env dv (Run args) = run_command progs env dv (filter (\<lambda>a. a \<noteq> ''--'') args)"
| "dev_main progs env dv Down = down progs env"

section \<open>What Docker documents\<close>

text \<open>
  \<open>st\<close> is the state of the container, \<open>None\<close> without one, and \<open>sh\<close> what a shell inside it does.
  Listing changes nothing; \<open>run -d\<close> creates a running container where there is none, \<open>start\<close>
  starts one that was created or has exited, \<open>exec\<close> runs a command in a running container and
  otherwise fails, and \<open>rm -f\<close> removes.
\<close>

definition docker_states :: "latin list" where
  "docker_states = [''created'', ''running'', ''paused'', ''restarting'', ''removing'', ''exited'', ''dead'']"

definition docker_ok ::
    "'w programs \<Rightarrow> dev \<Rightarrow> ('w \<Rightarrow> latin option) \<Rightarrow> (latin \<Rightarrow> files \<times> 'w \<Rightarrow> int \<times> files \<times> 'w) \<Rightarrow> bool" where
  "docker_ok progs dv st sh \<longleftrightarrow> (\<forall>env fs w.
     (\<forall>s. st w = Some s \<longrightarrow> s \<in> set docker_states)
     \<and> progs (''docker'' # ps_args) env (fs, w) = (Exited 0 (case st w of None \<Rightarrow> [] | Some s \<Rightarrow> s @ [LF]), fs, w)
     \<and> (st w = None \<longrightarrow>
          (\<exists>out w'. progs (''docker'' # run_args dv) env (fs, w) = (Exited 0 out, fs, w') \<and> st w' = Some ''running''))
     \<and> (st w \<in> {Some ''created'', Some ''exited''} \<longrightarrow>
          (\<exists>out w'. progs (''docker'' # start_args) env (fs, w) = (Exited 0 out, fs, w') \<and> st w' = Some ''running''))
     \<and> (\<forall>interactive code. st w = Some ''running'' \<longrightarrow>
          (\<exists>out. let (status, fs', w') = sh (last (exec_args dv interactive code)) (fs, w) in
             progs (''docker'' # exec_args dv interactive code) env (fs, w) = (Exited status out, fs', w')
             \<and> st w' = Some ''running''))
     \<and> (\<exists>out w'. progs (''docker'' # rm_args) env (fs, w) = (Exited 0 out, fs, w') \<and> st w' = None))"

lemma docker_okD:
  assumes "docker_ok progs dv st sh"
  shows "st w = Some s \<Longrightarrow> s \<in> set docker_states"
    and "progs (''docker'' # ps_args) env (fs, w) = (Exited 0 (case st w of None \<Rightarrow> [] | Some s \<Rightarrow> s @ [LF]), fs, w)"
    and "st w = None \<Longrightarrow>
      \<exists>out w'. progs (''docker'' # run_args dv) env (fs, w) = (Exited 0 out, fs, w') \<and> st w' = Some ''running''"
    and "st w \<in> {Some ''created'', Some ''exited''} \<Longrightarrow>
      \<exists>out w'. progs (''docker'' # start_args) env (fs, w) = (Exited 0 out, fs, w') \<and> st w' = Some ''running''"
    and "st w = Some ''running'' \<Longrightarrow> sh (last (exec_args dv interactive code)) (fs, w) = (status, fs', w') \<Longrightarrow>
      (\<exists>out. progs (''docker'' # exec_args dv interactive code) env (fs, w) = (Exited status out, fs', w'))
      \<and> st w' = Some ''running''"
    and "\<exists>out w'. progs (''docker'' # rm_args) env (fs, w) = (Exited 0 out, fs, w') \<and> st w' = None"
proof -
  note ok = assms [unfolded docker_ok_def, THEN spec [of _ env], THEN spec [of _ fs], THEN spec [of _ w]]
  show "st w = Some s \<Longrightarrow> s \<in> set docker_states" using ok by blast
  show "progs (''docker'' # ps_args) env (fs, w) = (Exited 0 (case st w of None \<Rightarrow> [] | Some s \<Rightarrow> s @ [LF]), fs, w)"
    using ok by blast
  show "st w = None \<Longrightarrow>
      \<exists>out w'. progs (''docker'' # run_args dv) env (fs, w) = (Exited 0 out, fs, w') \<and> st w' = Some ''running''"
    using ok by blast
  show "st w \<in> {Some ''created'', Some ''exited''} \<Longrightarrow>
      \<exists>out w'. progs (''docker'' # start_args) env (fs, w) = (Exited 0 out, fs, w') \<and> st w' = Some ''running''"
    using ok by blast
  show "\<exists>out w'. progs (''docker'' # rm_args) env (fs, w) = (Exited 0 out, fs, w') \<and> st w' = None"
    using ok by blast
  assume running: "st w = Some ''running''" and s: "sh (last (exec_args dv interactive code)) (fs, w) = (status, fs', w')"
  then have "\<exists>out. let (status, fs', w') = sh (last (exec_args dv interactive code)) (fs, w) in
      progs (''docker'' # exec_args dv interactive code) env (fs, w) = (Exited status out, fs', w') \<and> st w' = Some ''running''"
    using ok by blast
  with s show "(\<exists>out. progs (''docker'' # exec_args dv interactive code) env (fs, w) = (Exited status out, fs', w'))
      \<and> st w' = Some ''running''"
    by simp
qed

section \<open>Single calls\<close>

lemma docker_ran:
  "progs (''docker'' # args) env (hs_files h, hs_world h) = (Exited status out, fs, w) \<Longrightarrow> check = False \<or> status = 0 \<Longrightarrow>
    docker progs env check args h
      = (Inr (status, universal_newlines out), h\<lparr>hs_files := fs, hs_world := w, hs_ran := hs_ran h @ [''docker'' # args]\<rparr>)"
  by (auto simp: docker_def run_program_def Let_def)

definition seen_as :: "latin option \<Rightarrow> container" where
  "seen_as s = (case s of None \<Rightarrow> Absent | Some s \<Rightarrow> if s = ''running'' then Running else Stopped)"

definition state_of_text :: "latin \<Rightarrow> container" where
  "state_of_text out =
     (let out = str_strip out in if out = [] then Absent else if prefix ''running'' out then Running else Stopped)"

lemma listed_states: "s \<in> set docker_states \<Longrightarrow> state_of_text (universal_newlines (s @ [LF])) = seen_as (Some s)"
proof -
  have "list_all (\<lambda>s. state_of_text (universal_newlines (s @ [LF])) = seen_as (Some s)) docker_states"
    by code_simp
  then show "s \<in> set docker_states \<Longrightarrow> state_of_text (universal_newlines (s @ [LF])) = seen_as (Some s)"
    by (simp add: list_all_iff)
qed

lemma container_state_seen:
  assumes "docker_ok progs dv st sh"
  shows "container_state progs env h = (Inr (seen_as (st (hs_world h))), h\<lparr>hs_ran := hs_ran h @ [''docker'' # ps_args]\<rparr>)"
proof -
  let ?out = "case st (hs_world h) of None \<Rightarrow> [] | Some s \<Rightarrow> s @ [LF]"
  have "docker progs env False ps_args h
      = (Inr (0, universal_newlines ?out), h\<lparr>hs_ran := hs_ran h @ [''docker'' # ps_args]\<rparr>)"
    using docker_okD(2) [OF assms, of env "hs_files h" "hs_world h"] by (simp add: docker_ran)
  moreover have "state_of_text (universal_newlines ?out) = seen_as (st (hs_world h))"
  proof (cases "st (hs_world h)")
    case None
    have "state_of_text (universal_newlines []) = Absent" by code_simp
    with None show ?thesis by (simp add: seen_as_def)
  next
    case (Some s)
    with listed_states [OF docker_okD(1) [OF assms Some]] show ?thesis by simp
  qed
  ultimately show ?thesis by (simp add: container_state_def state_of_text_def then_do_def give_def Let_def)
qed

lemma exec_in_running:
  assumes "docker_ok progs dv st sh" "st (hs_world h) = Some ''running''"
    and "sh (last (exec_args dv interactive code)) (hs_files h, hs_world h) = (status, fs, w)"
  shows "exec_in progs env dv interactive code h
      = (Inr status, h\<lparr>hs_files := fs, hs_world := w, hs_ran := hs_ran h @ [''docker'' # exec_args dv interactive code]\<rparr>)
    \<and> st w = Some ''running''"
  using docker_okD(5) [OF assms, of env]
  by (auto simp: exec_in_def then_do_def give_def docker_ran)

section \<open>The commands from every state\<close>

abbreviation state_of :: "('w \<Rightarrow> latin option) \<Rightarrow> 'w host \<Rightarrow> latin option" where
  "state_of st h \<equiv> st (hs_world h)"

definition tree_there :: "dev \<Rightarrow> 'w host \<Rightarrow> bool" where
  "tree_there dv h \<longleftrightarrow> dict_get (hs_files h) (path_join (dv_platform dv) (GETDEPS dv) [''installed'', ''fizz'']) \<noteq> None"

text \<open>What opens the container, and what a shell in it is given.\<close>

fun openers :: "dev \<Rightarrow> container \<Rightarrow> latin list list" where
  "openers dv Absent = [''docker'' # run_args dv]"
| "openers dv Stopped = [''docker'' # start_args]"
| "openers dv Running = []"

definition exec_cmd :: "dev \<Rightarrow> bool \<Rightarrow> latin \<Rightarrow> latin list" where
  "exec_cmd dv interactive code = ''docker'' # exec_args dv interactive code"

definition shell_text :: "dev \<Rightarrow> latin \<Rightarrow> latin" where
  "shell_text dv code = py_replace ''{PY_TAG}'' (dv_py_tag dv) PREAMBLE @ code"

lemma last_exec_args: "last (exec_args dv interactive code) = shell_text dv code"
  by (simp add: exec_args_def shell_text_def)

definition startable :: "latin option \<Rightarrow> bool" where
  "startable s \<longleftrightarrow> s \<in> {None, Some ''running'', Some ''created'', Some ''exited''}"

lemma require_tree_there: "tree_there dv h \<Longrightarrow> require_tree dv h = (Inr (), h)"
  by (simp add: require_tree_def tree_there_def give_def)

lemma require_tree_missing: "\<not> tree_there dv h \<Longrightarrow> \<exists>msg. require_tree dv h = (Inl (ExitText msg), h)"
  by (simp add: require_tree_def tree_there_def stop_with_def)

lemma up_ends:
  assumes ok: "docker_ok progs dv st sh" and "tree_there dv h" "startable (state_of st h)"
  shows "\<exists>fs w status h'. st w = Some ''running'' \<and> sh (shell_text dv (setup_code dv)) (fs, w) = (status, hs_files h', hs_world h')
    \<and> up progs env dv h = (if status = 0 then Inr () else Inl (ExitText ''container setup failed''), h')
    \<and> state_of st h' = Some ''running''
    \<and> hs_ran h' = hs_ran h @ (''docker'' # ps_args) # openers dv (seen_as (state_of st h)) @ [exec_cmd dv False (setup_code dv)]"
proof -
  let ?h1 = "h\<lparr>hs_ran := hs_ran h @ [''docker'' # ps_args]\<rparr>"
  let ?open = "case seen_as (state_of st h) of
         Absent \<Rightarrow>
           then_do (say (''+ creating container '' @ CONTAINER @ '' from '' @ IMAGE)) (\<lambda>_.
           then_do (docker progs env True (run_args dv)) (\<lambda>_. give ()))
       | Stopped \<Rightarrow>
           then_do (say (''+ starting container '' @ CONTAINER)) (\<lambda>_.
           then_do (docker progs env True start_args) (\<lambda>_. give ()))
       | Running \<Rightarrow> give ()"
  have "\<exists>h2. ?open ?h1 = (Inr (), h2) \<and> state_of st h2 = Some ''running''
      \<and> hs_ran h2 = hs_ran ?h1 @ openers dv (seen_as (state_of st h))"
  proof (cases "state_of st h")
    case None
    from docker_okD(3) [OF ok None, of env "hs_files h"] obtain out w where
      "progs (''docker'' # run_args dv) env (hs_files h, hs_world h) = (Exited 0 out, hs_files h, w)" "st w = Some ''running''"
      by blast
    with None show ?thesis by (simp add: seen_as_def docker_def run_program_def then_do_def give_def say_def)
  next
    case (Some s)
    show ?thesis
    proof (cases "s = ''running''")
      case True
      with Some show ?thesis by (simp add: seen_as_def give_def)
    next
      case False
      with Some assms(3) have "st (hs_world h) \<in> {Some ''created'', Some ''exited''}" by (auto simp: startable_def)
      from docker_okD(4) [OF ok this, of env "hs_files h"] obtain out w where
        "progs (''docker'' # start_args) env (hs_files h, hs_world h) = (Exited 0 out, hs_files h, w)" "st w = Some ''running''"
        by blast
      with Some False show ?thesis by (simp add: seen_as_def docker_def run_program_def then_do_def give_def say_def)
    qed
  qed
  then obtain h2 where h2: "?open ?h1 = (Inr (), h2)" "state_of st h2 = Some ''running''"
    "hs_ran h2 = hs_ran ?h1 @ openers dv (seen_as (state_of st h))" by blast
  let ?h3 = "h2\<lparr>hs_lines := hs_lines h2 @ [''+ ensuring system + pip deps (one-time)'']\<rparr>"
  obtain status fs w where s: "sh (shell_text dv (setup_code dv)) (hs_files ?h3, hs_world ?h3) = (status, fs, w)"
    by (cases "sh (shell_text dv (setup_code dv)) (hs_files ?h3, hs_world ?h3)") blast
  have "state_of st ?h3 = Some ''running''" using h2(2) by simp
  from exec_in_running [where code = "setup_code dv" and interactive = False, OF ok this, unfolded last_exec_args, OF s, of env]
  show ?thesis
    using h2 s unfolding up_def then_do_Inr [of "require_tree dv", OF require_tree_there [OF assms(2)]]
      then_do_Inr [OF container_state_seen [OF ok]] then_do_Inr [where m = "?open", OF h2(1)]
    by (intro exI [of _ "hs_files h2"] exI [of _ "hs_world h2"] exI [of _ status])
      (simp add: then_do_def say_def stop_with_def exec_cmd_def)
qed

lemma exit_in_running:
  assumes "docker_ok progs dv st sh" "state_of st h = Some ''running''"
  shows "\<exists>status h'. exit_with (exec_in progs env dv interactive code) h = (Inl (ExitCode status), h')
    \<and> sh (shell_text dv code) (hs_files h, hs_world h) = (status, hs_files h', hs_world h')
    \<and> state_of st h' = Some ''running'' \<and> hs_ran h' = hs_ran h @ [exec_cmd dv interactive code]"
proof -
  obtain status fs w where s: "sh (shell_text dv code) (hs_files h, hs_world h) = (status, fs, w)"
    by (cases "sh (shell_text dv code) (hs_files h, hs_world h)") blast
  from exec_in_running [OF assms, where code = code and interactive = interactive, unfolded last_exec_args, OF s, of env]
  show ?thesis using s by (simp add: exit_with_def then_do_def stop_with_def exec_cmd_def)
qed

text \<open>What a command starts before its own work, from a state of the container.\<close>

definition preparation :: "dev \<Rightarrow> container \<Rightarrow> latin list list" where
  "preparation dv c =
     (''docker'' # ps_args)
     # (if c = Running then [] else (''docker'' # ps_args) # openers dv c @ [exec_cmd dv False (setup_code dv)])"

lemma ensure_up_sees:
  "docker_ok progs dv st sh \<Longrightarrow>
    ensure_up progs env dv h = (if seen_as (state_of st h) \<noteq> Running then up progs env dv else give ())
      (h\<lparr>hs_ran := hs_ran h @ [''docker'' # ps_args]\<rparr>)"
  by (simp add: ensure_up_def then_do_def container_state_seen)

lemma ensure_up_ends:
  assumes ok: "docker_ok progs dv st sh" and "tree_there dv h" "startable (state_of st h)"
    and prepared: "\<forall>fs w. st w = Some ''running'' \<longrightarrow> fst (sh (shell_text dv (setup_code dv)) (fs, w)) = 0"
  shows "\<exists>h'. ensure_up progs env dv h = (Inr (), h') \<and> state_of st h' = Some ''running''
    \<and> hs_ran h' = hs_ran h @ preparation dv (seen_as (state_of st h))"
proof -
  let ?h1 = "h\<lparr>hs_ran := hs_ran h @ [''docker'' # ps_args]\<rparr>"
  note e = ensure_up_sees [OF ok, of env h]
  show ?thesis
  proof (cases "seen_as (state_of st h) = Running")
    case True
    then show ?thesis
      using e by (auto simp: preparation_def give_def seen_as_def split: option.splits if_splits)
  next
    case False
    have "tree_there dv ?h1" "startable (state_of st ?h1)" using assms(2,3) by (simp_all add: tree_there_def)
    from up_ends [OF ok this, of env] obtain fs w and status :: int and h' where
      u: "st w = Some ''running''" "sh (shell_text dv (setup_code dv)) (fs, w) = (status, hs_files h', hs_world h')"
      "up progs env dv ?h1 = (if status = 0 then Inr () else Inl (ExitText ''container setup failed''), h')"
      "state_of st h' = Some ''running''"
      "hs_ran h' = hs_ran ?h1 @ (''docker'' # ps_args) # openers dv (seen_as (state_of st ?h1)) @ [exec_cmd dv False (setup_code dv)]"
      by blast
    from prepared u(1) have "fst (sh (shell_text dv (setup_code dv)) (fs, w)) = 0" by blast
    with u(2) have "status = 0" by simp
    with u(3-5) False show ?thesis unfolding e by (simp add: preparation_def)
  qed
qed

text \<open>The commands that end in a shell, with what they give it.\<close>

fun shell_code :: "dev \<Rightarrow> dev_command \<Rightarrow> (bool \<times> latin) option" where
  "shell_code dv Build = Some (False, build_code dv)"
| "shell_code dv (Test args) = Some (False, test_code dv (filter (\<lambda>a. a \<noteq> ''--'') args))"
| "shell_code dv Shell = Some (True, ''exec bash'')"
| "shell_code dv (Run args) =
     (let args = filter (\<lambda>a. a \<noteq> ''--'') args in if args = [] then None else Some (False, join_with '' '' args))"
| "shell_code dv _ = None"

lemma dev_main_shell:
  "shell_code dv cmd = Some (interactive, code) \<Longrightarrow>
    dev_main progs env dv cmd = then_do (ensure_up progs env dv) (\<lambda>_. exit_with (exec_in progs env dv interactive code))"
  by (cases cmd) (auto simp: build_def test_def shell_def run_command_def Let_def split: if_splits)

section \<open>Traces\<close>

text \<open>
  Whether the container runs, followed through the commands that a script started; \<open>None\<close> when
  one came at the wrong time: a shell outside a running container, or a second container.
\<close>

fun track :: "dev \<Rightarrow> bool \<Rightarrow> latin list list \<Rightarrow> bool option" where
  "track dv running [] = Some running"
| "track dv running (cmd # cmds) =
     (if cmd = ''docker'' # run_args dv then (if running then None else track dv True cmds)
      else if cmd = ''docker'' # rm_args then track dv False cmds
      else if cmd = ''docker'' # ps_args \<or> running then track dv running cmds
      else None)"

lemma track_append:
  "track dv b (xs @ ys) = (case track dv b xs of None \<Rightarrow> None | Some b \<Rightarrow> track dv b ys)"
  by (induction dv b xs rule: track.induct) (auto split: if_splits)

lemma track_exec [simp]: "track dv b (exec_cmd dv interactive code # cmds) = (if b then track dv True cmds else None)"
  by (cases b) (auto simp: exec_cmd_def exec_args_def run_args_def rm_args_def ps_args_def)

lemma track_run [simp]: "track dv b ((''docker'' # run_args dv) # cmds) = (if b then None else track dv True cmds)"
  by simp

lemma track_start [simp]: "track dv True ((''docker'' # start_args) # cmds) = track dv True cmds"
  by (simp add: start_args_def run_args_def rm_args_def)

lemma track_ps [simp]: "track dv b ((''docker'' # ps_args) # cmds) = track dv b cmds"
  by (simp add: ps_args_def run_args_def rm_args_def)

lemma track_rm [simp]: "track dv b ((''docker'' # rm_args) # cmds) = track dv False cmds"
  by (simp add: rm_args_def run_args_def)

declare track.simps(2) [simp del]

text \<open>A step of a script that keeps the trace in order, from a container that runs or is not there.\<close>

definition in_order :: "dev \<Rightarrow> ('w \<Rightarrow> latin option) \<Rightarrow> 'w host \<Rightarrow> 'w host \<Rightarrow> bool" where
  "in_order dv st h h' \<longleftrightarrow> (\<exists>cmds. hs_ran h' = hs_ran h @ cmds \<and> state_of st h' \<in> {None, Some ''running''}
     \<and> track dv (state_of st h = Some ''running'') cmds = Some (state_of st h' = Some ''running''))"

lemma in_order_trans: "in_order dv st h h1 \<Longrightarrow> in_order dv st h1 h2 \<Longrightarrow> in_order dv st h h2"
  by (fastforce simp: in_order_def track_append)

lemma up_in_order:
  assumes ok: "docker_ok progs dv st sh" and st: "state_of st h \<in> {None, Some ''running''}"
  shows "in_order dv st h (snd (up progs env dv h))
    \<and> (fst (up progs env dv h) = Inr () \<longrightarrow> state_of st (snd (up progs env dv h)) = Some ''running'')"
proof (cases "tree_there dv h")
  case False
  from require_tree_missing [OF this] st show ?thesis
    by (auto simp: up_def then_do_def in_order_def intro!: exI [of _ "[]"])
next
  case True
  from st have "startable (state_of st h)" by (auto simp: startable_def)
  from up_ends [OF ok True this, of env] obtain status :: int and h' where
    u: "up progs env dv h = (if status = 0 then Inr () else Inl (ExitText ''container setup failed''), h')"
      "state_of st h' = Some ''running''"
      "hs_ran h' = hs_ran h @ (''docker'' # ps_args) # openers dv (seen_as (state_of st h)) @ [exec_cmd dv False (setup_code dv)]"
    by blast
  with st show ?thesis
    by (auto simp: in_order_def seen_as_def)
qed

lemma ensure_up_in_order:
  assumes ok: "docker_ok progs dv st sh" and st: "state_of st h \<in> {None, Some ''running''}"
  shows "in_order dv st h (snd (ensure_up progs env dv h))
    \<and> (fst (ensure_up progs env dv h) = Inr () \<longrightarrow> state_of st (snd (ensure_up progs env dv h)) = Some ''running'')"
proof -
  let ?h1 = "h\<lparr>hs_ran := hs_ran h @ [''docker'' # ps_args]\<rparr>"
  note e = ensure_up_sees [OF ok, of env h]
  have "in_order dv st h ?h1" using st by (auto simp: in_order_def)
  moreover have "in_order dv st ?h1 (snd (up progs env dv ?h1))
      \<and> (fst (up progs env dv ?h1) = Inr () \<longrightarrow> state_of st (snd (up progs env dv ?h1)) = Some ''running'')"
    by (rule up_in_order [OF ok]) (use st in simp)
  ultimately show ?thesis
    using e st in_order_trans by (auto simp: give_def seen_as_def)
qed

lemma down_ends:
  assumes ok: "docker_ok progs dv st sh"
  shows "\<exists>h'. down progs env h = (Inr (), h') \<and> state_of st h' = None
    \<and> hs_ran h' = hs_ran h @ (''docker'' # ps_args) # (if state_of st h = None then [] else [''docker'' # rm_args])"
proof -
  from docker_okD(6) [OF ok, of env "hs_files h" "hs_world h"] obtain out w where
    "progs (''docker'' # rm_args) env (hs_files h, hs_world h) = (Exited 0 out, hs_files h, w)" "st w = None" by blast
  then show ?thesis
    by (auto simp: down_def docker_def run_program_def then_do_def say_def give_def seen_as_def container_state_seen [OF ok]
        split: option.splits)
qed

lemma shell_in_order:
  assumes ok: "docker_ok progs dv st sh" and st: "state_of st h \<in> {None, Some ''running''}"
    and m: "m = exit_with (exec_in progs env dv interactive code) \<or> m = stop_with e"
  shows "in_order dv st h (snd (then_do (ensure_up progs env dv) (\<lambda>_. m) h))"
proof -
  obtain r h1 where h1: "ensure_up progs env dv h = (r, h1)" by fastforce
  with ensure_up_in_order [OF ok st, of env] have 1: "in_order dv st h h1" "r = Inr () \<Longrightarrow> state_of st h1 = Some ''running''"
    by auto
  show ?thesis
  proof (cases r)
    case Inl
    with h1 1 show ?thesis by (simp add: then_do_def)
  next
    case (Inr u)
    then have running: "state_of st h1 = Some ''running''" using 1(2) by simp
    from m have "in_order dv st h1 (snd (m h1))"
    proof
      assume m: "m = exit_with (exec_in progs env dv interactive code)"
      from exit_in_running [OF ok running, of env interactive code] running show ?thesis
        unfolding m by (auto simp: in_order_def)
    next
      assume "m = stop_with e"
      then show ?thesis using running by (simp add: stop_with_def in_order_def)
    qed
    with in_order_trans [OF 1(1)] Inr h1 show ?thesis by (simp add: then_do_def)
  qed
qed

lemma dev_main_in_order:
  assumes ok: "docker_ok progs dv st sh" and st: "state_of st h \<in> {None, Some ''running''}"
  shows "in_order dv st h (snd (dev_main progs env dv cmd h))"
proof (cases "cmd = Up \<or> cmd = Down")
  case True
  with up_in_order [OF ok st] down_ends [OF ok, of env h] st show ?thesis
    by (auto simp: in_order_def)
next
  case False
  then have "\<exists>m. dev_main progs env dv cmd = then_do (ensure_up progs env dv) (\<lambda>_. m)
      \<and> (\<exists>interactive code e. m = exit_with (exec_in progs env dv interactive code) \<or> m = stop_with e)"
    by (cases cmd) (auto simp: build_def test_def shell_def run_command_def)
  with shell_in_order [OF ok st] show ?thesis by fastforce
qed

text \<open>One invocation of the script after another.\<close>

fun dev_runs :: "'w programs \<Rightarrow> environ \<Rightarrow> dev \<Rightarrow> dev_command list \<Rightarrow> 'w host \<Rightarrow> 'w host" where
  "dev_runs progs env dv [] h = h"
| "dev_runs progs env dv (cmd # cmds) h = dev_runs progs env dv cmds (snd (dev_main progs env dv cmd h))"

lemma dev_runs_append: "dev_runs progs env dv (xs @ ys) h = dev_runs progs env dv ys (dev_runs progs env dv xs h)"
  by (induction xs arbitrary: h) simp_all

lemma dev_runs_in_order:
  assumes ok: "docker_ok progs dv st sh" and st: "state_of st h \<in> {None, Some ''running''}"
  shows "in_order dv st h (dev_runs progs env dv cmds h)"
  using st
proof (induction cmds arbitrary: h)
  case Nil
  then show ?case by (auto simp: in_order_def)
next
  case (Cons cmd cmds)
  note one = dev_main_in_order [OF ok Cons.prems, of env cmd]
  then have "state_of st (snd (dev_main progs env dv cmd h)) \<in> {None, Some ''running''}" by (auto simp: in_order_def)
  with in_order_trans [OF one Cons.IH] show ?case by simp
qed

text \<open>
  Every \<open>--\<close> is dropped from a command, not the first alone; words are joined again by single
  spaces, so a word with a space is two to the shell; and when Docker fails to answer, \<open>down\<close>
  takes that for no container and succeeds.
\<close>

lemma run_drops_dashes: "dev_main progs env dv (Run (xs @ ''--'' # ys)) = dev_main progs env dv (Run (xs @ ys))"
  by simp

lemma run_splits_words: "dev_main progs env dv (Run [''a b'']) = dev_main progs env dv (Run [''a'', ''b''])"
  by (simp add: run_command_def)

lemma down_without_docker:
  assumes "progs (''docker'' # ps_args) env (hs_files h, hs_world h) = (Exited status [], fs, w)"
  shows "fst (down progs env h) = Inr () \<and> hs_ran (snd (down progs env h)) = hs_ran h @ [''docker'' # ps_args]"
proof -
  have "str_strip (universal_newlines []) = []" by code_simp
  with assms show ?thesis
    by (simp add: down_def container_state_def docker_def run_program_def then_do_def give_def Let_def)
qed

section \<open>Properties\<close>

text \<open>
  Building, testing, a shell and any other command work from every state that Docker can start
  from, when the dependency tree is there and the packages install: the script finds or creates
  the container, starts it and sets it up when it was not running, gives the command to a shell
  in the running container and exits with the status of that shell. A container that runs already
  is not set up again, whatever interpreter it was set up for.
\<close>

theorem dev_session:
  assumes "docker_ok progs dv st sh" "tree_there dv h" "startable (state_of st h)"
    and "\<forall>fs w. st w = Some ''running'' \<longrightarrow> fst (sh (shell_text dv (setup_code dv)) (fs, w)) = 0"
    and "shell_code dv cmd = Some (interactive, code)"
  shows "\<exists>fs w status h'. dev_main progs env dv cmd h = (Inl (ExitCode status), h')
    \<and> st w = Some ''running'' \<and> sh (shell_text dv code) (fs, w) = (status, hs_files h', hs_world h')
    \<and> state_of st h' = Some ''running''
    \<and> hs_ran h' = hs_ran h @ preparation dv (seen_as (state_of st h)) @ [exec_cmd dv interactive code]"
proof -
  from ensure_up_ends [OF assms(1-4), of env] obtain h1 where h1: "ensure_up progs env dv h = (Inr (), h1)"
    "state_of st h1 = Some ''running''" "hs_ran h1 = hs_ran h @ preparation dv (seen_as (state_of st h))" by blast
  from exit_in_running [OF assms(1) h1(2), of env interactive code] obtain status h' where
    "exit_with (exec_in progs env dv interactive code) h1 = (Inl (ExitCode status), h')"
    "sh (shell_text dv code) (hs_files h1, hs_world h1) = (status, hs_files h', hs_world h')"
    "state_of st h' = Some ''running''" "hs_ran h' = hs_ran h1 @ [exec_cmd dv interactive code]" by blast
  then show ?thesis
    using h1 by (intro exI [of _ "hs_files h1"] exI [of _ "hs_world h1"] exI [of _ status] exI [of _ h'])
      (simp add: dev_main_shell [OF assms(5)] then_do_def)
qed

text \<open>
  Over any sequence of invocations, from no container or a running one, whatever the commands
  in the container do and whether the tree is there or not: no shell is started outside a running
  container and no second container is created, a container that is there runs, and after
  \<open>down\<close> there is none.
\<close>

theorem dev_life:
  assumes "docker_ok progs dv st sh" "state_of st h \<in> {None, Some ''running''}" "hs_ran h = []"
  shows "(let h' = dev_runs progs env dv cmds h in
    track dv (state_of st h = Some ''running'') (hs_ran h') = Some (state_of st h' = Some ''running'')
    \<and> state_of st h' \<in> {None, Some ''running''}
    \<and> (cmds \<noteq> [] \<and> last cmds = Down \<longrightarrow> state_of st h' = None))"
proof -
  have "state_of st (dev_runs progs env dv cmds h) = None" if cmds: "cmds \<noteq> []" "last cmds = Down"
  proof -
    let ?h1 = "dev_runs progs env dv (butlast cmds) h"
    have "dev_runs progs env dv cmds h = snd (down progs env ?h1)"
      using dev_runs_append [of progs env dv "butlast cmds" "[Down]" h] append_butlast_last_id [OF cmds(1)] cmds(2) by simp
    with down_ends [OF assms(1), of env ?h1] show ?thesis by auto
  qed
  with dev_runs_in_order [OF assms(1,2), of env cmds] assms(3) show ?thesis by (auto simp: in_order_def Let_def)
qed

section \<open>The properties on a small Docker\<close>

fun demo_state :: "container \<Rightarrow> latin option" where
  "demo_state Running = Some ''running''"
| "demo_state Stopped = Some ''exited''"
| "demo_state Absent = None"

definition demo_sh :: "latin \<Rightarrow> files \<times> container \<Rightarrow> int \<times> files \<times> container" where
  "demo_sh code fw = (if last code = LF then 0 else 3, fst fw, snd fw)"

definition demo_docker :: "dev \<Rightarrow> container programs" where
  "demo_docker dv cmd env fw = (case fw of (fs, w) \<Rightarrow>
     (if cmd = ''docker'' # ps_args then (Exited 0 (case demo_state w of None \<Rightarrow> [] | Some s \<Rightarrow> s @ [LF]), fs, w)
      else if cmd = ''docker'' # run_args dv \<or> cmd = ''docker'' # start_args then (Exited 0 [], fs, Running)
      else if cmd = ''docker'' # rm_args then (Exited 0 [], fs, Absent)
      else if w = Running then (case demo_sh (last cmd) fw of (status, fs, w) \<Rightarrow> (Exited status [], fs, w))
      else (Exited 1 [], fs, w)))"

definition demo_dev :: dev where
  "demo_dev = \<lparr>dv_platform = \<lparr>pl_system = ''Linux'', pl_machine = ''x86_64''\<rparr>, dv_repo = ''/r'', dv_py_tag = ''cp314-cp314t''\<rparr>"

definition demo_tree :: files where
  "demo_tree = [(''/r/.dev/getdeps/installed/fizz'', Dir)]"

definition demo_host :: "'w \<Rightarrow> 'w host" where
  "demo_host w = \<lparr>hs_files = demo_tree, hs_world = w, hs_lines = [], hs_ran = []\<rparr>"

lemma demo_docker_ok: "docker_ok (demo_docker dv) dv demo_state demo_sh"
proof -
  have "s \<in> set docker_states" if "demo_state w = Some s" for w s
    using that by (cases w) (auto simp: docker_states_def)
  moreover have "w \<noteq> Running \<or> demo_docker dv (''docker'' # exec_args dv interactive code) env (fs, w)
      = (case demo_sh (last (exec_args dv interactive code)) (fs, w) of (status, fs, w) \<Rightarrow> (Exited status [], fs, w))"
    for w fs env interactive code
    by (simp add: demo_docker_def ps_args_def run_args_def start_args_def rm_args_def exec_args_def)
  ultimately show ?thesis
    unfolding docker_ok_def
    by (intro allI conjI impI)
      (auto simp: demo_docker_def demo_sh_def ps_args_def run_args_def start_args_def rm_args_def exec_args_def
        elim: demo_state.elims)
qed

lemma demo_tree_there: "tree_there demo_dev (demo_host w)"
  by (simp add: tree_there_def demo_dev_def demo_host_def demo_tree_def GETDEPS_def path_join_def path_sep_def)

lemma dev_session_witness:
  "\<exists>h'. dev_main (demo_docker demo_dev) [] demo_dev Shell (demo_host Stopped) = (Inl (ExitCode 3), h')
    \<and> hs_ran h' = preparation demo_dev Stopped @ [exec_cmd demo_dev True ''exec bash'']"
proof -
  have "startable (state_of demo_state (demo_host Stopped))" by (simp add: startable_def demo_host_def)
  moreover have "\<forall>fs w. demo_state w = Some ''running'' \<longrightarrow>
      fst (demo_sh (shell_text demo_dev (setup_code demo_dev)) (fs, w)) = 0"
    by (simp add: demo_sh_def shell_text_def setup_code_def)
  moreover have "shell_code demo_dev Shell = Some (True, ''exec bash'')" by simp
  ultimately obtain fs w status h' where s:
    "dev_main (demo_docker demo_dev) [] demo_dev Shell (demo_host Stopped) = (Inl (ExitCode status), h')"
    "demo_sh (shell_text demo_dev ''exec bash'') (fs, w) = (status, hs_files h', hs_world h')"
    "hs_ran h' = hs_ran (demo_host Stopped) @ preparation demo_dev (seen_as (state_of demo_state (demo_host Stopped)))
      @ [exec_cmd demo_dev True ''exec bash'']"
    using dev_session [OF demo_docker_ok demo_tree_there] by blast
  from s(2) have "status = 3" by (simp add: demo_sh_def shell_text_def split: if_splits)
  with s(1,3) show ?thesis by (simp add: demo_host_def seen_as_def)
qed

lemma dev_life_witness:
  "(let h' = dev_runs (demo_docker demo_dev) [] demo_dev [Build, Test [''--'', ''-x''], Down, Shell, Down] (demo_host Absent) in
    track demo_dev False (hs_ran h') = Some False \<and> state_of demo_state h' = None)"
  using dev_life [where cmds = "[Build, Test [''--'', ''-x''], Down, Shell, Down]" and h = "demo_host Absent"
      and env = "[]", OF demo_docker_ok [of demo_dev]]
  by (simp add: demo_host_def Let_def del: dev_runs.simps)

end
