(* ===== verification/Build_Fizz.thy ===== *)
theory Build_Fizz
  imports Build_Host
begin

text \<open>
  The scripts that build Fizz for the core: \<open>scripts/build_fizz.py\<close> for local development,
  \<open>scripts/build_fizz_deps.py\<close> inside a manylinux image, \<open>scripts/build_fizz_deps_native.py\<close> on
  macOS and Windows, and \<open>scripts/repair_wheel_windows.py\<close>, which vendors the libraries into the
  wheel. Constants of a module that depend on its environment are the record \<open>site\<close>.
\<close>

section \<open>What the scripts share\<close>

record site =
  s_platform :: platform
  s_tag :: latin
  s_repo :: latin
  s_src :: latin
  s_scratch :: latin
  s_out :: latin
  s_python :: latin
  s_env :: environ

definition FIZZ_REPO :: latin where
  "FIZZ_REPO = ''https://github.com/facebookincubator/fizz''"

text \<open>\<open>FIZZ_TAG\<close>: the environment's, unless it is empty, or the one in the file next to the script.\<close>

definition fizz_tag :: "platform \<Rightarrow> environ \<Rightarrow> latin \<Rightarrow> ('w, latin) script" where
  "fizz_tag pl env dir =
     (let tag = (case dict_get env ''FIZZ_TAG'' of None \<Rightarrow> [] | Some tag \<Rightarrow> tag) in
      then_do (if tag \<noteq> [] then give tag else read_text (path_join pl dir [''fizz-tag.txt''])) (\<lambda>tag.
      give (str_strip tag)))"

definition env_get :: "environ \<Rightarrow> latin \<Rightarrow> latin \<Rightarrow> latin" where
  "env_get env name fallback = (case dict_get env name of None \<Rightarrow> fallback | Some v \<Rightarrow> v)"

definition run :: "'w programs \<Rightarrow> environ \<Rightarrow> latin list \<Rightarrow> ('w, unit) script" where
  "run progs env cmd =
     then_do (say (''+ '' @ join_with '' '' cmd)) (\<lambda>_. then_do (run_program progs env True cmd) (\<lambda>_. give ()))"

section \<open>Local builds\<close>

abbreviation SRC :: "site \<Rightarrow> latin" where
  "SRC s \<equiv> path_join (s_platform s) (s_repo s) [''.dev'', ''fizz-src'']"

abbreviation BUILD :: "site \<Rightarrow> latin" where
  "BUILD s \<equiv> path_join (s_platform s) (s_repo s) [''.dev'', ''fizz-build'']"

abbreviation PREFIX :: "site \<Rightarrow> latin" where
  "PREFIX s \<equiv> path_join (s_platform s) (s_repo s) [''.dev'', ''fizz-prefix'']"

text \<open>\<open>shutil.which('brew')\<close> is the argument \<open>found\<close>; \<open>Path\<close> of an empty text is the directory \<open>.\<close>\<close>

definition path_of :: "latin \<Rightarrow> latin" where
  "path_of s = (if s = [] then ''.'' else s)"

definition brew_prefix :: "'w programs \<Rightarrow> latin option \<Rightarrow> site \<Rightarrow> ('w, latin) script" where
  "brew_prefix progs found s =
     (let prefix_env = (case dict_get (s_env s) ''HOMEBREW_PREFIX'' of None \<Rightarrow> [] | Some p \<Rightarrow> p) in
      if prefix_env \<noteq> [] then give prefix_env
      else case found of
          Some brew \<Rightarrow>
            then_do (run_program progs (s_env s) True [brew, ''--prefix'']) (\<lambda>(status, out). give (path_of (str_strip out)))
        | None \<Rightarrow>
            then_do (path_exists ''/home/linuxbrew/.linuxbrew'') (\<lambda>there.
              if there then give ''/home/linuxbrew/.linuxbrew''
              else stop_with (ExitText ''Homebrew not found; set HOMEBREW_PREFIX or install brew (see BUILDING.md).'')))"

definition brew_opt :: "site \<Rightarrow> latin \<Rightarrow> latin \<Rightarrow> latin" where
  "brew_opt s brew name = path_join (s_platform s) brew [''opt'', name]"

definition prefix_path :: "'w programs \<Rightarrow> latin option \<Rightarrow> site \<Rightarrow> ('w, latin) script" where
  "prefix_path progs found s =
     then_do (brew_prefix progs found s) (\<lambda>brew.
       give (join_with '';'' [PREFIX s, brew_opt s brew ''liboqs'', brew_opt s brew ''libsodium'', brew]))"

definition built_marker :: "site \<Rightarrow> latin" where
  "built_marker s = path_join (s_platform s) (PREFIX s) [''lib'', ''cmake'', ''fizz'', ''fizz-config.cmake'']"

definition is_built :: "site \<Rightarrow> ('w, bool) script" where
  "is_built s = path_exists (built_marker s)"

definition clone_cmd :: "site \<Rightarrow> latin list" where
  "clone_cmd s = [''git'', ''clone'', ''--depth'', ''1'', ''--branch'', s_tag s, FIZZ_REPO, SRC s]"

definition configure_cmd :: "site \<Rightarrow> latin \<Rightarrow> latin list" where
  "configure_cmd s brew =
     (let cmake_prefix = join_with '';'' [brew, brew_opt s brew ''liboqs'', brew_opt s brew ''libsodium''] in
      [''cmake'', ''-S'', path_join (s_platform s) (SRC s) [''fizz''], ''-B'', BUILD s, ''-G'', ''Ninja'',
       ''-DCMAKE_INSTALL_PREFIX='' @ PREFIX s,
       ''-DCMAKE_MODULE_PATH='' @ path_join (s_platform s) (SRC s) [''build'', ''fbcode_builder'', ''CMake''],
       ''-DCMAKE_PREFIX_PATH='' @ cmake_prefix, ''-DBUILD_EXAMPLES=OFF'', ''-DBUILD_TESTS=OFF''])"

definition install_cmd :: "site \<Rightarrow> latin list" where
  "install_cmd s = [''cmake'', ''--build'', BUILD s, ''--target'', ''install'']"

text \<open>\<open>ensure\<close>, and what it does when there is nothing to reuse or a rebuild is forced.\<close>

definition source_marker :: "site \<Rightarrow> latin" where
  "source_marker s = path_join (s_platform s) (SRC s) [''fizz'', ''CMakeLists.txt'']"

definition rebuild :: "'w programs \<Rightarrow> latin option \<Rightarrow> site \<Rightarrow> bool \<Rightarrow> ('w, unit) script" where
  "rebuild progs found s force =
     then_do (path_exists (source_marker s)) (\<lambda>cloned.
     then_do (if \<not> cloned then run progs (s_env s) (clone_cmd s) else give ()) (\<lambda>_.
     then_do (path_exists (BUILD s)) (\<lambda>stale.
     then_do (if force \<and> stale then rmtree (s_platform s) (BUILD s) else give ()) (\<lambda>_.
     then_do (brew_prefix progs found s) (\<lambda>brew.
     then_do (run progs (s_env s) (configure_cmd s brew)) (\<lambda>_.
     then_do (run progs (s_env s) (install_cmd s)) (\<lambda>_.
     say (LF # ''OQS Fizz installed to '' @ PREFIX s))))))))"

definition ensure :: "'w programs \<Rightarrow> latin option \<Rightarrow> site \<Rightarrow> bool \<Rightarrow> ('w, unit) script" where
  "ensure progs found s force =
     then_do (is_built s) (\<lambda>there.
       if there \<and> \<not> force
       then say (''OQS Fizz already built at '' @ PREFIX s @ '' (use --force to rebuild).'')
       else rebuild progs found s force)"

datatype fizz_command = Ensure bool | PrefixPath

fun fizz_main :: "'w programs \<Rightarrow> latin option \<Rightarrow> site \<Rightarrow> fizz_command \<Rightarrow> ('w, unit) script" where
  "fizz_main progs found s (Ensure force) = ensure progs found s force"
| "fizz_main progs found s PrefixPath = then_do (prefix_path progs found s) say"

section \<open>The dependency tree in a manylinux image\<close>

definition PIC_DEFINE :: latin where
  "PIC_DEFINE = ''{\"CMAKE_POSITION_INDEPENDENT_CODE\": \"ON\"}''"

text \<open>\<open>dict(item.split('=', 1) for item in raw.split(NUL) if '=' in item)\<close>\<close>

definition env_item :: "latin \<Rightarrow> latin \<times> latin" where
  "env_item item = (takeWhile (\<lambda>c. c \<noteq> CHR ''='') item, tl (dropWhile (\<lambda>c. c \<noteq> CHR ''='') item))"

definition parse_env :: "latin \<Rightarrow> environ" where
  "parse_env raw =
     fold (\<lambda>(k, v) env. dict_set k v env)
       (map env_item (filter (\<lambda>item. CHR ''='' \<in> set item) (py_split [CHR 0x00] raw))) []"

definition add_pic :: "latin \<Rightarrow> environ \<Rightarrow> environ" where
  "add_pic name env =
     dict_set name (str_strip (''-fPIC '' @ (case dict_get env name of None \<Rightarrow> [] | Some flags \<Rightarrow> flags))) env"

definition toolset_env :: "'w programs \<Rightarrow> site \<Rightarrow> ('w, environ) script" where
  "toolset_env progs s =
     then_do (run_program progs (s_env s) True [''bash'', ''-c'', ''source /opt/rh/gcc-toolset-14/enable && env -0''])
       (\<lambda>(status, raw). give (add_pic ''CXXFLAGS'' (add_pic ''CFLAGS'' (parse_env raw))))"

definition getdeps_py :: "site \<Rightarrow> latin" where
  "getdeps_py s = path_join (s_platform s) (s_src s) [''build'', ''fbcode_builder'', ''getdeps.py'']"

definition common_flags :: "site \<Rightarrow> latin list" where
  "common_flags s = [''--extra-cmake-defines'', PIC_DEFINE, ''--src-dir='' @ s_src s, ''--allow-system-packages'']"

definition getdeps_cmd :: "latin \<Rightarrow> site \<Rightarrow> latin list \<Rightarrow> latin list \<Rightarrow> latin list" where
  "getdeps_cmd python s action flags =
     [python, getdeps_py s, ''--scratch-path'', s_scratch s] @ action @ flags"

definition packages_cmd :: "latin list" where
  "packages_cmd = [''yum'', ''install'', ''-y'', ''git'', ''openssl-devel'', ''zlib-devel'', ''libaio-devel'', ''libunwind-devel'']"

definition deps_clone_cmd :: "site \<Rightarrow> latin list" where
  "deps_clone_cmd s = [''git'', ''clone'', ''--depth'', ''1'', ''--branch'', s_tag s, FIZZ_REPO, s_src s]"

definition out_file :: "site \<Rightarrow> latin \<Rightarrow> latin" where
  "out_file s name = path_join (s_platform s) (s_out s) [name]"

definition module_dir :: "site \<Rightarrow> latin" where
  "module_dir s = path_join (s_platform s) (s_src s) [''build'', ''fbcode_builder'', ''CMake'']"

definition not_blank :: "latin \<Rightarrow> bool" where
  "not_blank line \<longleftrightarrow> str_strip line \<noteq> []"

text \<open>The last part of both scripts: what the per-wheel build reads.\<close>

definition publish :: "site \<Rightarrow> latin \<Rightarrow> latin \<Rightarrow> latin \<Rightarrow> ('w, unit) script" where
  "publish s joined modules line =
     then_do (write_text (s_platform s) (out_file s ''prefix.txt'') (joined @ [LF])) (\<lambda>_.
     then_do (write_text (s_platform s) (out_file s ''module_dir.txt'') (modules @ [LF])) (\<lambda>_.
     say (line @ out_file s ''prefix.txt'')))"

definition deps_site :: "platform \<Rightarrow> environ \<Rightarrow> latin \<Rightarrow> ('w, site) script" where
  "deps_site pl env dir =
     then_do (fizz_tag pl env dir) (\<lambda>tag.
     give \<lparr>s_platform = pl, s_tag = tag, s_repo = [], s_src = env_get env ''FIZZ_SRC'' ''/opt/fizz-src'',
       s_scratch = env_get env ''GETDEPS_SCRATCH'' ''/opt/fizz-deps'',
       s_out = env_get env ''FIZZPY_BUILD_INFO'' ''/opt/fizzpy-build'', s_python = ''python3'', s_env = env\<rparr>)"

definition deps_main :: "'w programs \<Rightarrow> site \<Rightarrow> ('w, unit) script" where
  "deps_main progs s =
     then_do (toolset_env progs s) (\<lambda>env.
     then_do (run progs env packages_cmd) (\<lambda>_.
     then_do (path_exists (s_src s)) (\<lambda>there.
     then_do (if there then rmtree (s_platform s) (s_src s) else give ()) (\<lambda>_.
     then_do (run progs env (deps_clone_cmd s)) (\<lambda>_.
     then_do (run progs env (getdeps_cmd ''python3'' s [''build'', ''fizz''] (common_flags s @ [''--no-tests'']))) (\<lambda>_.
     then_do (mkdir (s_platform s) (s_out s)) (\<lambda>_.
     then_do (run_program progs env True (getdeps_cmd ''python3'' s [''show-inst-dir'', ''--recursive'', ''fizz''] (common_flags s)))
       (\<lambda>(status, inst).
     publish s (join_with '';'' (filter not_blank (py_split [LF] inst))) (module_dir s)
       ''fizz dependency tree built; prefix written to ''))))))))"

section \<open>The environment of the toolset\<close>

lemma issues_run [issuing]: "issues (run progs env cmd) [cmd]"
proof -
  have "issues (run progs env cmd) ([] @ [cmd] @ [])" unfolding run_def by (intro issuing)
  then show ?thesis by simp
qed

text \<open>What \<open>env -0\<close> prints of an environment.\<close>

definition env_text :: "environ \<Rightarrow> latin" where
  "env_text env = concat (map (\<lambda>(k, v). k @ CHR ''='' # v @ [CHR 0x00]) env)"

definition env_ok :: "environ \<Rightarrow> bool" where
  "env_ok env \<longleftrightarrow> distinct (dict_keys env)
     \<and> list_all (\<lambda>(k, v). CHR ''='' \<notin> set k \<and> CHR 0x00 \<notin> set k \<and> CHR 0x00 \<notin> set v) env"

lemma split_env_text:
  "list_all (\<lambda>(k, v). CHR ''='' \<notin> set k \<and> CHR 0x00 \<notin> set k \<and> CHR 0x00 \<notin> set v) env \<Longrightarrow>
    py_split [CHR 0x00] (env_text env) = map (\<lambda>(k, v). k @ CHR ''='' # v) env @ [[]]"
proof (induction env)
  case Nil
  show ?case by (simp add: env_text_def py_split_single)
next
  case (Cons e env)
  obtain k v where e: "e = (k, v)" by fastforce
  have "CHR 0x00 \<notin> set (k @ CHR ''='' # v)" using Cons.prems e by simp
  from py_split_hd [OF this, of "[]" "env_text env"] Cons e show ?case by (simp add: env_text_def)
qed

lemma env_item_pair: "CHR ''='' \<notin> set k \<Longrightarrow> env_item (k @ CHR ''='' # v) = (k, v)"
  by (simp add: env_item_def takeWhile_until dropWhile_until)

lemma dict_of_pairs: "distinct (dict_keys (acc @ d)) \<Longrightarrow> fold (\<lambda>(k, v) env. dict_set k v env) d acc = acc @ d"
proof (induction d arbitrary: acc)
  case (Cons e d)
  obtain k v where e: "e = (k, v)" by fastforce
  then have "dict_get acc k = None" using Cons.prems by (auto simp: map_of_eq_None_iff)
  with Cons e show ?case by (simp add: dict_set_new)
qed simp

lemma parse_env_text: "env_ok env \<Longrightarrow> parse_env (env_text env) = env"
proof -
  assume ok: "env_ok env"
  then have wf: "list_all (\<lambda>(k, v). CHR ''='' \<notin> set k \<and> CHR 0x00 \<notin> set k \<and> CHR 0x00 \<notin> set v) env"
    by (simp add: env_ok_def)
  have "map env_item (map (\<lambda>(k, v). k @ CHR ''='' # v) env) = env"
    using wf by (induction env) (auto simp: env_item_pair)
  moreover have "filter (\<lambda>item. CHR ''='' \<in> set item) (map (\<lambda>(k, v). k @ CHR ''='' # v) env) = map (\<lambda>(k, v). k @ CHR ''='' # v) env"
    by (simp add: filter_id_conv split_beta)
  ultimately show ?thesis
    using dict_of_pairs [of "[]" env] ok by (simp add: parse_env_def split_env_text [OF wf] env_ok_def)
qed

section \<open>Properties\<close>

text \<open>
  The environment of the toolset is read back from the output of \<open>env -0\<close> exactly, values with
  line ends and equals signs included, except that the flags for C and C++ get \<open>-fPIC\<close> in front.
\<close>

theorem toolset_env_reads_back:
  assumes "env_ok env" "CR \<notin> set (env_text env)"
    and "progs [''bash'', ''-c'', ''source /opt/rh/gcc-toolset-14/enable && env -0''] (s_env s) (hs_files h, hs_world h)
      = (Exited 0 (env_text env), fs, w)"
  shows "\<exists>env' h'. toolset_env progs s h = (Inr env', h')
    \<and> (\<forall>name. dict_get env' name =
        (if name = ''CFLAGS'' \<or> name = ''CXXFLAGS''
         then Some (str_strip (''-fPIC '' @ (case dict_get env name of None \<Rightarrow> [] | Some flags \<Rightarrow> flags)))
         else dict_get env name))"
  using assms(3) parse_env_text [OF assms(1)]
  by (simp add: toolset_env_def then_do_def run_program_def universal_newlines_lf [OF assms(2)] give_def add_pic_def
      dict_get_set)

text \<open>
  A local build that is there is reused, and nothing is started; otherwise, and when it is
  forced, the source is cloned only when it is not there, and then Fizz is configured and
  installed, in this order; the first failure ends the script.
\<close>

theorem ensure_plan:
  assumes "ensure progs found s force h = (r, h')" "dict_get (s_env s) ''HOMEBREW_PREFIX'' = Some brew" "brew \<noteq> []"
  shows "\<exists>cmds. hs_ran h' = hs_ran h @ cmds
    \<and> (let plan = (if dict_get (hs_files h) (built_marker s) \<noteq> None \<and> \<not> force then []
          else (if dict_get (hs_files h) (source_marker s) = None then [clone_cmd s] else [])
            @ [configure_cmd s brew, install_cmd s]) in
       prefix cmds plan \<and> (isl r \<or> cmds = plan))"
proof (cases "dict_get (hs_files h) (built_marker s) \<noteq> None \<and> \<not> force")
  case True
  with assms(1) show ?thesis by (auto simp: ensure_def is_built_def say_def)
next
  case False
  let ?cloned = "dict_get (hs_files h) (source_marker s) \<noteq> None"
  let ?rest = "\<lambda>_. then_do (path_exists (BUILD s)) (\<lambda>stale.
     then_do (if force \<and> stale then rmtree (s_platform s) (BUILD s) else give ()) (\<lambda>_.
     then_do (brew_prefix progs found s) (\<lambda>brew.
     then_do (run progs (s_env s) (configure_cmd s brew)) (\<lambda>_.
     then_do (run progs (s_env s) (install_cmd s)) (\<lambda>_.
     say (LF # ''OQS Fizz installed to '' @ PREFIX s))))))"
  have brew: "brew_prefix progs found s = give brew" using assms(2,3) by (simp add: brew_prefix_def)
  have "(if \<not> (there \<and> \<not> force) then rebuild progs found s force else x) = rebuild progs found s force"
    if "\<not> (there \<and> \<not> force)" for there x using that by auto
  then have r: "then_do (if \<not> ?cloned then run progs (s_env s) (clone_cmd s) else give ()) ?rest h = (r, h')"
    using assms(1) False by (auto simp: ensure_def is_built_def rebuild_def)
  have "issues (?rest u) ([] @ [] @ [configure_cmd s brew] @ [install_cmd s] @ [])" for u
    unfolding brew then_do_give by (intro issuing)
  then have "issues (?rest u) [configure_cmd s brew, install_cmd s]" for u by simp
  then have "issues (then_do (if \<not> ?cloned then run progs (s_env s) (clone_cmd s) else give ()) ?rest)
      ((if \<not> ?cloned then [clone_cmd s] else []) @ [configure_cmd s brew, install_cmd s])"
    by (intro issues_then) (auto intro: issuing)
  from issuesD [OF this r] False show ?thesis by auto
qed

text \<open>
  A source tree that is there is built whatever release was asked for, also when a rebuild is
  forced: the tag plays no part.
\<close>

theorem ensure_ignores_tag:
  assumes "dict_get (hs_files h) (source_marker s) \<noteq> None"
  shows "ensure progs found (s\<lparr>s_tag := tag\<rparr>) force h = ensure progs found s force h"
proof -
  have same: "brew_prefix progs found (s\<lparr>s_tag := tag\<rparr>) = brew_prefix progs found s"
    "\<And>brew. configure_cmd (s\<lparr>s_tag := tag\<rparr>) brew = configure_cmd s brew" "install_cmd (s\<lparr>s_tag := tag\<rparr>) = install_cmd s"
    "built_marker (s\<lparr>s_tag := tag\<rparr>) = built_marker s" "source_marker (s\<lparr>s_tag := tag\<rparr>) = source_marker s"
    by (simp_all add: brew_prefix_def configure_cmd_def install_cmd_def built_marker_def source_marker_def brew_opt_def
        split: option.splits)
  show ?thesis using assms by (simp add: ensure_def is_built_def rebuild_def same)
qed

section \<open>The properties at a concrete site\<close>

text \<open>Programs that succeed and print the same.\<close>

definition printing :: "latin \<Rightarrow> unit programs" where
  "printing out cmd env fw = (case fw of (fs, w) \<Rightarrow> (Exited 0 out, fs, w))"

definition demo_site :: site where
  "demo_site = \<lparr>s_platform = \<lparr>pl_system = ''Darwin'', pl_machine = ''x86_64''\<rparr>, s_tag = ''v2026'', s_repo = ''/r'', s_src = ''/s'',
     s_scratch = ''/d'', s_out = ''/o'', s_python = ''/p'', s_env = [(''HOMEBREW_PREFIX'', ''/b'')]\<rparr>"

definition bare_host :: "files \<Rightarrow> unit host" where
  "bare_host fs = \<lparr>hs_files = fs, hs_world = (), hs_lines = [], hs_ran = []\<rparr>"

lemma toolset_env_reads_back_witness:
  "\<exists>env h'. toolset_env (printing (env_text [(''A'', ''x=y''), (''CFLAGS'', ''-O2'')])) demo_site (bare_host []) = (Inr env, h')
    \<and> dict_get env ''A'' = Some ''x=y'' \<and> dict_get env ''CFLAGS'' = Some ''-fPIC -O2'' \<and> dict_get env ''CXXFLAGS'' = Some ''-fPIC''"
proof -
  let ?env = "[(''A'', ''x=y''), (''CFLAGS'', ''-O2'')]"
  have "env_ok ?env" "CR \<notin> set (env_text ?env)" by code_simp+
  moreover have "str_strip ''-fPIC -O2'' = ''-fPIC -O2''" "str_strip ''-fPIC '' = ''-fPIC''" by code_simp+
  ultimately show ?thesis
    using toolset_env_reads_back [of ?env "printing (env_text ?env)" demo_site "bare_host []" "[]" "()"]
    by (force simp: printing_def bare_host_def)
qed

lemma ensure_plan_witness:
  "prefix (hs_ran (snd (ensure (printing []) None demo_site True (bare_host [(built_marker demo_site, File [])]))))
    [clone_cmd demo_site, configure_cmd demo_site ''/b'', install_cmd demo_site]"
proof -
  let ?h = "bare_host [(built_marker demo_site, File [])]"
  obtain r h' where e: "ensure (printing []) None demo_site True ?h = (r, h')" by fastforce
  have "dict_get (s_env demo_site) ''HOMEBREW_PREFIX'' = Some ''/b''" by (simp add: demo_site_def)
  moreover have "source_marker demo_site \<noteq> built_marker demo_site"
    by (simp add: source_marker_def built_marker_def path_join_def demo_site_def)
  ultimately show ?thesis
    using ensure_plan [OF e, of "''/b''"] e by (auto simp: bare_host_def Let_def)
qed

lemma ensure_ignores_tag_witness:
  "ensure (printing []) None (demo_site\<lparr>s_tag := ''v2030''\<rparr>) True (bare_host [(source_marker demo_site, File [])])
    = ensure (printing []) None demo_site True (bare_host [(source_marker demo_site, File [])])"
  by (rule ensure_ignores_tag) (simp add: bare_host_def)

end
