(* ===== verification/Build_Native.thy ===== *)
theory Build_Native
  imports Build_Fizz
begin

text \<open>
  \<open>scripts/build_fizz_deps_native.py\<close>, which builds the dependency tree on macOS and Windows after
  patching two sources, and \<open>scripts/repair_wheel_windows.py\<close>.
\<close>

section \<open>CMake definitions as JSON\<close>

text \<open>\<open>json.dumps\<close> of a dict of texts: \<open>", "\<close> and \<open>": "\<close> as separators, ASCII only.\<close>

definition json_char :: "char \<Rightarrow> latin" where
  "json_char c =
     (let n = (of_char c :: nat) in
      if c = CHR 0x22 then [CHR 0x5C, CHR 0x22]
      else if c = CHR 0x5C then [CHR 0x5C, CHR 0x5C]
      else if n = 8 then [CHR 0x5C, CHR ''b'']
      else if n = 9 then [CHR 0x5C, CHR ''t'']
      else if n = 10 then [CHR 0x5C, CHR ''n'']
      else if n = 12 then [CHR 0x5C, CHR ''f'']
      else if n = 13 then [CHR 0x5C, CHR ''r'']
      else if 32 \<le> n \<and> n \<le> 126 then [c]
      else [CHR 0x5C, CHR ''u'', CHR ''0'', CHR ''0'', digit_char (n div 16), digit_char (n mod 16)])"

definition json_text :: "latin \<Rightarrow> latin" where
  "json_text s = CHR 0x22 # concat (map json_char s) @ [CHR 0x22]"

definition json_dict :: "environ \<Rightarrow> latin" where
  "json_dict d = ''{'' @ join_with '', '' (map (\<lambda>(k, v). json_text k @ '': '' @ json_text v) d) @ ''}''"

definition cmake_defines :: "site \<Rightarrow> latin" where
  "cmake_defines s =
     json_dict
       ([(''CMAKE_POSITION_INDEPENDENT_CODE'', ''ON''), (''CMAKE_POLICY_VERSION_MINIMUM'', ''3.5'')]
        @ (if pl_system (s_platform s) = ''Darwin''
           then [(''CMAKE_OSX_DEPLOYMENT_TARGET'', env_get (s_env s) ''MACOSX_DEPLOYMENT_TARGET'' ''11.0'')] else []))"

section \<open>Patches\<close>

text \<open>\<open>Path(SCRATCH, 'repos').glob('*folly*/folly/crypto/detail/CMakeLists.txt')\<close>\<close>

definition folly_cmake :: "site \<Rightarrow> latin \<Rightarrow> bool" where
  "folly_cmake s p \<longleftrightarrow>
     (let repos = path_join (s_platform s) (s_scratch s) [''repos'', []];
          rest = path_join (s_platform s) [] [''folly'', ''crypto'', ''detail'', ''CMakeLists.txt''];
          name = drop (length repos) (take (length p - length rest) p) in
      prefix repos p \<and> suffix rest p \<and> length repos + length rest \<le> length p
      \<and> path_sep (s_platform s) \<notin> set name \<and> contains ''folly'' name)"

definition glob_paths :: "(latin \<Rightarrow> bool) \<Rightarrow> ('w, latin list) script" where
  "glob_paths P h = (Inr (filter P (dict_keys (hs_files h))), h)"

definition patch_file :: "site \<Rightarrow> latin \<Rightarrow> ('w, unit) script" where
  "patch_file s cml =
     then_do (read_text cml) (\<lambda>text.
       let patched = py_replace ''-mno-sse2'' ''-msse2'' text in
       if patched \<noteq> text
       then then_do (write_text (s_platform s) cml patched) (\<lambda>_.
            say (''patched '' @ cml @ '': -mno-sse2 -> -msse2 (macOS 15 SDK _Float16)''))
       else give ())"

definition patch_folly_sse2 :: "site \<Rightarrow> ('w, unit) script" where
  "patch_folly_sse2 s =
     (if pl_system (s_platform s) \<noteq> ''Darwin'' \<or> pl_machine (s_platform s) \<noteq> ''x86_64'' then give ()
      else then_do (glob_paths (folly_cmake s)) (\<lambda>found.
        if found = [] then say ''warning: folly crypto/detail CMakeLists not found; skipping SSE2 patch''
        else each (patch_file s) found))"

definition glog_manifest :: "site \<Rightarrow> latin" where
  "glog_manifest s = path_join (s_platform s) (s_src s) [''build'', ''fbcode_builder'', ''manifests'', ''glog'']"

definition glog_section :: latin where
  "glog_section = ''[cmake.defines.os=windows]''"

definition patch_glog_shared :: "site \<Rightarrow> ('w, unit) script" where
  "patch_glog_shared s =
     (if pl_system (s_platform s) \<noteq> ''Windows'' then give ()
      else then_do (read_text (glog_manifest s)) (\<lambda>text.
        if \<not> contains glog_section text
        then then_do (write_text (s_platform s) (glog_manifest s)
               (text @ [LF] @ glog_section @ [LF] @ ''BUILD_SHARED_LIBS=ON'' @ [LF])) (\<lambda>_.
             say (''patched '' @ glog_manifest s @ '': glog builds shared on Windows''))
        else give ()))"

section \<open>The build\<close>

text \<open>
  The directories come from the environment; a missing one is a \<open>KeyError\<close> when the module is
  loaded.
\<close>

definition need_env :: "environ \<Rightarrow> latin \<Rightarrow> ('w, latin) script" where
  "need_env env name = (case dict_get env name of None \<Rightarrow> stop_with (KeyRaised name) | Some v \<Rightarrow> give v)"

definition native_site :: "platform \<Rightarrow> latin \<Rightarrow> environ \<Rightarrow> latin \<Rightarrow> ('w, site) script" where
  "native_site pl python env dir =
     then_do (fizz_tag pl env dir) (\<lambda>tag.
     then_do (need_env env ''FIZZ_SRC'') (\<lambda>src.
     then_do (need_env env ''GETDEPS_SCRATCH'') (\<lambda>scratch.
     then_do (need_env env ''FIZZPY_BUILD_INFO'') (\<lambda>out.
     give \<lparr>s_platform = pl, s_tag = tag, s_repo = [], s_src = src, s_scratch = scratch, s_out = out,
       s_python = python, s_env = env\<rparr>))))"

definition native_flags :: "site \<Rightarrow> latin list" where
  "native_flags s =
     (let vcvars = env_get (s_env s) ''VCVARS_PATH'' [] in
      [''--extra-cmake-defines'', cmake_defines s, ''--src-dir='' @ s_src s, ''--allow-system-packages'']
      @ (if vcvars \<noteq> [] then [''--vcvars-path'', vcvars] else []))"

definition native_clone_cmd :: "site \<Rightarrow> latin list" where
  "native_clone_cmd s =
     [''git'', ''-c'', ''core.autocrlf=false'', ''clone'', ''--depth'', ''1'', ''--branch'', s_tag s, FIZZ_REPO, s_src s]"

definition git_dir :: "site \<Rightarrow> latin" where
  "git_dir s = path_join (s_platform s) (s_src s) [''.git'']"

definition fetch_source :: "'w programs \<Rightarrow> site \<Rightarrow> ('w, unit) script" where
  "fetch_source progs s =
     then_do (path_exists (git_dir s)) (\<lambda>cloned.
       if cloned then give ()
       else then_do (path_exists (s_src s)) (\<lambda>there.
            then_do (if there then rmtree (s_platform s) (s_src s) else give ()) (\<lambda>_.
            run progs (s_env s) (native_clone_cmd s))))"

definition forward_slashes :: "latin \<Rightarrow> latin" where
  "forward_slashes p = py_replace [CHR 0x5C] ''/'' p"

definition native_getdeps :: "site \<Rightarrow> latin list \<Rightarrow> latin list \<Rightarrow> latin list" where
  "native_getdeps s action extra = getdeps_cmd (s_python s) s action (native_flags s @ extra)"

definition native_main :: "'w programs \<Rightarrow> site \<Rightarrow> ('w, unit) script" where
  "native_main progs s =
     then_do (fetch_source progs s) (\<lambda>_.
     then_do (patch_glog_shared s) (\<lambda>_.
     then_do (run progs (s_env s) (native_getdeps s [''fetch'', ''--recursive'', ''fizz''] [])) (\<lambda>_.
     then_do (patch_folly_sse2 s) (\<lambda>_.
     then_do (run progs (s_env s) (native_getdeps s [''build'', ''fizz''] [''--no-tests''])) (\<lambda>_.
     then_do (mkdir (s_platform s) (s_out s)) (\<lambda>_.
     then_do (run_program progs (s_env s) True (native_getdeps s [''show-inst-dir'', ''--recursive'', ''fizz''] []))
       (\<lambda>(status, inst).
     publish s (join_with '';'' (map forward_slashes (filter not_blank (split_lines [] inst))))
       (forward_slashes (module_dir s)) ''fizz dependency tree ready; prefix written to '')))))))"

section \<open>Repairing a wheel\<close>

text \<open>\<open>argv\<close> are the arguments; too few raise \<open>IndexError\<close>.\<close>

definition child_named :: "platform \<Rightarrow> latin \<Rightarrow> latin \<Rightarrow> latin \<Rightarrow> bool" where
  "child_named pl root name p \<longleftrightarrow>
     (let up = path_join pl root [[]]; rest = path_join pl [] [name];
          dir = drop (length up) (take (length p - length rest) p) in
      prefix up p \<and> suffix rest p \<and> length up + length rest \<le> length p \<and> dir \<noteq> [] \<and> path_sep pl \<notin> set dir)"

definition dll_dirs :: "platform \<Rightarrow> latin \<Rightarrow> files \<Rightarrow> latin list" where
  "dll_dirs pl installed fs =
     concat (map (\<lambda>name. filter (\<lambda>p. child_named pl installed name p \<and> is_dir fs p) (dict_keys fs)) [''bin'', ''lib''])"

definition repair_main :: "'w programs \<Rightarrow> platform \<Rightarrow> latin \<Rightarrow> environ \<Rightarrow> latin list \<Rightarrow> ('w, unit) script" where
  "repair_main progs pl python env argv h =
     (case argv of
        dest_dir # wheel # rest \<Rightarrow>
          then_do (need_env env ''GETDEPS_SCRATCH'') (\<lambda>scratch h.
            (let dirs = dll_dirs pl (path_join pl scratch [''installed'']) (hs_files h);
                 cmd = [python, ''-m'', ''delvewheel'', ''repair'', ''--add-path'', join_with (list_sep pl) dirs,
                   ''-w'', dest_dir, ''-v'', wheel] in
             run progs env cmd h)) h
      | _ \<Rightarrow> (Inl (KeyRaised ''list index out of range''), h))"

section \<open>The patches\<close>

text \<open>Every file of the tree lies in a directory of the tree.\<close>

definition tree_ok :: "platform \<Rightarrow> files \<Rightarrow> bool" where
  "tree_ok pl fs \<longleftrightarrow> list_all (\<lambda>p. \<not> is_dir fs p \<longrightarrow> ancestors pl p \<noteq> [] \<longrightarrow> is_dir fs (last (ancestors pl p))) (dict_keys fs)"

definition sse2_clean :: "latin \<Rightarrow> bool" where
  "sse2_clean t \<longleftrightarrow> \<not> contains ''-mno-sse2'' (universal_newlines t)"

lemma no_sse2_left: "\<not> contains ''-mno-sse2'' (py_replace ''-mno-sse2'' ''-msse2'' t)"
proof (rule py_replace_removes)
  fix j :: nat and ys :: latin
  assume "j < length ''-msse2''"
  then have "j \<in> {0, 1, 2, 3, 4, 5}" by auto
  then show "\<not> prefix ''-mno-sse2'' (drop j ''-msse2'' @ ys)" by auto
next
  fix i :: nat
  assume "0 < i" "i < length ''-mno-sse2''"
  then have "i \<in> {1, 2, 3, 4, 5, 6, 7, 8}" by auto
  then show "\<not> prefix (drop i ''-mno-sse2'') ''-msse2'' \<and> \<not> prefix ''-msse2'' (drop i ''-mno-sse2'')" by auto
qed simp

lemma write_in_tree:
  assumes "tree_ok pl (hs_files h)" "dict_get (hs_files h) p = Some (File t)"
  shows "write_text pl p t' h = (Inr (), h\<lparr>hs_files := dict_set p (File (py_replace [LF] (line_sep pl) t')) (hs_files h)\<rparr>)"
proof -
  have "p \<in> set (dict_keys (hs_files h))" using map_of_SomeD [OF assms(2)] by force
  moreover have "\<not> is_dir (hs_files h) p" using assms(2) by (simp add: is_dir_def)
  ultimately show ?thesis using assms(1) by (auto simp: tree_ok_def list_all_iff write_text_def)
qed

lemma dict_keys_set: "dict_get d k \<noteq> None \<Longrightarrow> dict_keys (dict_set k v d) = dict_keys d"
  by (induction d) (auto split: if_splits)

lemma tree_ok_write:
  assumes "tree_ok pl fs" "dict_get fs p = Some (File t)"
  shows "tree_ok pl (dict_set p (File t') fs)"
proof -
  have "is_dir (dict_set p (File t') fs) q = is_dir fs q" for q
    using assms(2) by (simp add: is_dir_def dict_get_set)
  then show ?thesis using assms by (simp add: tree_ok_def dict_keys_set)
qed

lemma patch_file_clean:
  assumes "dict_get (hs_files h) p = Some (File t)" "sse2_clean t"
  shows "patch_file s p h = (Inr (), h)"
  using assms by (simp add: patch_file_def then_do_def read_text_def sse2_clean_def py_replace_none give_def)

lemma patch_file_dirty:
  assumes "tree_ok (s_platform s) (hs_files h)" "dict_get (hs_files h) p = Some (File t)" "\<not> sse2_clean t"
  shows "\<exists>h' t'. patch_file s p h = (Inr (), h') \<and> hs_files h' = dict_set p (File t') (hs_files h) \<and> sse2_clean t'"
proof -
  let ?new = "py_replace ''-mno-sse2'' ''-msse2'' (universal_newlines t)"
  have "CR \<notin> set ?new"
  proof -
    have "set (py_replace old (new :: latin) xs) \<subseteq> set new \<union> set xs" for old new xs
      by (induction old new xs rule: py_replace.induct) (auto dest: in_set_dropD)
    then show ?thesis using universal_newlines_no_cr [of t] by fastforce
  qed
  from written_text_read_back [OF this, of "s_platform s"]
  have clean: "sse2_clean (py_replace [LF] (line_sep (s_platform s)) ?new)"
    using no_sse2_left by (simp add: sse2_clean_def)
  have "?new \<noteq> universal_newlines t" using assms(3) no_sse2_left [of "universal_newlines t"] by (auto simp: sse2_clean_def)
  then show ?thesis
    using clean write_in_tree [OF assms(1,2)] assms(2)
    by (auto simp: patch_file_def then_do_def read_text_def Let_def say_def)
qed

definition patched_from :: "latin set \<Rightarrow> files \<Rightarrow> files \<Rightarrow> bool" where
  "patched_from ps fs fs' \<longleftrightarrow> dict_keys fs' = dict_keys fs
     \<and> (\<forall>p. dict_get fs' p = dict_get fs p
          \<or> p \<in> ps \<and> (\<exists>t t'. dict_get fs p = Some (File t) \<and> dict_get fs' p = Some (File t') \<and> sse2_clean t'))
     \<and> (\<forall>p t. p \<in> ps \<longrightarrow> dict_get fs' p = Some (File t) \<longrightarrow> sse2_clean t)"

lemma each_patch:
  assumes "tree_ok (s_platform s) (hs_files h)" "\<forall>p \<in> set ps. \<exists>t. dict_get (hs_files h) p = Some (File t)"
  shows "\<exists>h'. each (patch_file s) ps h = (Inr (), h') \<and> patched_from (set ps) (hs_files h) (hs_files h')"
  using assms
proof (induction ps arbitrary: h)
  case Nil
  show ?case by (simp add: give_def patched_from_def)
next
  case (Cons p ps)
  from Cons.prems(2) obtain t where t: "dict_get (hs_files h) p = Some (File t)" by auto
  obtain h1 where h1: "patch_file s p h = (Inr (), h1)" "patched_from {p} (hs_files h) (hs_files h1)"
    "tree_ok (s_platform s) (hs_files h1)" "\<forall>p \<in> set ps. \<exists>t. dict_get (hs_files h1) p = Some (File t)"
  proof (cases "sse2_clean t")
    case True
    show ?thesis
      by (rule that [OF patch_file_clean [OF t True]]) (use t True Cons.prems in \<open>simp_all add: patched_from_def\<close>)
  next
    case False
    from patch_file_dirty [OF Cons.prems(1) t False] obtain h1 t' where
      "patch_file s p h = (Inr (), h1)" "hs_files h1 = dict_set p (File t') (hs_files h)" "sse2_clean t'" by blast
    then show ?thesis
      using t Cons.prems tree_ok_write [OF Cons.prems(1) t]
      by (intro that [of h1]) (auto simp: patched_from_def dict_keys_set dict_get_set)
  qed
  from Cons.IH [OF h1(3,4)] obtain h' where h': "each (patch_file s) ps h1 = (Inr (), h')"
    "patched_from (set ps) (hs_files h1) (hs_files h')" by blast
  have "patched_from (set (p # ps)) (hs_files h) (hs_files h')"
    using h1(2) h'(2) unfolding patched_from_def by (intro conjI allI impI) (metis insertCI insertE list.set(2) singletonD singletonI)+
  with h1(1) h'(1) show ?case by (simp add: then_do_def)
qed

lemma each_clean:
  "\<forall>p \<in> set ps. \<exists>t. dict_get (hs_files h) p = Some (File t) \<and> sse2_clean t \<Longrightarrow> each (patch_file s) ps h = (Inr (), h)"
  by (induction ps) (auto simp: give_def then_do_def patch_file_clean)

text \<open>On Windows the section for glog is there afterwards, and adding it again changes nothing.\<close>

lemma patch_glog_idempotent:
  assumes "pl_system (s_platform s) = ''Windows''" "tree_ok (s_platform s) (hs_files h)"
    and "dict_get (hs_files h) (glog_manifest s) = Some (File t)"
  shows "\<exists>h' t'. patch_glog_shared s h = (Inr (), h') \<and> dict_get (hs_files h') (glog_manifest s) = Some (File t')
    \<and> prefix (universal_newlines t) (universal_newlines t') \<and> contains glog_section (universal_newlines t')
    \<and> patch_glog_shared s h' = (Inr (), h')"
proof (cases "contains glog_section (universal_newlines t)")
  case True
  then show ?thesis using assms by (auto simp: patch_glog_shared_def then_do_def read_text_def give_def)
next
  case False
  let ?new = "universal_newlines t @ [LF] @ glog_section @ [LF] @ ''BUILD_SHARED_LIBS=ON'' @ [LF]"
  have "CR \<notin> set ?new" using universal_newlines_no_cr [of t] by (simp add: glog_section_def)
  note reread = written_text_read_back [OF this, of "s_platform s"]
  have "contains glog_section ?new" unfolding contains_iff by (rule exI [of _ "universal_newlines t @ [LF]"]) simp
  with False write_in_tree [OF assms(2,3)] assms(1,3) reread show ?thesis
    by (auto simp: patch_glog_shared_def then_do_def read_text_def give_def say_def dict_get_set)
qed

section \<open>The result of a build\<close>

lemma set_forward_slashes: "CHR 0x5C \<notin> set (forward_slashes p)"
  by (auto simp: forward_slashes_def py_replace_char split: if_splits)

lemma forward_slashes_no_cr: "CR \<notin> set p \<Longrightarrow> CR \<notin> set (forward_slashes p)"
  by (auto simp: forward_slashes_def py_replace_char split: if_splits)

lemma split_lines_no_cr: "CR \<notin> set line \<Longrightarrow> l \<in> set (split_lines line s) \<Longrightarrow> CR \<notin> set l"
  by (induction line s rule: split_lines.induct) (auto simp: is_line_break_def split: if_splits)

lemma set_join_with: "set (join_with sep xs) \<subseteq> set sep \<union> \<Union> (set ` set xs)"
  by (induction sep xs rule: join_with.induct) auto

definition joined_dirs :: "latin \<Rightarrow> latin" where
  "joined_dirs inst = join_with '';'' (map forward_slashes (filter not_blank (split_lines [] inst)))"

lemma joined_dirs_chars: "CR \<notin> set (joined_dirs inst)" "CHR 0x5C \<notin> set (joined_dirs inst)"
proof -
  have "CR \<notin> set (forward_slashes l) \<and> CHR 0x5C \<notin> set (forward_slashes l)" if "l \<in> set (split_lines [] inst)" for l
    using forward_slashes_no_cr split_lines_no_cr [OF _ that] set_forward_slashes by simp
  then show "CR \<notin> set (joined_dirs inst)" "CHR 0x5C \<notin> set (joined_dirs inst)"
    using set_join_with [of "'';''" "map forward_slashes (filter not_blank (split_lines [] inst))"]
    by (fastforce simp: joined_dirs_def)+
qed

lemma publish_writes:
  assumes "publish s joined modules line h = (Inr (), h')"
  shows "dict_get (hs_files h') (out_file s ''prefix.txt'') = Some (File (py_replace [LF] (line_sep (s_platform s)) (joined @ [LF])))
    \<and> dict_get (hs_files h') (out_file s ''module_dir.txt'') = Some (File (py_replace [LF] (line_sep (s_platform s)) (modules @ [LF])))"
  using assms
  by (auto simp: publish_def then_do_Inr_iff write_text_def say_def dict_get_set out_file_def out_of_dir split: if_splits)

definition show_cmd :: "site \<Rightarrow> latin list" where
  "show_cmd s = native_getdeps s [''show-inst-dir'', ''--recursive'', ''fizz''] []"

definition build_cmds :: "site \<Rightarrow> latin list list" where
  "build_cmds s = [native_getdeps s [''fetch'', ''--recursive'', ''fizz''] [],
     native_getdeps s [''build'', ''fizz''] [''--no-tests''], show_cmd s]"

lemma issues_patch_glog [issuing]: "issues (patch_glog_shared s) []"
proof -
  have "issues (patch_glog_shared s) ([] @ [] @ [])"
    unfolding patch_glog_shared_def by (intro issuing) (simp_all add: issues_give)
  then show ?thesis by simp
qed

lemma issues_patch_file: "issues (patch_file s p) []"
proof -
  have "issues (patch_file s p) ([] @ [] @ [])"
    unfolding patch_file_def Let_def by (intro issuing) (simp_all add: issues_give)
  then show ?thesis by simp
qed

lemma issues_glob: "issues (glob_paths P) []"
  by (simp add: issues_def glob_paths_def)

lemma issues_patch_folly [issuing]: "issues (patch_folly_sse2 s) []"
proof -
  have "issues (patch_folly_sse2 s) ([] @ [])"
    unfolding patch_folly_sse2_def
    by (intro issuing issues_glob) (simp_all add: issues_give issues_say issues_each issues_patch_file)
  then show ?thesis by simp
qed

lemma issues_fetch_source:
  "\<exists>m. fetch_source progs s h = m h
    \<and> issues m (if dict_get (hs_files h) (git_dir s) = None then [native_clone_cmd s] else [])"
proof (cases "dict_get (hs_files h) (git_dir s) = None")
  case True
  let ?m = "then_do (if dict_get (hs_files h) (s_src s) \<noteq> None then rmtree (s_platform s) (s_src s) else give ())
    (\<lambda>_. run progs (s_env s) (native_clone_cmd s))"
  have "issues ?m ([] @ [native_clone_cmd s])" by (intro issuing)
  then show ?thesis using True by (intro exI [of _ ?m]) (auto simp: fetch_source_def)
next
  case False
  then show ?thesis by (intro exI [of _ "give ()"]) (auto simp: fetch_source_def issues_give)
qed

definition built :: "'w programs \<Rightarrow> site \<Rightarrow> ('w, int \<times> latin) script" where
  "built progs s =
     then_do (patch_glog_shared s) (\<lambda>_.
     then_do (run progs (s_env s) (native_getdeps s [''fetch'', ''--recursive'', ''fizz''] [])) (\<lambda>_.
     then_do (patch_folly_sse2 s) (\<lambda>_.
     then_do (run progs (s_env s) (native_getdeps s [''build'', ''fizz''] [''--no-tests''])) (\<lambda>_.
     then_do (mkdir (s_platform s) (s_out s)) (\<lambda>_.
     run_program progs (s_env s) True (show_cmd s))))))"

lemma issues_built: "issues (built progs s) (build_cmds s)"
proof -
  have "issues (built progs s) ([] @ [native_getdeps s [''fetch'', ''--recursive'', ''fizz''] []] @ []
      @ [native_getdeps s [''build'', ''fizz''] [''--no-tests'']] @ [] @ [show_cmd s])"
    unfolding built_def by (intro issuing)
  then show ?thesis by (simp add: build_cmds_def)
qed

lemma native_main_parts:
  "native_main progs s = then_do (fetch_source progs s) (\<lambda>_. then_do (built progs s) (\<lambda>(status, inst).
     publish s (joined_dirs inst) (forward_slashes (module_dir s)) ''fizz dependency tree ready; prefix written to ''))"
  by (simp add: native_main_def built_def then_do_assoc show_cmd_def joined_dirs_def)

lemma built_output:
  assumes "built (logged progs) s h = (Inr (status, inst), h')"
  shows "\<exists>log out. snd (hs_world h') = log @ [Exited 0 out] \<and> inst = universal_newlines out"
proof -
  from assms obtain h1 where last: "run_program (logged progs) (s_env s) True (show_cmd s) h1 = (Inr (status, inst), h')"
    by (auto simp: built_def then_do_Inr_iff)
  obtain w log where w: "hs_world h1 = (w, log)" by fastforce
  obtain p fs w' where p: "progs (show_cmd s) (s_env s) (hs_files h1, w) = (p, fs, w')" by (metis prod_cases3)
  from last show ?thesis
    by (cases p) (auto simp: run_program_def logged_def w p Let_def split: if_splits)
qed

lemma issues_native:
  assumes "native_main progs s h = (r, h')"
  shows "\<exists>cmds. hs_ran h' = hs_ran h @ cmds
    \<and> (let plan = (if dict_get (hs_files h) (git_dir s) = None then [native_clone_cmd s] else []) @ build_cmds s in
       prefix cmds plan \<and> (isl r \<or> cmds = plan))"
proof -
  from issues_fetch_source [of progs s h] obtain m where m: "fetch_source progs s h = m h"
    "issues m (if dict_get (hs_files h) (git_dir s) = None then [native_clone_cmd s] else [])" by blast
  let ?f = "\<lambda>u. then_do (built progs s) (\<lambda>(status, inst).
     publish s (joined_dirs inst) (forward_slashes (module_dir s)) ''fizz dependency tree ready; prefix written to '')"
  have "issues (publish s joined modules line) ([] @ [] @ [])" for joined modules line
    unfolding publish_def by (intro issuing)
  then have "issues (?f u) (build_cmds s @ [])" for u
    by (intro issues_then issues_built) (simp add: split_beta)
  then have "issues (then_do m ?f) ((if dict_get (hs_files h) (git_dir s) = None then [native_clone_cmd s] else []) @ build_cmds s)"
    by (intro issues_then m(2)) simp
  moreover have "then_do m ?f h = (r, h')"
    using assms m(1) unfolding native_main_parts by (simp add: then_do_def)
  ultimately show ?thesis using issuesD by fastforce
qed

lemma stops_native: "stops_at_failure (native_main (logged progs) s)"
proof -
  have runs: "stops_at_failure (run (logged progs) env cmd)" for env cmd
    unfolding run_def by (intro stopping)
  have glog: "stops_at_failure (patch_glog_shared s)" for s :: site
    unfolding patch_glog_shared_def by (intro stopping)
  have patch: "stops_at_failure (patch_file s p)" for s :: site and p
    unfolding patch_file_def Let_def by (intro stopping)
  have glob: "stops_at_failure (glob_paths P)" for P
    by (rule no_commands) (simp_all add: glob_paths_def)
  have folly: "stops_at_failure (patch_folly_sse2 s)" for s :: site
    unfolding patch_folly_sse2_def by (intro stopping glob stops_each patch)
  have publish: "stops_at_failure (publish s joined modules line)" for s :: site and joined modules line
    unfolding publish_def by (intro stopping)
  show ?thesis
    unfolding native_main_def fetch_source_def split_beta by (intro stopping runs glog folly publish)
qed

lemma publish_world: "publish s joined modules line h = (r, h') \<Longrightarrow> hs_world h' = hs_world h"
  by (auto simp: publish_def then_do_def write_text_def say_def split: if_splits)

lemma line_end_no_backslash: "CHR 0x5C \<notin> set t \<Longrightarrow> CHR 0x5C \<notin> set (py_replace [LF] (line_sep pl) t)"
  by (auto simp: py_replace_char line_sep_def split: if_splits)

section \<open>Properties\<close>

text \<open>
  C40: the dependency build starts these commands and no other, in this order: a clone when the
  source is not there, then fetching, building and asking for the directories, the last three with
  the same flags, on which the directories depend. It stops at the first that fails, and with its
  failure: every command before the last one started has succeeded. When the build succeeds, all
  of them have, and the files that the wheel build reads are one line each, without a backslash:
  the directories that the last command printed, joined by semicolons, and the directory of the
  modules.
\<close>

theorem native_build:
  assumes "native_main (logged progs) s h = (r, h')" "snd (hs_world h) = []"
  shows "\<exists>cmds. hs_ran h' = hs_ran h @ cmds
    \<and> (let plan = (if dict_get (hs_files h) (git_dir s) = None then [native_clone_cmd s] else []) @ build_cmds s;
           ended = snd (hs_world h') in
       prefix cmds plan \<and> length ended = length cmds \<and> list_all succeeded (butlast ended)
       \<and> (ended \<noteq> [] \<longrightarrow> \<not> succeeded (last ended) \<longrightarrow> r = Inl (failure_of (last cmds) (last ended)))
       \<and> (r = Inr () \<longrightarrow> cmds = plan \<and> list_all succeeded ended \<and> (\<exists>out t t'. last ended = Exited 0 out
            \<and> dict_get (hs_files h') (out_file s ''prefix.txt'') = Some (File t)
            \<and> universal_newlines t = joined_dirs (universal_newlines out) @ [LF] \<and> CHR 0x5C \<notin> set t
            \<and> dict_get (hs_files h') (out_file s ''module_dir.txt'') = Some (File t')
            \<and> t' = py_replace [LF] (line_sep (s_platform s)) (forward_slashes (module_dir s) @ [LF]) \<and> CHR 0x5C \<notin> set t')))"
proof -
  from issues_native [OF assms(1)] obtain cmds where cmds: "hs_ran h' = hs_ran h @ cmds"
    "prefix cmds ((if dict_get (hs_files h) (git_dir s) = None then [native_clone_cmd s] else []) @ build_cmds s)"
    "isl r \<or> cmds = (if dict_get (hs_files h) (git_dir s) = None then [native_clone_cmd s] else []) @ build_cmds s"
    unfolding Let_def by blast
  from stops_at_failureD [OF stops_native assms(1)] cmds(1) assms(2) have ended: "stops_well cmds (snd (hs_world h')) r" by auto
  have files: "\<exists>out t t'. snd (hs_world h') \<noteq> [] \<and> last (snd (hs_world h')) = Exited 0 out
      \<and> dict_get (hs_files h') (out_file s ''prefix.txt'') = Some (File t)
      \<and> universal_newlines t = joined_dirs (universal_newlines out) @ [LF] \<and> CHR 0x5C \<notin> set t
      \<and> dict_get (hs_files h') (out_file s ''module_dir.txt'') = Some (File t')
      \<and> t' = py_replace [LF] (line_sep (s_platform s)) (forward_slashes (module_dir s) @ [LF]) \<and> CHR 0x5C \<notin> set t'"
    if "r = Inr ()"
  proof -
    let ?f = "\<lambda>(status :: int, inst). publish s (joined_dirs inst) (forward_slashes (module_dir s))
        ''fizz dependency tree ready; prefix written to ''"
    have "then_do (fetch_source (logged progs) s) (\<lambda>_. then_do (built (logged progs) s) ?f) h = (Inr (), h')"
      using assms(1) that by (simp add: native_main_parts)
    then obtain h1 where "then_do (built (logged progs) s) ?f h1 = (Inr (), h')" unfolding then_do_Inr_iff by blast
    then obtain x h2 where "built (logged progs) s h1 = (Inr x, h2)" "?f x h2 = (Inr (), h')" unfolding then_do_Inr_iff by blast
    then obtain status inst where built: "built (logged progs) s h1 = (Inr (status, inst), h2)"
      and pub: "publish s (joined_dirs inst) (forward_slashes (module_dir s)) ''fizz dependency tree ready; prefix written to '' h2 = (Inr (), h')"
      by (cases x) auto
    from built_output [OF built] obtain log out where out: "snd (hs_world h2) = log @ [Exited 0 out]" "inst = universal_newlines out"
      by blast
    have "universal_newlines (py_replace [LF] (line_sep (s_platform s)) (joined_dirs inst @ [LF])) = joined_dirs inst @ [LF]"
      by (rule written_text_read_back) (simp add: joined_dirs_chars)
    moreover have "CHR 0x5C \<notin> set (py_replace [LF] (line_sep (s_platform s)) (joined_dirs inst @ [LF]))"
      "CHR 0x5C \<notin> set (py_replace [LF] (line_sep (s_platform s)) (forward_slashes (module_dir s) @ [LF]))"
      by (rule line_end_no_backslash, simp add: joined_dirs_chars set_forward_slashes)+
    ultimately show ?thesis
      using out publish_writes [OF pub] by (simp add: publish_world [OF pub])
  qed
  have "list_all succeeded (snd (hs_world h'))" if "r = Inr ()"
    using ended that files [OF that] by (cases "snd (hs_world h')" rule: rev_cases) (auto simp: stops_well_def succeeded_def)
  with cmds ended files show ?thesis
    unfolding Let_def stops_well_def by (intro exI [of _ cmds]) (intro conjI impI; fastforce)
qed

text \<open>
  On macOS with an Intel processor, patching succeeds on a readable tree; afterwards no build
  file of folly's crypto library has the flag \<open>-mno-sse2\<close>, every other file is as it was, and
  patching again changes nothing.
\<close>

theorem patch_folly_idempotent:
  assumes "pl_system (s_platform s) = ''Darwin''" "pl_machine (s_platform s) = ''x86_64''"
    and "tree_ok (s_platform s) (hs_files h)"
    and "\<forall>p \<in> set (dict_keys (hs_files h)). folly_cmake s p \<longrightarrow> \<not> is_dir (hs_files h) p"
  shows "\<exists>h'. patch_folly_sse2 s h = (Inr (), h')
    \<and> (\<forall>p t. folly_cmake s p \<longrightarrow> dict_get (hs_files h') p = Some (File t) \<longrightarrow> \<not> contains ''-mno-sse2'' (universal_newlines t))
    \<and> (\<forall>p. \<not> folly_cmake s p \<longrightarrow> dict_get (hs_files h') p = dict_get (hs_files h) p)
    \<and> (\<exists>h''. patch_folly_sse2 s h' = (Inr (), h'') \<and> hs_files h'' = hs_files h')"
proof -
  let ?found = "filter (folly_cmake s) (dict_keys (hs_files h))"
  have p: "patch_folly_sse2 s h' = (let found = filter (folly_cmake s) (dict_keys (hs_files h')) in
      if found = [] then say ''warning: folly crypto/detail CMakeLists not found; skipping SSE2 patch'' h'
      else each (patch_file s) found h')" for h' :: "'a host"
    using assms(1,2) by (simp add: patch_folly_sse2_def then_do_def glob_paths_def Let_def)
  show ?thesis
  proof (cases "?found = []")
    case True
    then have "dict_get (hs_files h) p = None" if "folly_cmake s p" for p
      using that by (force simp: filter_empty_conv map_of_eq_None_iff)
    with True show ?thesis by (simp add: p say_def)
  next
    case False
    have "\<forall>p \<in> set ?found. \<exists>t. dict_get (hs_files h) p = Some (File t)"
    proof
      fix p assume "p \<in> set ?found"
      then have "dict_get (hs_files h) p \<noteq> None" "\<not> is_dir (hs_files h) p"
        using assms(4) by (auto simp: map_of_eq_None_iff)
      then show "\<exists>t. dict_get (hs_files h) p = Some (File t)"
        by (cases "dict_get (hs_files h) p"; cases "the (dict_get (hs_files h) p)") (auto simp: is_dir_def)
    qed
    from each_patch [OF assms(3) this] obtain h' where h': "each (patch_file s) ?found h = (Inr (), h')"
      "patched_from (set ?found) (hs_files h) (hs_files h')" by blast
    have k: "dict_keys (hs_files h') = dict_keys (hs_files h)" using h'(2) by (simp add: patched_from_def)
    have files: "\<exists>t. dict_get (hs_files h') p = Some (File t) \<and> sse2_clean t" if "p \<in> set ?found" for p
      using h'(2) that \<open>\<forall>p \<in> set ?found. \<exists>t. dict_get (hs_files h) p = Some (File t)\<close>
      unfolding patched_from_def by metis
    have "each (patch_file s) ?found h' = (Inr (), h')" by (rule each_clean) (use files in blast)
    moreover have "sse2_clean t" if "folly_cmake s p" "dict_get (hs_files h') p = Some (File t)" for p t
    proof -
      have "p \<in> set (dict_keys (hs_files h'))" using map_of_SomeD [OF that(2)] by force
      with files [of p] that k show ?thesis by auto
    qed
    moreover have "dict_get (hs_files h') p = dict_get (hs_files h) p" if "\<not> folly_cmake s p" for p
      using h'(2) that by (auto simp: patched_from_def)
    ultimately show ?thesis using h'(1) False k by (simp add: p sse2_clean_def)
  qed
qed

section \<open>The properties at a concrete site\<close>

lemma native_build_witness:
  "let (r, h') = native_main (logged (printing (''/d/a'' @ [LF] @ ''/d/b'' @ [LF]))) demo_site
       \<lparr>hs_files = [(git_dir demo_site, Dir)], hs_world = ((), []), hs_lines = [], hs_ran = []\<rparr> in
    prefix (hs_ran h') (build_cmds demo_site) \<and> length (snd (hs_world h')) = length (hs_ran h')"
proof -
  let ?progs = "logged (printing (''/d/a'' @ [LF] @ ''/d/b'' @ [LF]))"
  let ?h = "\<lparr>hs_files = [(git_dir demo_site, Dir)], hs_world = ((), []), hs_lines = [], hs_ran = []\<rparr>"
  obtain r h' where m: "native_main ?progs demo_site ?h = (r, h')" by fastforce
  from native_build [OF m] m show ?thesis by (auto simp: Let_def)
qed

definition demo_cml :: latin where
  "demo_cml = ''/d/repos/git-folly/folly/crypto/detail/CMakeLists.txt''"

lemma patch_folly_idempotent_witness:
  "\<exists>h'. patch_folly_sse2 demo_site (bare_host [(demo_cml, File ''-O2 -mno-sse2''), (''/d/repos/git-folly/folly/crypto/detail'', Dir)])
      = (Inr (), h')
    \<and> (\<forall>t. dict_get (hs_files h') demo_cml = Some (File t) \<longrightarrow> \<not> contains ''-mno-sse2'' (universal_newlines t))"
proof -
  let ?h = "bare_host [(demo_cml, File ''-O2 -mno-sse2''), (''/d/repos/git-folly/folly/crypto/detail'', Dir)]"
  have s: "folly_cmake demo_site demo_cml" "tree_ok (s_platform demo_site) (hs_files ?h)"
    "list_all (\<lambda>p. folly_cmake demo_site p \<longrightarrow> \<not> is_dir (hs_files ?h) p) (dict_keys (hs_files ?h))"
    by code_simp+
  have "pl_system (s_platform demo_site) = ''Darwin''" "pl_machine (s_platform demo_site) = ''x86_64''"
    by (simp_all add: demo_site_def)
  from patch_folly_idempotent [OF this s(2)] s(1,3) show ?thesis by (auto simp: list_all_iff)
qed

end
