(* ===== verification/Spec2Isabelle.thy ===== *)
theory Spec2Isabelle
  imports Aio Core_Tasks Hello Wheel_Smoke Cli_Args Response_Json Dev_Container Build_Native
begin

text \<open>
  fizzpy is an HTTP client and a TLS toolbox over Fizz, a TLS 1.3 library in C++. Its own logic is
  Python, over a connection object in C++, and this development models it file by file: what every
  operation returns, what it does to the state it keeps, and what it raises. The network, the
  operating system, Fizz and the Unicode tables are parameters; so is the connection object where
  Python uses it, and \<open>Core_Conn\<close> and \<open>Core_Handshake\<close> show that the object is such a parameter.

  \<^bold>\<open>Parts and how they interact.\<close> A client (\<open>fizzpy/__init__.py\<close>, \<open>fizzpy/aio.py\<close>) parses a URL and
  prepares timeouts and extensions with \<open>fizzpy/_common.py\<close>, renders a request and parses the
  response with \<open>fizzpy/_http.py\<close>, keeps idle connections in a pool, and reaches the core through
  the bridges of \<open>fizzpy/_transport.py\<close>. \<open>fizzpy/_tls.py\<close> instead dresses a connection of the core
  as a socket for other HTTP libraries, which \<open>fizzpy/contrib\<close> plugs into \<open>httpx\<close> and
  \<open>requests\<close>. \<open>fizzpy/probe.py\<close> asks servers which key exchanges they accept, by handshakes of
  \<open>_tls\<close>, and \<open>fizzpy/__main__.py\<close> is its command line. The scripts under \<open>scripts/\<close> build Fizz for
  the core, keep a container for development, and test a wheel.

  \<^bold>\<open>Theories.\<close>
  \<^item> \<open>Prelude\<close>: results as sums with \<open>and_then\<close>, insertion-ordered dicts, searching, splitting and
    joining of lists. \<open>Py_Text\<close>: bytes and text operations of the standard library, and integers as
    \<open>int()\<close> reads them. \<open>Py_Url\<close>: \<open>urlsplit\<close>, \<open>urljoin\<close> and the checks of \<open>ipaddress\<close>.
  \<^item> \<open>Http_Headers\<close> (class \<open>Headers\<close>), \<open>Http_Request\<close> (\<open>build_request\<close>), \<open>Response_Parser\<close> (class
    \<open>ResponseParser\<close>; the record \<open>parser\<close> has its fields). \<open>Parser_Increments\<close> shows that how the
    bytes are cut does not matter, through the locale \<open>incremental\<close>; \<open>Parser_Framing\<close> that rendered
    responses are read back under each framing; \<open>Parser_Invariant\<close> what holds after any calls;
    \<open>Response_Text\<close> how a body becomes text, \<open>Response_Json\<close> a value.
  \<^item> \<open>Py_Json\<close>: \<open>json.dumps\<close> and \<open>json.loads\<close> of the standard library, and \<open>Json_Reads_Back\<close> that the one
    reads what the other writes, on one line of ASCII (locale \<open>json_codec\<close> for those who rely on it).
  \<^item> \<open>Common\<close> (\<open>_common.py\<close>), \<open>Transport\<close> (\<open>_transport.py\<close>), \<open>Pool\<close> (the pools of both clients; locale
    \<open>conn_pool\<close> gives exclusive ownership under any interleaving).
  \<^item> \<open>Client\<close> and \<open>Client_Props\<close> (class \<open>Client\<close>: \<open>perform\<close>, \<open>exchange\<close>, \<open>request_loop\<close> and the rest; a
    \<open>session\<close> is its pool and the world), \<open>Aio\<close> (class \<open>AsyncClient\<close>, equal to \<open>Client\<close>).
    \<open>Client_Tasks\<close>: the same request as a task that stops at every call of the core, many tasks in
    any schedule, and the locale \<open>fresh_net\<close> for what keeps them apart.
  \<^item> \<open>Tls_Socket\<close> (\<open>TlsConfig\<close>, \<open>TlsSocket\<close>, \<open>wrap_socket\<close>, as a refinement of a byte stream and with
    the OS handles it leaves open), \<open>Ssl_Context\<close> (\<open>FizzSSLContext\<close>, its fallback, the adapters).
  \<^item> \<open>Targets\<close> (\<open>parse_target\<close>), \<open>Probe\<close> (\<open>probe\<close> with the traces of its sockets), \<open>Scan\<close>
    (\<open>probe_many\<close> as the step relation \<open>scan_step\<close>), \<open>Report_Json\<close> (the JSON of a result), \<open>Cli\<close>
    (\<open>__main__.py\<close> from the options on; locale \<open>scanner\<close> is what the report asks of a scan),
    \<open>Cli_Args\<close> (the options, as \<open>argparse\<close> reads them).
  \<^item> \<open>Core_Conn\<close> (\<open>_core.cpp\<close>: class \<open>TlsConnection\<close> as a state machine on its event loop, and the
    exceptions it builds); it discharges what the socket and the client assume of the core.
    \<open>Core_Handshake\<close>: how such a connection comes to be, the check of the host name, and who owns
    the socket; \<open>Wheel_Smoke\<close> (\<open>scripts/wheel_smoke.py\<close>) over it. \<open>Client_Secure\<close> is what a
    client relies on for the identity of servers, the locale \<open>secure_net\<close>, and \<open>Core_Client\<close> the
    client over connections of the core, which meet it. \<open>Core_Session\<close> puts client, pool, parser
    and core together for \<open>session_over_core\<close> here, \<open>Core_Tasks\<close> lets requests run at the
    same time, \<open>Hello\<close> follows extensions into the ClientHello, those of the examples, too.
  \<^item> \<open>Build_Host\<close>: the machine of the build scripts, a tree of files and other programs, as scripts
    that return or stop; \<open>Dev_Container\<close> (\<open>dev.py\<close>), \<open>Build_Fizz\<close> (\<open>build_fizz.py\<close>,
    \<open>build_fizz_deps.py\<close>), \<open>Build_Native\<close> (\<open>build_fizz_deps_native.py\<close>,
    \<open>repair_wheel_windows.py\<close>).

  \<^bold>\<open>What the lemmas show.\<close> The parser: fragmentation, round trips for the three framings, its
  invariant, its errors. The clients: requests are delivered, retried once when stale, follow at
  most so many redirects, and return when the reads end; both clients are one function; pooled
  connections have one owner, and of concurrent requests none reads the answer to another. URLs,
  extensions, timeouts: what is accepted, refused, and bounded.
  The connection object: no lost byte, wake-up or deadline; its handle is closed once, and with
  verification a socket is only for a certified host; so is every response of a client, through
  redirects and over the connections it kept. TLS sockets: a byte stream, whatever the
  chunks. The context: never a silent downgrade. The probe: consistent results, no leaked socket in
  any interleaving and no leaked handle unless the timeout does not convert, no escaping network error, a verdict of blocked only after two failures. The
  scan: bounded, ending, one result per target. The command: which arguments give which
  options, exit status and order of the report, the type of its JSON, and that a
  consumer reads every field back. A
  JSON body comes out as the value it was written from. The scripts: which commands they start, in
  which order and state, that they stop at the first failure, and what they leave in the tree. Where the code does not do what it says, a
  theorem states what it does: \<open>wrap_socket_leak\<close>, \<open>interim_response_returned\<close>, \<open>ended_connection_pooled\<close>,
  \<open>append_to_last_misses_repeat\<close>, \<open>chunked_bodiless_waits\<close>, \<open>negative_length_accepted\<close>,
  \<open>header_value_injects_header\<close>, \<open>zero_concurrency_stuck\<close>, \<open>read_hangs_after_close\<close>,
  \<open>certificate_alert_misread\<close>, \<open>ensure_ignores_tag\<close>, \<open>run_drops_dashes\<close>, \<open>run_splits_words\<close>,
  \<open>down_without_docker\<close>, \<open>split_targets_refused\<close>.

  \<^bold>\<open>Interleaving.\<close> Callers of the core wait for one call at a time, but its event loop does not wait
  for them: a world of \<open>Core_Conn\<close> or \<open>Core_Client\<close> says, for every call, how many of the events that
  are due the loop handles before the call reaches it (\<open>until_call\<close>, \<open>conn_until_call\<close>), so data may
  arrive while no read is parked, in any number of pieces, and the properties hold for every such
  schedule. In \<open>Core_Client\<close> the answer to a request is due from the write of the request on. The
  tasks of a probe or a scan, and those of an asyncio client, run in any interleaving of their steps.

  \<^bold>\<open>Termination and bounds.\<close> Loops over data are structural or have a measure; the redirects have
  one, too. Only the readers of JSON have fuel, twice the length of the text and one, and
  \<open>json_loads_not_deep\<close> shows that it is never used up. The read loop of an
  exchange, in either client, is a \<open>partial_function (option)\<close>, where \<open>None\<close> is "does not return", and \<open>request_returns\<close>
  shows that it returns when the reads do. A scan of \<open>n\<close> targets takes at most \<open>3 n\<close> steps.

  \<^bold>\<open>Conventions.\<close> Bytes and text are lists of characters, text being Latin-1 except for the
  arguments of \<open>build_request\<close> and the strings of JSON, which are lists of any code
  points; what needs the Unicode tables (case beyond Latin-1, nameprep) is a parameter. Floats are \<open>pyfloat\<close>: a rational, an infinity or
  NaN; rounding of a product is the parameter \<open>mul\<close>. Integers of Python are unbounded. Paths of the
  build scripts are in normal form.

  \<^bold>\<open>Not modelled.\<close> What Fizz, folly, OpenSSL, Docker and the build tools do, which are not in the
  repository: they are arguments and events, and properties that rely on them name what they rely
  on. Of the native core, its bindings of enums and contexts; the texts for help and
  usage of \<open>argparse\<close>; how floats are written and read; the interpreter's limit on recursion, which
  a deeply nested JSON text meets; \<open>__repr__\<close> methods; what the examples print; the tests. Of the command
  line, output is a list of lines, and a failing \<open>print\<close> fails at the end. Of the smoke test, its
  listening socket.
\<close>

section \<open>A session from end to end\<close>

text \<open>
  C1: from the first connection to the last response: when the connection to a server opens and
  the server answers request after request, each in any framing that keeps the connection open, in
  any pieces, of which any number may arrive before the client asks for them, a client with an
  empty pool returns the answers, decoded, each to the request it belongs to and with the
  parameters of the handshake; it opens this one connection for all of them, makes one write for
  each, and has the connection in the pool in the end, even when the server ends it after the last
  answer. If it does not, no byte is left in the core.
\<close>

theorem session_over_core:
  assumes "xs \<noteq> []" "\<forall>x \<in> set xs. served_ok cd uni cfg (t_host t, t_port t) x" "opens ou cfg t (cw_next w) su certs st"
    and "ou_writes ou (cw_next w) = replies xs late @ os" "\<forall>e \<in> set late. ends_quietly e"
  shows "\<exists>c' es' early'. client_requests (client_net ou) cd uni cfg (map (\<lambda>x. (sv_req x, sv_url x)) xs) \<lparr>pool = [], world = w\<rparr>
    = Some (map (\<lambda>x. Inr (served_response (capture_negotiated st no_params) x)) xs,
        \<lparr>pool = [((t_host t, t_port t), [cw_next w])],
         world = with_conn (cw_next w) c' es' early' os (w\<lparr>cw_next := cw_next w + 1\<rparr>)\<rparr>)
    \<and> (late = [] \<longrightarrow> c' = established su st \<and> es' = [])"
proof -
  from assms(1) obtain x rest where xs: "xs = x # rest" by (cases xs) auto
  from assms(2) have x: "served_ok cd uni cfg (t_host t, t_port t) x" by (simp add: xs)
  show ?thesis
  proof (cases rest)
    case Nil
    with assms(4) have "ou_writes ou (cw_next w) = (Written, delivered_in (sv_pieces x) @ late) # os" by (simp add: xs)
    from request_opens [OF assms(3) x this assms(5)] obtain c' es' early' where
      "client_request (client_net ou) cd uni cfg (sv_req x) (sv_url x) \<lparr>pool = [], world = w\<rparr>
        = Some (Inr (served_response (capture_negotiated st no_params) x), \<lparr>pool = [((t_host t, t_port t), [cw_next w])],
            world = with_conn (cw_next w) c' es' early' os (w\<lparr>cw_next := cw_next w + 1\<rparr>)\<rparr>)"
      "late = [] \<longrightarrow> c' = established su st \<and> es' = []" by blast
    with Nil show ?thesis by (intro exI [of _ c'] exI [of _ es'] exI [of _ early']) (simp add: xs)
  next
    case (Cons y ys)
    with assms(4) have "ou_writes ou (cw_next w) = (Written, delivered_in (sv_pieces x) @ []) # replies rest late @ os"
      by (simp add: xs)
    from request_opens [OF assms(3) x this] obtain early' where
      "client_request (client_net ou) cd uni cfg (sv_req x) (sv_url x) \<lparr>pool = [], world = w\<rparr>
        = Some (Inr (served_response (capture_negotiated st no_params) x), \<lparr>pool = [((t_host t, t_port t), [cw_next w])],
            world = with_conn (cw_next w) (established su st) [] early' (replies rest late @ os) (w\<lparr>cw_next := cw_next w + 1\<rparr>)\<rparr>)"
      by auto
    moreover have "\<forall>z \<in> set rest. served_ok cd uni cfg (t_host t, t_port t) z" using assms(2) by (simp add: xs)
    note requests_on_idle [OF established_sel(1) this assms(5), of ou "cw_next w" su st early' os "w\<lparr>cw_next := cw_next w + 1\<rparr>"]
    ultimately show ?thesis by (auto simp: xs)
  qed
qed

lemma session_over_core_witness:
  "\<exists>s'. client_requests (client_net demo_server) demo_codec demo_unicode demo_settings
      [(demo_req ''GET'', ''https://h''), (demo_req ''GET'', ''https://h/x'')] \<lparr>pool = [], world = no_connections\<rparr>
    = Some ([Inr (served_response (capture_negotiated demo_client_state no_params) demo_first),
        Inr (served_response (capture_negotiated demo_client_state no_params) demo_second)], s')
    \<and> pool s' = [((''h'', 443), [0])]"
proof -
  obtain su where su: "build_setup demo_chain (connect_request demo_settings demo_target) = Inr su"
    by (simp add: build_setup_def connect_request_def demo_settings_def demo_chain_def Let_def)
  have "opens demo_server demo_settings demo_target (cw_next no_connections) su [''h''] demo_client_state"
    using su by (simp add: opens_def demo_server_def demo_throws_def)
  from session_over_core [where cd = demo_codec and uni = demo_unicode, OF _ _ this,
      of "[demo_first, demo_second]" "[Reading EofIn]" "[]"] demo_served_ok
  show ?thesis by (fastforce simp: demo_server_def demo_first_def demo_second_def no_connections_def)
qed

end
